(* ===== verification/Names.thy ===== *)
theory Names
  imports Prelude
begin

text \<open>
  The validated string newtypes of \<open>crates/core\<close>: \<open>Segment\<close> (\<open>segment.rs\<close>), \<open>NativeId\<close>
  (\<open>native_id.rs\<close>), \<open>Verb\<close> (\<open>verb.rs\<close>), \<open>CedarIdent\<close> and the Cedar names derived from segments
  (\<open>cedar_ident.rs\<close>), and the crate's error type (\<open>error.rs\<close>). The locale \<open>validated_string\<close> is
  the contract all of them share; each constructor is proved to satisfy it.
\<close>

section \<open>Errors\<close>

datatype core_error =
    Parse (err_field: string) (err_value: string) (err_reason: string)
  | Config string
  | InvalidFlagType string
  | InvalidPercentage nat
  | InvalidConfigVersion string
  | SpineError (err_fgrn: string) (spine_reason: string)
  | GrantError (err_fgrn: string) (grant_reason: string)

text \<open>The UTF-8 bytes of the em dash that some error messages contain.\<close>

definition em_dash :: string where
  "em_dash = [CHR 0xE2, CHR 0x80, CHR 0x94]"

fun core_error_display :: "core_error \<Rightarrow> string" where
  "core_error_display (Parse field val reason) =
     ''invalid '' @ field @ '': '' @ quoted val @ '' '' @ em_dash @ '' '' @ reason"
| "core_error_display (Config m) = ''configuration error: '' @ m"
| "core_error_display (InvalidFlagType t) = ''unknown feature flag type: '' @ t"
| "core_error_display (InvalidPercentage n) =
     ''invalid percentage: '' @ show_nat n @ '' (expected 0..=100)''"
| "core_error_display (InvalidConfigVersion raw) =
     ''invalid config version: '' @ raw @ '' (expected YYYY-MM-DD)''"
| "core_error_display (SpineError f reason) = ''spine violation: '' @ reason @ '': '' @ f"
| "core_error_display (GrantError f reason) = ''grant violation: '' @ reason @ '': '' @ f"

section \<open>The contract of a validated newtype\<close>

locale validated_string =
  fixes construct :: "string \<Rightarrow> ('e, 'a) result"
    and inner :: "'a \<Rightarrow> string"
    and accepts :: "string \<Rightarrow> bool"
  assumes construct_ok: "accepts s \<Longrightarrow> \<exists>x. construct s = Inr x \<and> inner x = s"
    and construct_err: "\<not> accepts s \<Longrightarrow> \<exists>e. construct s = Inl e"
    and inner_inject: "inner x = inner y \<Longrightarrow> x = y"
begin

lemma construct_Inr_iff: "construct s = Inr x \<longleftrightarrow> accepts s \<and> inner x = s"
  using construct_ok construct_err inner_inject by (metis Inl_Inr_False sum.inject(2))

lemma construct_round_trip: "accepts (inner x) \<Longrightarrow> construct (inner x) = Inr x"
  by (simp add: construct_Inr_iff)

lemma construct_inner: "construct s = Inr x \<Longrightarrow> inner x = s"
  by (simp add: construct_Inr_iff)

lemma construct_accepts: "construct s = Inr x \<Longrightarrow> accepts (inner x)"
  by (auto simp: construct_Inr_iff)

lemma construct_inject: "construct s = Inr x \<Longrightarrow> construct t = Inr x \<Longrightarrow> s = t"
  by (auto simp: construct_Inr_iff)

lemma collect_construct_Inr_iff:
  "collect_results (map construct ss) = Inr xs \<longleftrightarrow> ss = map inner xs \<and> (\<forall>x \<in> set xs. accepts (inner x))"
proof (induction ss arbitrary: xs)
  case (Cons s ss)
  then show ?case by (cases xs) (auto simp: collect_results_Inr_iff construct_Inr_iff)
qed (auto simp: collect_results_Inr_iff)

end

section \<open>Segment\<close>

datatype segment = Segment (seg_str: string)

definition segment_char :: "char \<Rightarrow> bool" where
  "segment_char b \<longleftrightarrow> is_ascii_lowercase b \<or> is_ascii_digit b \<or> b = CHR ''-''"

definition segment_try_new :: "string \<Rightarrow> (core_error, segment) result" where
  "segment_try_new s =
     (if s = [] then Inl (Parse ''segment'' s ''cannot be empty'')
      else if \<not> is_ascii_lowercase (hd s) \<and> \<not> is_ascii_digit (hd s) then
        Inl (Parse ''segment'' s ''must start with a lowercase letter or digit'')
      else if ends_with s ''-'' then Inl (Parse ''segment'' s ''must not end with a hyphen'')
      else if contains_str s ''--'' then
        Inl (Parse ''segment'' s ''consecutive hyphens are not allowed'')
      else if \<not> list_all segment_char s then
        Inl (Parse ''segment'' s ''must contain only lowercase letters, digits, and hyphens'')
      else Inr (Segment s))"

text \<open>The documented grammar: non-empty labels over \<open>[a-z0-9]\<close> joined by single hyphens.\<close>

definition label_char :: "char \<Rightarrow> bool" where
  "label_char b \<longleftrightarrow> is_ascii_lowercase b \<or> is_ascii_digit b"

definition segment_grammar :: "string \<Rightarrow> bool" where
  "segment_grammar s \<longleftrightarrow>
     list_all (\<lambda>l. l \<noteq> [] \<and> list_all label_char l) (split_on CHR ''-'' s)"

definition valid_segment :: "string \<Rightarrow> bool" where
  "valid_segment s \<longleftrightarrow>
     s \<noteq> [] \<and> label_char (hd s) \<and> \<not> ends_with s ''-'' \<and> \<not> contains_str s ''--'' \<and>
     list_all segment_char s"

abbreviation segment_wf :: "segment \<Rightarrow> bool" where
  "segment_wf x \<equiv> valid_segment (seg_str x)"

lemma segment_try_new_Inr_iff: "segment_try_new s = Inr x \<longleftrightarrow> valid_segment s \<and> seg_str x = s"
  by (cases x) (auto simp: segment_try_new_def valid_segment_def label_char_def)

interpretation seg: validated_string segment_try_new seg_str valid_segment
proof unfold_locales
  fix s assume "valid_segment s"
  then show "\<exists>x. segment_try_new s = Inr x \<and> seg_str x = s"
    using segment_try_new_Inr_iff [of s "Segment s"] by auto
next
  fix s assume "\<not> valid_segment s"
  then show "\<exists>e. segment_try_new s = Inl e"
    using segment_try_new_Inr_iff by (cases "segment_try_new s") auto
next
  fix x y assume "seg_str x = seg_str y"
  then show "x = y" by (cases x; cases y) simp
qed

lemma not_label_hyphen [simp]: "\<not> label_char CHR ''-''"
  by (simp add: label_char_def byte_class_defs)

lemma segment_char_label: "segment_char b \<longleftrightarrow> label_char b \<or> b = CHR ''-''"
  by (auto simp: segment_char_def label_char_def)

lemma ends_with_single: "ends_with s [d] \<longleftrightarrow> s \<noteq> [] \<and> last s = d"
proof
  assume "ends_with s [d]"
  then show "s \<noteq> [] \<and> last s = d" by (auto simp: ends_with_iff)
next
  assume "s \<noteq> [] \<and> last s = d"
  then show "ends_with s [d]"
    using append_butlast_last_id [of s] by (auto simp: ends_with_iff intro: exI [of _ "butlast s"])
qed

lemma contains_hyphens_Cons:
  "contains_str (c # s) ''--'' \<longleftrightarrow> (c = CHR ''-'' \<and> s \<noteq> [] \<and> hd s = CHR ''-'') \<or> contains_str s ''--''"
  by (cases s) (auto simp: starts_with_def)

lemma split_hyphen_Cons:
  "c \<noteq> d \<Longrightarrow> split_on d (c # s) = (c # hd (split_on d s)) # tl (split_on d s)"
  by (cases "split_on d s") auto

lemma hd_split_on_Nil_iff: "hd (split_on d s) = [] \<longleftrightarrow> s = [] \<or> hd s = d"
  by (cases s) (auto split: list.splits)

lemma segment_labels:
  "list_all segment_char s \<and> \<not> contains_str s ''--'' \<and> (s \<noteq> [] \<longrightarrow> last s \<noteq> CHR ''-'') \<longleftrightarrow>
   list_all (\<lambda>l. l \<noteq> [] \<and> list_all label_char l) (tl (split_on CHR ''-'' s)) \<and>
   list_all label_char (hd (split_on CHR ''-'' s))"
proof (induction s)
  case (Cons c s)
  show ?case
  proof (cases "c = CHR ''-''")
    case True
    with Cons show ?thesis
      by (cases "split_on CHR ''-'' s"; cases s)
        (auto simp: contains_hyphens_Cons segment_char_label starts_with_def split: if_splits list.splits)
  next
    case False
    note split = split_hyphen_Cons [OF this, of s]
    show ?thesis
    proof (cases "s = []")
      case s: False
      then have "contains_str (c # s) ''--'' \<longleftrightarrow> contains_str s ''--''"
        using \<open>c \<noteq> CHR ''-''\<close> by (simp add: contains_hyphens_Cons del: contains_str.simps)
      then show ?thesis
        using Cons False s
        by (simp add: split segment_char_label del: contains_str.simps split_on.simps) blast
    qed (use False in \<open>simp add: starts_with_def segment_char_label\<close>)
  qed
qed simp
lemma valid_segment_grammar: "valid_segment s \<longleftrightarrow> segment_grammar s"
proof (cases s)
  case (Cons c t)
  have hd: "label_char (hd s) \<longleftrightarrow> hd (split_on CHR ''-'' s) \<noteq> []" if "list_all segment_char s"
    using that Cons by (auto simp: hd_split_on_Nil_iff segment_char_label simp del: split_on.simps)
  have "segment_grammar s \<longleftrightarrow> hd (split_on CHR ''-'' s) \<noteq> [] \<and>
      list_all (\<lambda>l. l \<noteq> [] \<and> list_all label_char l) (tl (split_on CHR ''-'' s)) \<and>
      list_all label_char (hd (split_on CHR ''-'' s))"
    unfolding segment_grammar_def by (cases "split_on CHR ''-'' s") auto
  also have "\<dots> \<longleftrightarrow> hd (split_on CHR ''-'' s) \<noteq> [] \<and> list_all segment_char s \<and>
      \<not> contains_str s ''--'' \<and> (s \<noteq> [] \<longrightarrow> last s \<noteq> CHR ''-'')"
    using segment_labels [of s] by blast
  finally show ?thesis
    using hd Cons by (auto simp: valid_segment_def ends_with_single)
qed (simp add: valid_segment_def segment_grammar_def)

section \<open>Typed identifiers\<close>

text \<open>
  \<open>UserId\<close>, \<open>TenantId\<close>, \<open>ProjectId\<close>, \<open>GroupName\<close>, \<open>PolicyName\<close> and \<open>OrganizationId\<close> are newtypes
  over \<open>Segment\<close> with the same constructor.
\<close>

type_synonym user_id = segment
type_synonym tenant_id = segment
type_synonym project_id = segment
type_synonym group_name = segment
type_synonym policy_name = segment
type_synonym organization_id = segment

definition typed_id_new :: "string \<Rightarrow> (core_error, segment) result" where
  "typed_id_new raw = segment_try_new raw"

definition tenant_of_organization :: "organization_id \<Rightarrow> tenant_id" where
  "tenant_of_organization org = org"

section \<open>NativeId\<close>

datatype native_id = NativeId (nid_str: string)

definition native_id_try_new :: "string \<Rightarrow> (core_error, native_id) result" where
  "native_id_try_new s =
     (if s = [] then Inl (Parse ''native_id'' s ''cannot be empty'')
      else if \<not> list_all is_ascii_graphic s then
        Inl (Parse ''native_id'' s ''must be visible ASCII only'')
      else if CHR '':'' \<in> set s then
        Inl (Parse ''native_id'' s (''must not contain '' @ quoted '':''))
      else if CHR ''*'' \<in> set s then
        Inl (Parse ''native_id'' s (''must not contain '' @ quoted ''*''))
      else Inr (NativeId s))"

definition valid_native_id :: "string \<Rightarrow> bool" where
  "valid_native_id s \<longleftrightarrow>
     s \<noteq> [] \<and> list_all is_ascii_graphic s \<and> CHR '':'' \<notin> set s \<and> CHR ''*'' \<notin> set s"

abbreviation native_id_wf :: "native_id \<Rightarrow> bool" where
  "native_id_wf x \<equiv> valid_native_id (nid_str x)"

lemma native_id_try_new_Inr_iff:
  "native_id_try_new s = Inr x \<longleftrightarrow> valid_native_id s \<and> nid_str x = s"
  by (cases x) (auto simp: native_id_try_new_def valid_native_id_def)

lemma validated_stringI:
  assumes "\<And>s x. mk s = Inr x \<longleftrightarrow> ok s \<and> get x = s"
    and "\<And>s. ok s \<Longrightarrow> \<exists>x. get x = s"
    and "\<And>x y. get x = get y \<Longrightarrow> x = y"
  shows "validated_string mk get ok"
proof
  fix s assume "ok s"
  with assms(1,2) show "\<exists>x. mk s = Inr x \<and> get x = s" by blast
next
  fix s assume "\<not> ok s"
  with assms(1) show "\<exists>e. mk s = Inl e" by (metis sum.exhaust)
qed (rule assms(3))

interpretation nid: validated_string native_id_try_new nid_str valid_native_id
  by (rule validated_stringI)
    (auto simp: native_id_try_new_Inr_iff intro: native_id.sel native_id.expand)

lemma segment_char_graphic:
  "segment_char b \<Longrightarrow> is_ascii_graphic b \<and> b \<noteq> CHR '':'' \<and> b \<noteq> CHR ''*'' \<and> b \<noteq> CHR ''/'' \<and>
     b \<noteq> CHR ''.'' \<and> b \<noteq> CHR ''_''"
  by (auto simp: segment_char_def byte_class_defs)

lemma valid_segment_char: "valid_segment s \<Longrightarrow> c \<in> set s \<Longrightarrow> segment_char c"
  by (simp add: valid_segment_def list_all_iff)

lemma valid_segment_excludes:
  assumes "valid_segment s"
  shows "CHR '':'' \<notin> set s" "CHR ''*'' \<notin> set s" "CHR ''/'' \<notin> set s" "CHR ''.'' \<notin> set s"
    "CHR ''_'' \<notin> set s"
  using assms segment_char_graphic valid_segment_char by blast+

lemma valid_segment_native_id: "valid_segment s \<Longrightarrow> valid_native_id s"
  using segment_char_graphic
  by (auto simp: valid_segment_def valid_native_id_def list_all_iff valid_segment_excludes)

section \<open>Verb\<close>

datatype verb = Verb (verb_str: string)

definition verb_try_new :: "string \<Rightarrow> (core_error, verb) result" where
  "verb_try_new s =
     (if s = [] then Inl (Parse ''verb'' s ''must not be empty'')
      else if length s > 64 then Inl (Parse ''verb'' s ''must be at most 64 characters'')
      else if \<not> is_ascii_lowercase (hd s) then
        Inl (Parse ''verb'' s ''must start with a lowercase letter'')
      else if \<not> list_all segment_char s then
        Inl (Parse ''verb'' s ''must contain only lowercase letters, digits, and hyphens'')
      else Inr (Verb s))"

definition valid_verb :: "string \<Rightarrow> bool" where
  "valid_verb s \<longleftrightarrow>
     s \<noteq> [] \<and> length s \<le> 64 \<and> is_ascii_lowercase (hd s) \<and> list_all segment_char s"

lemma verb_try_new_Inr_iff: "verb_try_new s = Inr x \<longleftrightarrow> valid_verb s \<and> verb_str x = s"
  by (cases x) (auto simp: verb_try_new_def valid_verb_def)

interpretation vrb: validated_string verb_try_new verb_str valid_verb
  by (rule validated_stringI)
    (auto simp: verb_try_new_Inr_iff intro: verb.sel verb.expand)

section \<open>CedarIdent\<close>

datatype cedar_ident = CedarIdent (ident_str: string)

definition cedar_ident_new :: "string \<Rightarrow> (core_error, cedar_ident) result" where
  "cedar_ident_new s =
     (if s = [] then Inl (Parse ''cedar_ident'' s ''cannot be empty'')
      else if hd s \<noteq> CHR ''_'' \<and> \<not> is_ascii_alphabetic (hd s) then
        Inl (Parse ''cedar_ident'' s ''must start with an underscore or ASCII letter'')
      else if \<not> list_all (\<lambda>b. b = CHR ''_'' \<or> is_ascii_alphanumeric b) s then
        Inl (Parse ''cedar_ident'' s ''must contain only underscores, ASCII letters, and digits'')
      else Inr (CedarIdent s))"

definition valid_cedar_ident :: "string \<Rightarrow> bool" where
  "valid_cedar_ident s \<longleftrightarrow>
     s \<noteq> [] \<and> (hd s = CHR ''_'' \<or> is_ascii_alphabetic (hd s)) \<and>
     list_all (\<lambda>b. b = CHR ''_'' \<or> is_ascii_alphanumeric b) s"

lemma cedar_ident_new_Inr_iff:
  "cedar_ident_new s = Inr x \<longleftrightarrow> valid_cedar_ident s \<and> ident_str x = s"
  by (cases x) (auto simp: cedar_ident_new_def valid_cedar_ident_def)

interpretation cid: validated_string cedar_ident_new ident_str valid_cedar_ident
  by (rule validated_stringI)
    (auto simp: cedar_ident_new_Inr_iff intro: cedar_ident.sel cedar_ident.expand)

text \<open>\<open>Segment::to_cedar_ident\<close> replaces hyphens and calls the unchecked \<open>from_valid\<close>.\<close>

definition cedar_ident_from_valid :: "string \<Rightarrow> cedar_ident" where
  "cedar_ident_from_valid s = CedarIdent s"

definition to_cedar_ident :: "segment \<Rightarrow> cedar_ident" where
  "to_cedar_ident x = cedar_ident_from_valid (replace_char CHR ''-'' CHR ''_'' (seg_str x))"

text \<open>\<open>CedarEntityType::new_from_segments\<close>, \<open>user\<close>, \<open>group\<close> and \<open>CedarNamespace::from_project\<close>.\<close>

definition cedar_entity_type :: "segment \<Rightarrow> segment \<Rightarrow> string" where
  "cedar_entity_type ns entity =
     ident_str (to_cedar_ident ns) @ ''__'' @ ident_str (to_cedar_ident entity)"

definition cedar_namespace_from_project :: "project_id \<Rightarrow> string" where
  "cedar_namespace_from_project project = ident_str (to_cedar_ident project)"

lemma ident_str_to_cedar_ident [simp]:
  "ident_str (to_cedar_ident x) = replace_char CHR ''-'' CHR ''_'' (seg_str x)"
  by (simp add: to_cedar_ident_def cedar_ident_from_valid_def)

lemma replace_hyphen_inject:
  assumes "CHR ''_'' \<notin> set s" "CHR ''_'' \<notin> set t"
    and "replace_char CHR ''-'' CHR ''_'' s = replace_char CHR ''-'' CHR ''_'' t"
  shows "s = t"
proof -
  have "inj_on (\<lambda>c. if c = CHR ''-'' then CHR ''_'' else c) (set s \<union> set t)"
    using assms(1,2) by (auto simp: inj_on_def)
  with assms(3) show ?thesis
    by (auto simp: replace_char_def dest: map_inj_on)
qed

lemma replace_contains:
  assumes "valid_segment s"
  shows "\<not> contains_str (replace_char CHR ''-'' CHR ''_'' s) ''__''"
proof
  assume "contains_str (replace_char CHR ''-'' CHR ''_'' s) ''__''"
  then obtain a b where "map (\<lambda>c. if c = CHR ''-'' then CHR ''_'' else c) s = a @ ''__'' @ b"
    by (auto simp: contains_str_iff replace_char_def)
  then obtain a' c d b' where s: "s = a' @ [c, d] @ b'"
    and "(if c = CHR ''-'' then CHR ''_'' else c) = CHR ''_''"
    and "(if d = CHR ''-'' then CHR ''_'' else d) = CHR ''_''"
    by (auto simp: map_eq_append_conv map_eq_Cons_conv)
  moreover have "c \<noteq> CHR ''_''" "d \<noteq> CHR ''_''"
    using valid_segment_excludes(5) [OF assms] s by auto
  ultimately have "s = a' @ ''--'' @ b'" by (auto split: if_splits)
  then have "contains_str s ''--''" by (auto simp: contains_str_iff)
  with assms show False by (simp add: valid_segment_def)
qed

lemma replace_last:
  assumes "valid_segment s"
  shows "replace_char CHR ''-'' CHR ''_'' s \<noteq> []"
    "last (replace_char CHR ''-'' CHR ''_'' s) \<noteq> CHR ''_''"
    "hd (replace_char CHR ''-'' CHR ''_'' s) \<noteq> CHR ''_''"
proof -
  have s: "s \<noteq> []" "last s \<noteq> CHR ''-''" "hd s \<noteq> CHR ''-''"
    using assms by (auto simp: valid_segment_def ends_with_single)
  moreover have "last s \<noteq> CHR ''_''" "hd s \<noteq> CHR ''_''"
    using last_in_set [OF s(1)] hd_in_set [OF s(1)] valid_segment_excludes(5) [OF assms] by metis+
  ultimately show "replace_char CHR ''-'' CHR ''_'' s \<noteq> []"
    "last (replace_char CHR ''-'' CHR ''_'' s) \<noteq> CHR ''_''"
    "hd (replace_char CHR ''-'' CHR ''_'' s) \<noteq> CHR ''_''"
    by (auto simp: replace_char_def last_map hd_map)
qed

lemma double_sep_prefix:
  assumes "a @ [c, c] @ b = (a @ x) @ [c, c] @ d"
    and "\<not> contains_str (a @ x) [c, c]" and "a @ x \<noteq> []" "last (a @ x) \<noteq> c"
  shows "x = []"
proof (rule ccontr)
  assume "x \<noteq> []"
  then obtain y x' where x: "x = y # x'" by (cases x) auto
  with assms(1) have y: "y = c" and tl: "c # b = x' @ [c, c] @ d" by auto
  show False
  proof (cases x')
    case Nil
    with x y assms(4) show False by simp
  next
    case (Cons z x'')
    with tl have "z = c" by simp
    with x y Cons have "contains_str (a @ x) [c, c]"
      by (auto simp: contains_str_iff intro: exI [of _ a])
    with assms(2) show False ..
  qed
qed

lemma double_sep_unique:
  assumes eq: "a @ [c, c] @ b = a' @ [c, c] @ b'"
    and "\<not> contains_str a [c, c]" "a \<noteq> []" "last a \<noteq> c"
    and "\<not> contains_str a' [c, c]" "a' \<noteq> []" "last a' \<noteq> c"
  shows "a = a' \<and> b = b'"
proof -
  from eq obtain x where "a = a' @ x \<or> a' = a @ x"
    by (auto simp: append_eq_append_conv2)
  then show ?thesis
  proof
    assume a: "a = a' @ x"
    have "x = []" by (rule double_sep_prefix [of a' c b' x b]) (use assms a in auto)
    with a eq show ?thesis by simp
  next
    assume a: "a' = a @ x"
    have "x = []" by (rule double_sep_prefix [of a c b x b']) (use assms a in auto)
    with a eq show ?thesis by simp
  qed
qed

lemma cedar_entity_type_inj:
  assumes "segment_wf ns" "segment_wf ent" "segment_wf ns'" "segment_wf ent'"
    and "cedar_entity_type ns ent = cedar_entity_type ns' ent'"
  shows "ns = ns' \<and> ent = ent'"
proof -
  have "replace_char CHR ''-'' CHR ''_'' (seg_str ns) = replace_char CHR ''-'' CHR ''_'' (seg_str ns') \<and>
    replace_char CHR ''-'' CHR ''_'' (seg_str ent) = replace_char CHR ''-'' CHR ''_'' (seg_str ent')"
    using assms replace_contains replace_last
    by (intro double_sep_unique) (auto simp: cedar_entity_type_def)
  then have "seg_str ns = seg_str ns' \<and> seg_str ent = seg_str ent'"
    using replace_hyphen_inject valid_segment_excludes(5) assms(1-4) by blast
  then show ?thesis by (simp add: segment.expand)
qed

lemma to_cedar_ident_valid_iff:
  assumes "segment_wf x"
  shows "valid_cedar_ident (ident_str (to_cedar_ident x)) \<longleftrightarrow> is_ascii_lowercase (hd (seg_str x))"
proof -
  have ne: "seg_str x \<noteq> []" and hd: "label_char (hd (seg_str x))"
    and all: "list_all segment_char (seg_str x)"
    using assms by (auto simp: valid_segment_def)
  have "list_all (\<lambda>b. b = CHR ''_'' \<or> is_ascii_alphanumeric b)
      (replace_char CHR ''-'' CHR ''_'' (seg_str x))"
    using all by (auto simp: list_all_iff replace_char_def segment_char_def is_ascii_alphanumeric_def
        is_ascii_alphabetic_def)
  moreover have "hd (replace_char CHR ''-'' CHR ''_'' (seg_str x)) = hd (seg_str x)"
    using ne hd by (auto simp: replace_char_def hd_map)
  moreover have "is_ascii_alphabetic (hd (seg_str x)) \<longleftrightarrow> is_ascii_lowercase (hd (seg_str x))"
    using hd by (auto simp: label_char_def byte_class_defs)
  moreover have "hd (seg_str x) \<noteq> CHR ''_''"
    using hd by (auto simp: label_char_def byte_class_defs)
  ultimately show ?thesis
    using ne by (auto simp: valid_cedar_ident_def replace_char_def)
qed

section \<open>Orders\<close>

text \<open>The derived \<open>Ord\<close> of the newtypes is the byte-wise lexicographic order of the string.\<close>

instantiation segment :: linorder
begin

definition less_eq_segment :: "segment \<Rightarrow> segment \<Rightarrow> bool" where
  "less_eq_segment x y \<longleftrightarrow> seg_str x \<le> seg_str y"

definition less_segment :: "segment \<Rightarrow> segment \<Rightarrow> bool" where
  "less_segment x y \<longleftrightarrow> seg_str x < seg_str y"

instance
  by standard (auto simp: less_eq_segment_def less_segment_def intro: segment.expand)

end

instantiation native_id :: linorder
begin

definition less_eq_native_id :: "native_id \<Rightarrow> native_id \<Rightarrow> bool" where
  "less_eq_native_id x y \<longleftrightarrow> nid_str x \<le> nid_str y"

definition less_native_id :: "native_id \<Rightarrow> native_id \<Rightarrow> bool" where
  "less_native_id x y \<longleftrightarrow> nid_str x < nid_str y"

instance
  by standard (auto simp: less_eq_native_id_def less_native_id_def intro: native_id.expand)

end

instantiation verb :: linorder
begin

definition less_eq_verb :: "verb \<Rightarrow> verb \<Rightarrow> bool" where
  "less_eq_verb x y \<longleftrightarrow> verb_str x \<le> verb_str y"

definition less_verb :: "verb \<Rightarrow> verb \<Rightarrow> bool" where
  "less_verb x y \<longleftrightarrow> verb_str x < verb_str y"

instance
  by standard (auto simp: less_eq_verb_def less_verb_def intro: verb.expand)

end


section \<open>Properties of names\<close>

text \<open>
  \<open>Segment::try_new\<close> accepts exactly the hyphen-separated sequences of non-empty labels of
  lowercase letters and digits, and returns the string it was given.
\<close>

theorem segment_try_new_grammar:
  "segment_try_new s = Inr x \<longleftrightarrow> segment_grammar s \<and> seg_str x = s"
  by (simp add: segment_try_new_Inr_iff valid_segment_grammar)

text \<open>
  The Cedar entity type \<open>ns__entity\<close> built from two segments determines both: replacing hyphens
  by underscores and joining with a double underscore never confuses two pairs of segments.
\<close>

theorem cedar_entity_type_unambiguous:
  assumes "segment_wf ns" "segment_wf ent" "segment_wf ns'" "segment_wf ent'"
  shows "cedar_entity_type ns ent = cedar_entity_type ns' ent' \<longleftrightarrow> ns = ns' \<and> ent = ent'"
  using cedar_entity_type_inj [OF assms] by auto

theorem cedar_entity_type_unambiguous_witness:
  "cedar_entity_type (Segment ''a-b'') (Segment ''c'') \<noteq> cedar_entity_type (Segment ''a'') (Segment ''b-c'')"
proof -
  have "segment_wf (Segment ''a-b'')" "segment_wf (Segment ''c'')" "segment_wf (Segment ''a'')"
    "segment_wf (Segment ''b-c'')" by code_simp+
  from cedar_entity_type_unambiguous [OF this] show ?thesis by simp
qed

text \<open>
  \<open>Segment::to_cedar_ident\<close>, which skips the identifier check, yields a valid Cedar identifier
  exactly when the segment starts with a letter; a segment that starts with a digit is legal and
  yields an invalid one.
\<close>

theorem to_cedar_ident_valid:
  assumes "segment_try_new s = Inr x"
  shows "(\<exists>i. cedar_ident_new (ident_str (to_cedar_ident x)) = Inr i) \<longleftrightarrow> is_ascii_lowercase (hd s)"
  using assms to_cedar_ident_valid_iff [of x]
  by (auto simp: segment_try_new_Inr_iff cid.construct_Inr_iff intro: cedar_ident.sel)

theorem to_cedar_ident_valid_witness:
  "\<nexists>i. cedar_ident_new (ident_str (to_cedar_ident (Segment ''2fa''))) = Inr i"
proof -
  have "segment_try_new ''2fa'' = Inr (Segment ''2fa'')" by code_simp
  from to_cedar_ident_valid [OF this] show ?thesis by (simp add: byte_class_defs)
qed

end
