(* ===== verification/Fgrn.thy ===== *)
theory Fgrn
  imports Names
begin

text \<open>
  The stable resource names \<open>fgrn:{organization}:{type}:{id}\<close> of \<open>crates/core/src/fgrn.rs\<close>: kinds,
  parsing, the builders, display, and the derived order.
\<close>

section \<open>FgrnKind\<close>

datatype fgrn_kind = KOrgUnit | KPrincipal | KPrincipalSet | KResource

fun kind_str :: "fgrn_kind \<Rightarrow> string" where
  "kind_str KOrgUnit = ''orgunit''"
| "kind_str KPrincipal = ''principal''"
| "kind_str KPrincipalSet = ''principal-set''"
| "kind_str KResource = ''resource''"

definition kind_from_str :: "string \<Rightarrow> (core_error, fgrn_kind) result" where
  "kind_from_str s =
     (if s = ''orgunit'' then Inr KOrgUnit
      else if s = ''principal'' then Inr KPrincipal
      else if s = ''principal-set'' then Inr KPrincipalSet
      else if s = ''resource'' then Inr KResource
      else Inl (Parse ''fgrn'' s
        (''unknown kind '' @ em_dash @ '' expected orgunit, principal, principal-set, or resource'')))"

lemma kind_from_str_Inr_iff [simp]: "kind_from_str s = Inr k \<longleftrightarrow> kind_str k = s"
  by (cases k) (auto simp: kind_from_str_def)

lemma kind_str_inject [simp]: "kind_str k = kind_str l \<longleftrightarrow> k = l"
  by (cases k; cases l) auto

lemma kind_str_no_colon [simp]: "CHR '':'' \<notin> set (kind_str k)"
  by (cases k) auto

section \<open>Fgrn\<close>

datatype fgrn = Fgrn
  (fgrn_org: segment)
  (fgrn_kind: fgrn_kind)
  (fgrn_id: native_id)
  (fgrn_rtype: "segment option")
  (fgrn_native: "native_id option")
  (fgrn_raw: string)

definition fgrn_parse :: "string \<Rightarrow> (core_error, fgrn) result" where
  "fgrn_parse s =
     (case splitn 4 CHR '':'' s of
        [tag, org, kd, ident] \<Rightarrow>
          if tag \<noteq> ''fgrn'' then
            Inl (Parse ''fgrn'' s ''expected fgrn:{organization}:{type}:{id}'')
          else
            and_then (segment_try_new org) (\<lambda>organization.
            and_then (kind_from_str kd) (\<lambda>kind.
              if kind = KResource then
                (case split_once CHR ''/'' ident of
                   None \<Rightarrow>
                     Inl (Parse ''fgrn'' s ''resource id must be {resource_type}/{native_id}'')
                 | Some (rtype, nid) \<Rightarrow>
                     and_then (segment_try_new rtype) (\<lambda>resource_type.
                     and_then (native_id_try_new nid) (\<lambda>native_id.
                     and_then (native_id_try_new ident) (\<lambda>i.
                       Inr (Fgrn organization kind i (Some resource_type) (Some native_id) s)))))
              else
                and_then (native_id_try_new ident) (\<lambda>i.
                  Inr (Fgrn organization kind i None None s))))
      | _ \<Rightarrow> Inl (Parse ''fgrn'' s ''expected fgrn:{organization}:{type}:{id}''))"

definition fgrn_new ::
  "segment \<Rightarrow> fgrn_kind \<Rightarrow> native_id \<Rightarrow> segment option \<Rightarrow> native_id option \<Rightarrow> fgrn" where
  "fgrn_new organization kind i resource_type native_id =
     Fgrn organization kind i resource_type native_id
       (''fgrn:'' @ seg_str organization @ '':'' @ kind_str kind @ '':'' @ nid_str i)"

definition fgrn_org_unit :: "segment \<Rightarrow> native_id \<Rightarrow> fgrn" where
  "fgrn_org_unit organization i = fgrn_new organization KOrgUnit i None None"

definition fgrn_principal :: "segment \<Rightarrow> native_id \<Rightarrow> fgrn" where
  "fgrn_principal organization i = fgrn_new organization KPrincipal i None None"

definition fgrn_principal_set :: "segment \<Rightarrow> native_id \<Rightarrow> fgrn" where
  "fgrn_principal_set organization i = fgrn_new organization KPrincipalSet i None None"

text \<open>\<open>Fgrn::resource\<close> reaches \<open>unreachable!\<close> when the compound id is refused: the value \<open>None\<close>.\<close>

definition fgrn_resource :: "segment \<Rightarrow> segment \<Rightarrow> native_id \<Rightarrow> fgrn option" where
  "fgrn_resource organization resource_type native_id =
     (case native_id_try_new (seg_str resource_type @ ''/'' @ nid_str native_id) of
        Inl _ \<Rightarrow> None
      | Inr compound \<Rightarrow>
          Some (fgrn_new organization KResource compound (Some resource_type) (Some native_id)))"

definition resource_parts :: "fgrn \<Rightarrow> (segment \<times> native_id) option" where
  "resource_parts f =
     (case (fgrn_rtype f, fgrn_native f) of (Some t, Some n) \<Rightarrow> Some (t, n) | _ \<Rightarrow> None)"

definition fgrn_display :: "fgrn \<Rightarrow> string" where
  "fgrn_display f = fgrn_raw f"

subsection \<open>The type invariant\<close>

definition fgrn_wf :: "fgrn \<Rightarrow> bool" where
  "fgrn_wf f \<longleftrightarrow>
     segment_wf (fgrn_org f) \<and> native_id_wf (fgrn_id f) \<and>
     fgrn_raw f = ''fgrn:'' @ seg_str (fgrn_org f) @ '':'' @ kind_str (fgrn_kind f) @ '':'' @
       nid_str (fgrn_id f) \<and>
     (if fgrn_kind f = KResource then
        \<exists>t n. fgrn_rtype f = Some t \<and> fgrn_native f = Some n \<and> segment_wf t \<and> native_id_wf n \<and>
          nid_str (fgrn_id f) = seg_str t @ ''/'' @ nid_str n
      else fgrn_rtype f = None \<and> fgrn_native f = None)"

lemma fgrn_wf_code [code]:
  "fgrn_wf f \<longleftrightarrow>
     segment_wf (fgrn_org f) \<and> native_id_wf (fgrn_id f) \<and>
     fgrn_raw f = ''fgrn:'' @ seg_str (fgrn_org f) @ '':'' @ kind_str (fgrn_kind f) @ '':'' @
       nid_str (fgrn_id f) \<and>
     (case (fgrn_kind f = KResource, fgrn_rtype f, fgrn_native f) of
        (True, Some t, Some n) \<Rightarrow>
          segment_wf t \<and> native_id_wf n \<and> nid_str (fgrn_id f) = seg_str t @ ''/'' @ nid_str n
      | (False, None, None) \<Rightarrow> True
      | _ \<Rightarrow> False)"
  by (auto simp: fgrn_wf_def split: option.splits)

lemma splitn_4_iff:
  "splitn 4 d s = [a, b, c, e] \<longleftrightarrow>
     s = a @ d # b @ d # c @ d # e \<and> d \<notin> set a \<and> d \<notin> set b \<and> d \<notin> set c"
proof -
  have four: "(4::nat) = Suc (Suc (Suc (Suc 0)))" by simp
  show ?thesis
    by (simp only: four splitn_Cons_iff splitn.simps(2)) auto
qed

lemma fgrn_parse_split:
  "fgrn_parse s = Inr f \<longleftrightarrow>
     (\<exists>org kd ident. splitn 4 CHR '':'' s = [''fgrn'', org, kd, ident] \<and>
        fgrn_raw f = s \<and> seg_str (fgrn_org f) = org \<and> valid_segment org \<and>
        kind_str (fgrn_kind f) = kd \<and> nid_str (fgrn_id f) = ident \<and> valid_native_id ident \<and>
        (if fgrn_kind f = KResource then
           \<exists>t n. fgrn_rtype f = Some t \<and> fgrn_native f = Some n \<and> segment_wf t \<and> native_id_wf n \<and>
             split_once CHR ''/'' ident = Some (seg_str t, nid_str n)
         else fgrn_rtype f = None \<and> fgrn_native f = None))"
  by (cases f)
    (auto simp: fgrn_parse_def segment_try_new_Inr_iff native_id_try_new_Inr_iff
      split: list.splits option.splits if_splits prod.splits)

lemma fgrn_parse_Inr_iff: "fgrn_parse s = Inr f \<longleftrightarrow> fgrn_wf f \<and> fgrn_raw f = s"
proof
  assume "fgrn_parse s = Inr f"
  then show "fgrn_wf f \<and> fgrn_raw f = s"
    by (auto simp: fgrn_parse_split fgrn_wf_def splitn_4_iff split_once_Some_iff split: if_splits)
next
  assume wf: "fgrn_wf f \<and> fgrn_raw f = s"
  have "CHR '':'' \<notin> set (seg_str (fgrn_org f))"
    using wf valid_segment_excludes(1) by (auto simp: fgrn_wf_def)
  then have "splitn 4 CHR '':'' s = [''fgrn'', seg_str (fgrn_org f), kind_str (fgrn_kind f),
      nid_str (fgrn_id f)]"
    using wf by (auto simp: fgrn_wf_def splitn_4_iff)
  then show "fgrn_parse s = Inr f"
    using wf valid_segment_excludes(3)
    by (auto simp: fgrn_parse_split fgrn_wf_def split_once_Some_iff split: if_splits)
qed

lemma fgrn_wf_eqI:
  assumes "fgrn_wf f" "fgrn_wf g" "fgrn_raw f = fgrn_raw g"
  shows "f = g"
  using assms fgrn_parse_Inr_iff by (metis sum.inject(2))


lemma fgrn_builders_wf:
  assumes "segment_wf org" "native_id_wf i"
  shows "fgrn_wf (fgrn_org_unit org i)" "fgrn_wf (fgrn_principal org i)"
    "fgrn_wf (fgrn_principal_set org i)"
  using assms
  by (simp_all add: fgrn_wf_def fgrn_org_unit_def fgrn_principal_def fgrn_principal_set_def
      fgrn_new_def)

lemma compound_valid:
  assumes "segment_wf t" "native_id_wf n"
  shows "valid_native_id (seg_str t @ ''/'' @ nid_str n)"
  using assms valid_segment_native_id [of "seg_str t"]
  by (auto simp: valid_native_id_def byte_class_defs)

lemma fgrn_resource_Some:
  assumes "segment_wf t" "native_id_wf n"
  shows "fgrn_resource org t n =
    Some (fgrn_new org KResource (NativeId (seg_str t @ ''/'' @ nid_str n)) (Some t) (Some n))"
proof -
  have "native_id_try_new (seg_str t @ ''/'' @ nid_str n) =
      Inr (NativeId (seg_str t @ ''/'' @ nid_str n))"
    using compound_valid [OF assms] by (simp add: native_id_try_new_Inr_iff)
  then show ?thesis by (simp add: fgrn_resource_def)
qed

lemma fgrn_resource_wf:
  assumes "segment_wf org" "segment_wf t" "native_id_wf n" "fgrn_resource org t n = Some f"
  shows "fgrn_wf f" "fgrn_kind f = KResource" "resource_parts f = Some (t, n)" "fgrn_org f = org"
  using assms compound_valid [OF assms(2,3)]
  by (auto simp: fgrn_resource_Some fgrn_new_def fgrn_wf_def resource_parts_def)

lemma same_position_eq:
  assumes "fgrn_wf f" "fgrn_wf g" "fgrn_org f = fgrn_org g" "fgrn_kind f = fgrn_kind g"
    "fgrn_id f = fgrn_id g"
  shows "f = g"
  using assms by (auto intro: fgrn_wf_eqI simp: fgrn_wf_def)

section \<open>The order of names\<close>

text \<open>The derived \<open>Ord\<close> compares the fields in declaration order.\<close>

fun kind_rank :: "fgrn_kind \<Rightarrow> nat" where
  "kind_rank KOrgUnit = 0"
| "kind_rank KPrincipal = 1"
| "kind_rank KPrincipalSet = 2"
| "kind_rank KResource = 3"

lemma kind_rank_inject: "kind_rank k = kind_rank l \<longleftrightarrow> k = l"
  by (cases k; cases l) auto

definition fgrn_key ::
  "fgrn \<Rightarrow> segment \<times> nat \<times> native_id \<times> segment option \<times> native_id option \<times> string" where
  "fgrn_key f = (fgrn_org f, kind_rank (fgrn_kind f), fgrn_id f, fgrn_rtype f, fgrn_native f, fgrn_raw f)"

lemma fgrn_key_inject: "fgrn_key f = fgrn_key g \<longleftrightarrow> f = g"
  by (cases f; cases g) (auto simp: fgrn_key_def kind_rank_inject)

instantiation fgrn :: linorder
begin

definition less_eq_fgrn :: "fgrn \<Rightarrow> fgrn \<Rightarrow> bool" where
  "less_eq_fgrn f g \<longleftrightarrow> fgrn_key f \<le> fgrn_key g"

definition less_fgrn :: "fgrn \<Rightarrow> fgrn \<Rightarrow> bool" where
  "less_fgrn f g \<longleftrightarrow> fgrn_key f < fgrn_key g"

instance
proof
  fix x y :: fgrn
  show "(x < y) = (x \<le> y \<and> \<not> y \<le> x)"
    by (auto simp: less_eq_fgrn_def less_fgrn_def)
  show "x \<le> y \<Longrightarrow> y \<le> x \<Longrightarrow> x = y"
    using fgrn_key_inject by (auto simp: less_eq_fgrn_def)
  show "x \<le> y \<or> y \<le> x"
    by (auto simp: less_eq_fgrn_def)
qed (auto simp: less_eq_fgrn_def)

end

section \<open>Properties of resource names\<close>

text \<open>
  C38. Parsing and display of FGRNs are inverse: a string parses to a name exactly when the name is
  well formed (valid organization and id; type and native id present exactly for resources and
  composing the id) and the string is its display. So distinct names never display alike.
\<close>

theorem fgrn_round_trip:
  "fgrn_parse s = Inr f \<longleftrightarrow> fgrn_wf f \<and> s = fgrn_display f"
  using fgrn_parse_Inr_iff by (auto simp: fgrn_display_def)

text \<open>
  Minting a resource name from validated parts never reaches its \<open>unreachable!\<close>, and the name
  parses back to the organization, type and native id it was minted from.
\<close>

theorem fgrn_resource_parses_back:
  assumes "segment_wf organization" "segment_wf t" "native_id_wf n"
  shows "\<exists>f. fgrn_resource organization t n = Some f \<and> fgrn_parse (fgrn_display f) = Inr f \<and>
           fgrn_kind f = KResource \<and> fgrn_org f = organization \<and> resource_parts f = Some (t, n)"
proof -
  obtain f where f: "fgrn_resource organization t n = Some f"
    using fgrn_resource_Some [OF assms(2,3)] by blast
  from fgrn_resource_wf [OF assms f] show ?thesis
    using f by (auto simp: fgrn_parse_Inr_iff fgrn_display_def)
qed

theorem fgrn_resource_parses_back_witness:
  "\<exists>f. fgrn_resource (Segment ''acme'') (Segment ''doc'') (NativeId ''a/b'') = Some f \<and>
     fgrn_parse (fgrn_display f) = Inr f \<and> fgrn_kind f = KResource \<and>
     fgrn_org f = Segment ''acme'' \<and> resource_parts f = Some (Segment ''doc'', NativeId ''a/b'')"
  by (rule fgrn_resource_parses_back) code_simp+

end
