(* ===== verification/Spine.thy ===== *)
theory Spine
  imports Fgrn
begin

text \<open>
  The organizational spine (\<open>crates/core/src/spine.rs\<close>): org units whose parent edges form a
  single-rooted tree. The state is the map from a unit to its optional parent; \<open>spine_try_new\<close>
  validates a batch of units, \<open>spine_add\<close> and \<open>spine_reparent\<close> change it, \<open>spine_path\<close> and
  \<open>spine_is_at_or_below\<close> read it.
\<close>

section \<open>Org units\<close>

record org_unit =
  ou_fgrn :: fgrn
  ou_parent :: "fgrn option"

definition org_unit_try_new :: "fgrn \<Rightarrow> fgrn option \<Rightarrow> (core_error, org_unit) result" where
  "org_unit_try_new f parent =
     (if fgrn_kind f \<noteq> KOrgUnit then
        Inl (SpineError (fgrn_display f) ''org unit fgrn must have kind orgunit'')
      else (case parent of
          None \<Rightarrow> Inr \<lparr>ou_fgrn = f, ou_parent = None\<rparr>
        | Some p \<Rightarrow>
            if fgrn_kind p \<noteq> KOrgUnit then
              Inl (SpineError (fgrn_display p) ''parent fgrn must have kind orgunit'')
            else if p = f then
              Inl (SpineError (fgrn_display f) ''org unit cannot be its own parent'')
            else if fgrn_org p \<noteq> fgrn_org f then
              Inl (SpineError (fgrn_display p) ''parent must belong to the same organization'')
            else Inr \<lparr>ou_fgrn = f, ou_parent = Some p\<rparr>))"

definition org_unit_wf :: "org_unit \<Rightarrow> bool" where
  "org_unit_wf u \<longleftrightarrow>
     fgrn_wf (ou_fgrn u) \<and> fgrn_kind (ou_fgrn u) = KOrgUnit \<and>
     (case ou_parent u of
        None \<Rightarrow> True
      | Some p \<Rightarrow>
          fgrn_wf p \<and> fgrn_kind p = KOrgUnit \<and> p \<noteq> ou_fgrn u \<and> fgrn_org p = fgrn_org (ou_fgrn u))"

lemma org_unit_try_new_wf:
  assumes "fgrn_wf f" "\<And>p. parent = Some p \<Longrightarrow> fgrn_wf p" "org_unit_try_new f parent = Inr u"
  shows "org_unit_wf u" "ou_fgrn u = f" "ou_parent u = parent"
  using assms
  by (auto simp: org_unit_try_new_def org_unit_wf_def split: if_splits option.splits)

lemma org_unit_try_new_of_wf:
  "org_unit_wf u \<Longrightarrow> org_unit_try_new (ou_fgrn u) (ou_parent u) = Inr u"
  by (cases "ou_parent u") (auto simp: org_unit_try_new_def org_unit_wf_def)

section \<open>The spine\<close>

type_synonym parent_map = "(fgrn, fgrn option) hash_map"

record spine =
  sp_units :: parent_map
  sp_root :: fgrn
  sp_org :: segment

text \<open>The insertion loop of \<open>Spine::try_new\<close>: the map built so far and the root found so far.\<close>

fun insert_units ::
  "segment \<Rightarrow> org_unit list \<Rightarrow> parent_map \<Rightarrow> fgrn option
    \<Rightarrow> (core_error, parent_map \<times> fgrn option) result" where
  "insert_units organization [] m root = Inr (m, root)"
| "insert_units organization (u # us) m root =
     (let f = ou_fgrn u; parent = ou_parent u in
      if hm_contains m f then Inl (SpineError (fgrn_display f) ''duplicate org unit'')
      else if fgrn_org f \<noteq> organization then
        Inl (SpineError (fgrn_display f) ''all org units must belong to one organization'')
      else if parent = None then
        (if root \<noteq> None then
           Inl (SpineError (fgrn_display f) ''spine must have exactly one root'')
         else insert_units organization us (hm_insert f parent m) (Some f))
      else insert_units organization us (hm_insert f parent m) root)"

definition check_parent :: "parent_map \<Rightarrow> fgrn \<times> fgrn option \<Rightarrow> (core_error, unit) result" where
  "check_parent m entry =
     (case snd entry of
        None \<Rightarrow> Inr ()
      | Some p \<Rightarrow>
          if hm_contains m p then Inr ()
          else Inl (SpineError (fgrn_display p) ''unknown parent''))"

text \<open>The bounded walk to the root that detects cycles.\<close>

function cycle_walk :: "parent_map \<Rightarrow> fgrn \<Rightarrow> fgrn \<Rightarrow> nat \<Rightarrow> (core_error, unit) result" where
  "cycle_walk m node current steps =
     (case map_of m current of
        Some (Some p) \<Rightarrow>
          (if Suc steps > length m then Inl (SpineError (fgrn_display node) ''cycle detected'')
           else cycle_walk m node p (Suc steps))
      | _ \<Rightarrow> Inr ())"
  by pat_completeness auto
termination
  by (relation "measure (\<lambda>(m, node, current, steps). Suc (length m) - steps)") auto

declare cycle_walk.simps [simp del]

definition spine_try_new :: "org_unit list \<Rightarrow> (core_error, spine) result" where
  "spine_try_new us =
     (case us of
        [] \<Rightarrow> Inl (SpineError ''(empty)'' ''spine must contain at least one org unit'')
      | first # _ \<Rightarrow>
          and_then (insert_units (fgrn_org (ou_fgrn first)) us [] None) (\<lambda>(m, root).
            case root of
              None \<Rightarrow> Inl (SpineError ''(none)'' ''spine must have exactly one root'')
            | Some r \<Rightarrow>
                and_then (for_each (check_parent m) m) (\<lambda>_.
                and_then (for_each (\<lambda>node. cycle_walk m node node 0) (hm_keys m)) (\<lambda>_.
                  Inr \<lparr>sp_units = m, sp_root = r, sp_org = fgrn_org (ou_fgrn first)\<rparr>))))"

definition spine_contains :: "spine \<Rightarrow> fgrn \<Rightarrow> bool" where
  "spine_contains s f = hm_contains (sp_units s) f"

definition spine_len :: "spine \<Rightarrow> nat" where
  "spine_len s = length (sp_units s)"

definition spine_units :: "spine \<Rightarrow> fgrn list" where
  "spine_units s = hm_keys (sp_units s)"

definition unknown_unit :: "fgrn \<Rightarrow> core_error" where
  "unknown_unit f = SpineError (fgrn_display f) ''unknown org unit''"

definition spine_parent :: "spine \<Rightarrow> fgrn \<Rightarrow> (core_error, fgrn option) result" where
  "spine_parent s f = ok_or (map_of (sp_units s) f) (unknown_unit f)"

text \<open>The loop of \<open>Spine::path\<close>: \<open>None\<close> when it runs forever or reaches \<open>unreachable!\<close>.\<close>

partial_function (option) path_loop :: "parent_map \<Rightarrow> fgrn \<Rightarrow> fgrn list \<Rightarrow> fgrn list option" where
  "path_loop m current path =
     (case map_of m current of
        Some (Some p) \<Rightarrow> (if hm_contains m p then path_loop m p (path @ [p]) else None)
      | _ \<Rightarrow> Some (rev path))"

definition spine_path :: "spine \<Rightarrow> fgrn \<Rightarrow> (core_error, fgrn list) outcome" where
  "spine_path s f =
     (if hm_contains (sp_units s) f then map_option Inr (path_loop (sp_units s) f [f])
      else Some (Inl (unknown_unit f)))"

definition spine_is_at_or_below :: "spine \<Rightarrow> fgrn \<Rightarrow> fgrn \<Rightarrow> (core_error, bool) outcome" where
  "spine_is_at_or_below s node ancestor =
     outcome_then (spine_path s node) (\<lambda>path.
       if \<not> spine_contains s ancestor then Some (Inl (unknown_unit ancestor))
       else Some (Inr (ancestor \<in> set path)))"

definition spine_add :: "spine \<Rightarrow> org_unit \<Rightarrow> (core_error, spine) result" where
  "spine_add s u =
     (let f = ou_fgrn u in
      case ou_parent u of
        None \<Rightarrow> Inl (SpineError (fgrn_display f) ''spine already has a root'')
      | Some p \<Rightarrow>
          if \<not> hm_contains (sp_units s) p then
            Inl (SpineError (fgrn_display p) ''unknown parent'')
          else if hm_contains (sp_units s) f then
            Inl (SpineError (fgrn_display f) ''duplicate org unit'')
          else if fgrn_org f \<noteq> sp_org s then
            Inl (SpineError (fgrn_display f) ''all org units must belong to one organization'')
          else Inr (s\<lparr>sp_units := hm_insert f (Some p) (sp_units s)\<rparr>))"

definition spine_reparent :: "spine \<Rightarrow> fgrn \<Rightarrow> fgrn \<Rightarrow> (core_error, spine) outcome" where
  "spine_reparent s node new_parent =
     (if \<not> hm_contains (sp_units s) node then Some (Inl (unknown_unit node))
      else if node = sp_root s then
        Some (Inl (SpineError (fgrn_display node) ''cannot reparent the root''))
      else if \<not> hm_contains (sp_units s) new_parent then
        Some (Inl (SpineError (fgrn_display new_parent) ''unknown parent''))
      else outcome_then (spine_is_at_or_below s new_parent node) (\<lambda>below.
        if below then
          Some (Inl (SpineError (fgrn_display node) ''reparent would create a cycle''))
        else Some (Inr (s\<lparr>sp_units := hm_insert node (Some new_parent) (sp_units s)\<rparr>))))"

section \<open>Climbing to the root\<close>

text \<open>The chain of units from a node up to a root.\<close>

inductive climbs :: "parent_map \<Rightarrow> fgrn \<Rightarrow> fgrn list \<Rightarrow> bool" for m :: parent_map where
  top: "map_of m k = Some None \<Longrightarrow> climbs m k [k]"
| up: "map_of m k = Some (Some p) \<Longrightarrow> climbs m p ps \<Longrightarrow> climbs m k (k # ps)"

lemma climbs_unique: "climbs m k ps \<Longrightarrow> climbs m k qs \<Longrightarrow> ps = qs"
proof (induction arbitrary: qs rule: climbs.induct)
  case (top k)
  from top.prems top.hyps show ?case by (cases rule: climbs.cases) simp_all
next
  case (up k p ps)
  from up.prems obtain qs' where "qs = k # qs'" "climbs m p qs'"
    using up.hyps(1) by (cases rule: climbs.cases) simp_all
  with up.IH show ?case by simp
qed

lemma climbs_hd: "climbs m k ps \<Longrightarrow> ps \<noteq> [] \<and> hd ps = k"
  by (cases rule: climbs.cases) auto

lemma climbs_keys: "climbs m k ps \<Longrightarrow> x \<in> set ps \<Longrightarrow> x \<in> fst ` set m"
  by (induction rule: climbs.induct) (auto dest!: map_of_SomeD intro: rev_image_eqI)

lemma climbs_suffix: "climbs m k ps \<Longrightarrow> x \<in> set ps \<Longrightarrow> \<exists>rs qs. ps = rs @ qs \<and> climbs m x qs"
proof (induction rule: climbs.induct)
  case (top k)
  then show ?case by (auto intro: climbs.intros)
next
  case (up k p ps)
  show ?case
  proof (cases "x = k")
    case True
    have "climbs m k (k # ps)" using up.hyps by (rule climbs.up)
    with True have "k # ps = [] @ (k # ps) \<and> climbs m x (k # ps)" by simp
    then show ?thesis by blast
  next
    case False
    with up obtain rs qs where "ps = rs @ qs" "climbs m x qs" by auto
    then have "k # ps = (k # rs) @ qs \<and> climbs m x qs" by simp
    then show ?thesis by blast
  qed
qed

lemma climbs_distinct: "climbs m k ps \<Longrightarrow> distinct ps"
proof (induction rule: climbs.induct)
  case (up k p ps)
  have "k \<notin> set ps"
  proof
    assume "k \<in> set ps"
    then obtain rs qs where qs: "ps = rs @ qs" "climbs m k qs"
      using climbs_suffix [OF up.hyps(2)] by blast
    moreover have "climbs m k (k # ps)" using up.hyps by (rule climbs.up)
    ultimately have "qs = k # ps" by (blast intro: climbs_unique)
    with qs(1) show False by simp
  qed
  with up.IH show ?case by simp
qed simp

lemma climbs_length:
  assumes "climbs m k ps" shows "length ps \<le> length m"
proof -
  have "card (set ps) \<le> card (fst ` set m)"
    by (rule card_mono) (use climbs_keys [OF assms] in auto)
  also have "\<dots> \<le> length m"
    using card_length [of "map fst m"] by simp
  finally show ?thesis
    using distinct_card [OF climbs_distinct [OF assms]] by simp
qed

lemma cycle_walk_climbs:
  "climbs m k ps \<Longrightarrow> steps + length ps \<le> Suc (length m) \<Longrightarrow> cycle_walk m node k steps = Inr ()"
proof (induction arbitrary: steps rule: climbs.induct)
  case (top k)
  then show ?case by (simp add: cycle_walk.simps)
next
  case (up k p ps)
  have "ps \<noteq> []" using climbs_hd [OF up.hyps(2)] by simp
  then have "Suc steps \<le> length m" using up.prems by (cases ps) auto
  moreover have "cycle_walk m node p (Suc steps) = Inr ()"
    using up.IH [of "Suc steps"] up.prems by simp
  ultimately show ?case
    using up.hyps(1) by (simp add: cycle_walk.simps [of m node k])
qed


lemma cycle_walk_ok_climbs:
  assumes parents: "\<And>k p. map_of m k = Some (Some p) \<Longrightarrow> map_of m p \<noteq> None"
  shows "cycle_walk m node k steps = Inr () \<Longrightarrow> map_of m k \<noteq> None \<Longrightarrow> \<exists>ps. climbs m k ps"
proof (induction "Suc (length m) - steps" arbitrary: k steps rule: less_induct)
  case less
  obtain q where q: "map_of m k = Some q" using less.prems by auto
  show ?case
  proof (cases q)
    case None
    with q show ?thesis by (auto intro: climbs.top)
  next
    case (Some p)
    with q less.prems(1) have "Suc steps \<le> length m" "cycle_walk m node p (Suc steps) = Inr ()"
      by (auto simp: cycle_walk.simps [of m node k] split: if_splits)
    then have "\<exists>ps. climbs m p ps"
      using less.hyps [of "Suc steps" p] parents [of k p] q Some by simp
    with q Some show ?thesis by (auto intro: climbs.up)
  qed
qed


section \<open>Construction accepts exactly the single-rooted trees\<close>

definition unit_entry :: "org_unit \<Rightarrow> fgrn \<times> fgrn option" where
  "unit_entry u = (ou_fgrn u, ou_parent u)"

definition unit_roots :: "org_unit list \<Rightarrow> fgrn list" where
  "unit_roots us = map ou_fgrn (filter (\<lambda>u. ou_parent u = None) us)"

text \<open>The child-to-parent edges of a batch of units.\<close>

definition unit_edges :: "org_unit list \<Rightarrow> (fgrn \<times> fgrn) set" where
  "unit_edges us = {(ou_fgrn u, p) | u p. u \<in> set us \<and> ou_parent u = Some p}"

definition tree_units :: "org_unit list \<Rightarrow> bool" where
  "tree_units us \<longleftrightarrow>
     distinct (map ou_fgrn us) \<and>
     (\<exists>organization. \<forall>u \<in> set us. fgrn_org (ou_fgrn u) = organization) \<and>
     (\<exists>r. unit_roots us = [r]) \<and>
     snd ` unit_edges us \<subseteq> ou_fgrn ` set us \<and>
     acyclic (unit_edges us)"

lemma map_unit_entry [simp]: "map fst (map unit_entry us) = map ou_fgrn us"
  "fst ` unit_entry ` set us = ou_fgrn ` set us" "fst ` set (map unit_entry us) = ou_fgrn ` set us"
  by (auto simp: unit_entry_def image_image)

lemma insert_units_Inr_iff:
  "insert_units organization us m root = Inr (m', root') \<longleftrightarrow>
     distinct (map ou_fgrn us) \<and> ou_fgrn ` set us \<inter> fst ` set m = {} \<and>
     (\<forall>u \<in> set us. fgrn_org (ou_fgrn u) = organization) \<and>
     m' = m @ map unit_entry us \<and>
     (root' = None \<and> root = None \<and> unit_roots us = [] \<or>
      (\<exists>r. root' = Some r \<and> (root = None \<and> unit_roots us = [r] \<or> root = Some r \<and> unit_roots us = [])))"
proof (induction organization us m root rule: insert_units.induct)
  case (1 organization m root)
  then show ?case by (cases root) (auto simp: unit_roots_def)
next
  case (2 organization u us m root)
  show ?case
  proof (cases "hm_contains m (ou_fgrn u) \<or> fgrn_org (ou_fgrn u) \<noteq> organization")
    case True
    then show ?thesis by (auto simp: Let_def hm_contains_iff)
  next
    case False
    then have absent: "ou_fgrn u \<notin> fst ` set m" by (simp add: hm_contains_iff)
    then have m1: "hm_insert (ou_fgrn u) (ou_parent u) m = m @ [unit_entry u]"
      by (simp add: hm_insert_absent unit_entry_def)
    show ?thesis
    proof (cases "ou_parent u")
      case None
      show ?thesis
      proof (cases root)
        case (Some r)
        with None False show ?thesis by (auto simp: Let_def unit_roots_def)
      next
        case None': None
        with None False have "insert_units organization (u # us) m root =
            insert_units organization us (m @ [unit_entry u]) (Some (ou_fgrn u))"
          using m1 by (simp add: Let_def)
        moreover have "insert_units organization us (m @ [unit_entry u]) (Some (ou_fgrn u)) =
            Inr (m', root') \<longleftrightarrow> distinct (map ou_fgrn us) \<and>
            ou_fgrn ` set us \<inter> fst ` set (m @ [unit_entry u]) = {} \<and>
            (\<forall>u \<in> set us. fgrn_org (ou_fgrn u) = organization) \<and>
            m' = (m @ [unit_entry u]) @ map unit_entry us \<and>
            root' = Some (ou_fgrn u) \<and> unit_roots us = []"
          using 2(1) [OF refl refl] None False None' m1 by (auto simp: Let_def)
        ultimately show ?thesis using None False None' absent
          by (auto simp: unit_roots_def unit_entry_def)
      qed
    next
      case (Some p)
      with False have "insert_units organization (u # us) m root =
          insert_units organization us (m @ [unit_entry u]) root"
        using m1 by (simp add: Let_def)
      moreover have "unit_roots (u # us) = unit_roots us" using Some by (simp add: unit_roots_def)
      ultimately show ?thesis using 2(2) [OF refl refl] Some False m1 absent
        by (auto simp: unit_entry_def)
    qed
  qed
qed

lemma check_parents_iff:
  "for_each (check_parent m) m = Inr () \<longleftrightarrow> (\<forall>k p. (k, Some p) \<in> set m \<longrightarrow> p \<in> fst ` set m)"
  by (force simp: check_parent_def hm_contains_iff split: option.splits if_splits)

lemma map_of_unit_entries:
  "distinct (map ou_fgrn us) \<Longrightarrow>
     map_of (map unit_entry us) k = Some q \<longleftrightarrow> (\<exists>u \<in> set us. ou_fgrn u = k \<and> ou_parent u = q)"
  by (subst map_of_eq_Some_iff) (auto simp: unit_entry_def comp_def)


definition parent_rel :: "parent_map \<Rightarrow> (fgrn \<times> fgrn) set" where
  "parent_rel m = {(k, p). map_of m k = Some (Some p)}"

lemma finite_parent_rel: "finite (parent_rel m)"
proof (rule finite_subset)
  show "parent_rel m \<subseteq> (\<lambda>(k, q). (k, the q)) ` set m"
    by (force simp: parent_rel_def dest: map_of_SomeD)
qed simp

lemma climbs_members: "climbs m k ps \<Longrightarrow> x \<in> set ps \<longleftrightarrow> (k, x) \<in> (parent_rel m)\<^sup>*"
proof (induction rule: climbs.induct)
  case (top k)
  then show ?case by (auto simp: parent_rel_def elim: converse_rtranclE)
next
  case (up k p ps)
  have "(k, x) \<in> (parent_rel m)\<^sup>* \<longleftrightarrow> x = k \<or> (p, x) \<in> (parent_rel m)\<^sup>*"
    using up.hyps(1)
    by (auto simp: parent_rel_def elim: converse_rtranclE intro: converse_rtrancl_into_rtrancl)
  with up.IH show ?case by auto
qed

lemma climbs_acyclic:
  assumes "\<And>k. map_of m k \<noteq> None \<Longrightarrow> \<exists>ps. climbs m k ps"
  shows "acyclic (parent_rel m)"
proof (rule acyclicI, rule allI, rule notI)
  fix x assume "(x, x) \<in> (parent_rel m)\<^sup>+"
  then obtain p where p: "(x, p) \<in> parent_rel m" "(p, x) \<in> (parent_rel m)\<^sup>*"
    by (blast dest: tranclD)
  then have xp: "map_of m x = Some (Some p)" by (simp add: parent_rel_def)
  then obtain ps where ps: "climbs m x ps" using assms by fastforce
  then obtain qs where qs: "ps = x # qs" "climbs m p qs"
    using xp by (cases rule: climbs.cases) simp_all
  then have "x \<in> set qs" using climbs_members p(2) by blast
  with climbs_distinct [OF ps] qs(1) show False by simp
qed

lemma acyclic_climbs:
  assumes "acyclic (parent_rel m)"
    and parents: "\<And>k p. map_of m k = Some (Some p) \<Longrightarrow> map_of m p \<noteq> None"
  shows "map_of m k \<noteq> None \<Longrightarrow> \<exists>ps. climbs m k ps"
proof -
  have "wf ((parent_rel m)\<inverse>)"
    by (rule finite_acyclic_wf_converse [OF finite_parent_rel assms(1)])
  then show "map_of m k \<noteq> None \<Longrightarrow> \<exists>ps. climbs m k ps"
  proof (induction k rule: wf_induct_rule)
    case (less k)
    then obtain q where q: "map_of m k = Some q" by auto
    show ?case
    proof (cases q)
      case None
      with q show ?thesis by (auto intro: climbs.top)
    next
      case (Some p)
      with q have "(p, k) \<in> (parent_rel m)\<inverse>" by (simp add: parent_rel_def)
      then obtain ps where "climbs m p ps" using less.IH parents q Some by blast
      with q Some show ?thesis by (blast intro: climbs.up)
    qed
  qed
qed

lemma cycle_check_iff:
  assumes parents: "\<And>k p. map_of m k = Some (Some p) \<Longrightarrow> map_of m p \<noteq> None"
  shows "for_each (\<lambda>node. cycle_walk m node node 0) (hm_keys m) = Inr () \<longleftrightarrow> acyclic (parent_rel m)"
proof
  assume "for_each (\<lambda>node. cycle_walk m node node 0) (hm_keys m) = Inr ()"
  then have walk: "cycle_walk m k k 0 = Inr ()" if "map_of m k \<noteq> None" for k
    using that by (auto simp: hm_keys_def map_of_eq_None_iff)
  show "acyclic (parent_rel m)"
  proof (rule climbs_acyclic)
    fix k assume "map_of m k \<noteq> None"
    with walk show "\<exists>ps. climbs m k ps" using cycle_walk_ok_climbs [of m k k 0] parents by blast
  qed
next
  assume a: "acyclic (parent_rel m)"
  have "\<exists>ps. climbs m k ps" if "k \<in> fst ` set m" for k
  proof (rule acyclic_climbs [OF a])
    show "map_of m k \<noteq> None" using that by (simp add: map_of_eq_None_iff)
  qed (rule parents)
  then have "cycle_walk m k k 0 = Inr ()" if "k \<in> fst ` set m" for k
    using that cycle_walk_climbs [of m k _ 0 k] climbs_length [of m k] by (metis add_0 le_SucI)
  then show "for_each (\<lambda>node. cycle_walk m node node 0) (hm_keys m) = Inr ()"
    by (simp add: hm_keys_def)
qed

lemma unit_edges_parent_rel:
  "distinct (map ou_fgrn us) \<Longrightarrow> parent_rel (map unit_entry us) = unit_edges us"
  by (auto simp: parent_rel_def unit_edges_def map_of_unit_entries)

lemma unit_parents_known:
  assumes "distinct (map ou_fgrn us)" "snd ` unit_edges us \<subseteq> ou_fgrn ` set us"
    and "map_of (map unit_entry us) k = Some (Some p)"
  shows "map_of (map unit_entry us) p \<noteq> None"
proof -
  have "(k, p) \<in> unit_edges us" using assms by (simp add: unit_edges_parent_rel [symmetric] parent_rel_def)
  then have "p \<in> ou_fgrn ` set us" using assms(2) by force
  then show ?thesis by (simp add: map_of_eq_None_iff image_image unit_entry_def)
qed

lemma spine_try_new_Inr_iff:
  "spine_try_new us = Inr s \<longleftrightarrow>
     tree_units us \<and>
     s = \<lparr>sp_units = map unit_entry us, sp_root = hd (unit_roots us),
          sp_org = fgrn_org (ou_fgrn (hd us))\<rparr>"
proof (cases us)
  case Nil
  then show ?thesis by (simp add: spine_try_new_def tree_units_def unit_roots_def)
next
  case (Cons u us')
  define m where "m = map unit_entry us"
  have parents: "for_each (check_parent m) m = Inr () \<longleftrightarrow> snd ` unit_edges us \<subseteq> ou_fgrn ` set us"
    unfolding m_def check_parents_iff by (force simp: unit_entry_def unit_edges_def)
  have cycles: "for_each (\<lambda>node. cycle_walk m node node 0) (hm_keys m) = Inr () \<longleftrightarrow>
      acyclic (unit_edges us)"
    if "distinct (map ou_fgrn us)" "snd ` unit_edges us \<subseteq> ou_fgrn ` set us"
    unfolding m_def unit_edges_parent_rel [OF that(1), symmetric]
    by (rule cycle_check_iff) (rule unit_parents_known [OF that])
  have one: "(\<forall>u' \<in> set us. fgrn_org (ou_fgrn u') = fgrn_org (ou_fgrn u)) \<longleftrightarrow>
      (\<exists>organization. \<forall>u \<in> set us. fgrn_org (ou_fgrn u) = organization)"
    using Cons by auto
  have ins: "insert_units (fgrn_org (ou_fgrn u)) us [] None = Inr (m', Some r) \<longleftrightarrow>
      distinct (map ou_fgrn us) \<and> (\<exists>organization. \<forall>u \<in> set us. fgrn_org (ou_fgrn u) = organization) \<and>
      m' = m \<and> unit_roots us = [r]" for m' r
    unfolding insert_units_Inr_iff one m_def by auto
  have "spine_try_new us = Inr s \<longleftrightarrow>
      (\<exists>m' r. insert_units (fgrn_org (ou_fgrn u)) us [] None = Inr (m', Some r) \<and>
        for_each (check_parent m') m' = Inr () \<and>
        for_each (\<lambda>node. cycle_walk m' node node 0) (hm_keys m') = Inr () \<and>
        s = \<lparr>sp_units = m', sp_root = r, sp_org = fgrn_org (ou_fgrn u)\<rparr>)"
    using Cons by (auto simp: spine_try_new_def split: option.splits)
  also have "\<dots> \<longleftrightarrow> tree_units us \<and> (\<exists>r. unit_roots us = [r] \<and>
      s = \<lparr>sp_units = m, sp_root = r, sp_org = fgrn_org (ou_fgrn u)\<rparr>)"
    unfolding ins tree_units_def using parents cycles by blast
  finally show ?thesis using Cons by (auto simp: m_def tree_units_def)
qed


section \<open>The invariant and the operations\<close>

definition spine_wf :: "spine \<Rightarrow> bool" where
  "spine_wf s \<longleftrightarrow>
     hm_wf (sp_units s) \<and>
     map_of (sp_units s) (sp_root s) = Some None \<and>
     (\<forall>k. map_of (sp_units s) k = Some None \<longrightarrow> k = sp_root s) \<and>
     (\<forall>k \<in> fst ` set (sp_units s).
        fgrn_wf k \<and> fgrn_kind k = KOrgUnit \<and> fgrn_org k = sp_org s \<and> (\<exists>ps. climbs (sp_units s) k ps))"

lemma spine_wf_climbs:
  assumes "spine_wf s" "spine_contains s k"
  obtains ps where "climbs (sp_units s) k ps"
  using assms by (auto simp: spine_wf_def spine_contains_def hm_contains_iff)

lemma spine_try_new_wf:
  assumes "\<forall>u \<in> set us. org_unit_wf u" "spine_try_new us = Inr s"
  shows "spine_wf s"
proof -
  have tree: "tree_units us" and s: "s = \<lparr>sp_units = map unit_entry us, sp_root = hd (unit_roots us),
      sp_org = fgrn_org (ou_fgrn (hd us))\<rparr>"
    using assms(2) by (simp_all add: spine_try_new_Inr_iff)
  then have d: "distinct (map ou_fgrn us)" and p: "snd ` unit_edges us \<subseteq> ou_fgrn ` set us"
    and a: "acyclic (unit_edges us)" by (auto simp: tree_units_def)
  obtain r where r: "unit_roots us = [r]" using tree by (auto simp: tree_units_def)
  have root_iff: "map_of (map unit_entry us) k = Some None \<longleftrightarrow> k \<in> set (unit_roots us)" for k
    by (auto simp: map_of_unit_entries [OF d] unit_roots_def)
  have "us \<noteq> []" using r by (auto simp: unit_roots_def)
  then have org: "\<forall>u \<in> set us. fgrn_org (ou_fgrn u) = fgrn_org (ou_fgrn (hd us))"
    using tree by (auto simp: tree_units_def)
  have climb: "\<exists>ps. climbs (map unit_entry us) k ps" if "k \<in> ou_fgrn ` set us" for k
  proof (rule acyclic_climbs)
    show "acyclic (parent_rel (map unit_entry us))" using a by (simp add: unit_edges_parent_rel [OF d])
    show "map_of (map unit_entry us) k \<noteq> None"
      using that by (simp add: map_of_eq_None_iff image_image unit_entry_def)
  qed (rule unit_parents_known [OF d p])
  show ?thesis
    unfolding spine_wf_def s using d r org assms(1) climb
    by (auto simp: root_iff org_unit_wf_def comp_def unit_entry_def image_image)
qed

lemma path_loop_climbs:
  "climbs m k ps \<Longrightarrow> path_loop m k (acc @ [k]) = Some (rev (acc @ ps))"
proof (induction arbitrary: acc rule: climbs.induct)
  case (top k)
  then show ?case by (simp add: path_loop.simps)
next
  case (up k p ps)
  have "p \<in> fst ` set m" using climbs_keys [OF up.hyps(2)] climbs_hd [OF up.hyps(2)] hd_in_set by blast
  then show ?case
    using up.hyps(1) up.IH [of "acc @ [k]"]
    by (simp add: path_loop.simps [of m k] hm_contains_iff)
qed

lemma spine_path_climbs:
  assumes "climbs (sp_units s) f ps"
  shows "spine_path s f = Some (Inr (rev ps))"
proof -
  have "f \<in> fst ` set (sp_units s)"
    using climbs_keys [OF assms] climbs_hd [OF assms] hd_in_set by blast
  then show ?thesis
    using path_loop_climbs [OF assms, of "[]"] by (simp add: spine_path_def hm_contains_iff)
qed

lemma climbs_last: "climbs m k ps \<Longrightarrow> map_of m (last ps) = Some None"
  by (induction rule: climbs.induct) (auto dest: climbs_hd)

lemma climbs_nth:
  "climbs m k ps \<Longrightarrow> Suc i < length ps \<Longrightarrow> map_of m (ps ! i) = Some (Some (ps ! Suc i))"
proof (induction arbitrary: i rule: climbs.induct)
  case (up k p ps)
  then show ?case using climbs_hd [OF up.hyps(2)] by (cases i) (auto simp: hd_conv_nth)
qed simp

lemma spine_is_at_or_below_iff:
  assumes "spine_wf s" "spine_contains s node" "spine_contains s ancestor"
  shows "spine_is_at_or_below s node ancestor =
           Some (Inr ((node, ancestor) \<in> (parent_rel (sp_units s))\<^sup>*))"
proof -
  obtain ps where ps: "climbs (sp_units s) node ps" using spine_wf_climbs assms by blast
  show ?thesis
    using assms(3) climbs_members [OF ps]
    by (simp add: spine_is_at_or_below_def spine_path_climbs [OF ps])
qed

lemma spine_is_at_or_below_error:
  assumes "spine_wf s" "\<not> (spine_contains s node \<and> spine_contains s ancestor)"
  shows "\<exists>e. spine_is_at_or_below s node ancestor = Some (Inl e)"
proof (cases "spine_contains s node")
  case True
  then obtain ps where "climbs (sp_units s) node ps" using spine_wf_climbs assms(1) by blast
  with True assms(2) show ?thesis by (simp add: spine_is_at_or_below_def spine_path_climbs)
next
  case False
  then show ?thesis
    by (simp add: spine_is_at_or_below_def spine_path_def spine_contains_def)
qed

lemma climbs_insert_other:
  "climbs m k ps \<Longrightarrow> x \<notin> set ps \<Longrightarrow> climbs (hm_insert x q m) k ps"
  by (induction rule: climbs.induct) (auto intro: climbs.intros simp: hm_insert_lookup)

lemma spine_add_Inr_iff:
  "spine_add s u = Inr s' \<longleftrightarrow>
     (\<exists>p. ou_parent u = Some p \<and> spine_contains s p \<and> \<not> spine_contains s (ou_fgrn u) \<and>
        fgrn_org (ou_fgrn u) = sp_org s \<and>
        s' = s\<lparr>sp_units := hm_insert (ou_fgrn u) (Some p) (sp_units s)\<rparr>)"
  by (auto simp: spine_add_def Let_def spine_contains_def split: option.splits if_splits)

lemma spine_add_wf:
  assumes wf: "spine_wf s" and u: "org_unit_wf u" and ok: "spine_add s u = Inr s'"
  shows "spine_wf s'"
proof -
  obtain p where p: "spine_contains s p" "\<not> spine_contains s (ou_fgrn u)"
      "fgrn_org (ou_fgrn u) = sp_org s"
      "s' = s\<lparr>sp_units := hm_insert (ou_fgrn u) (Some p) (sp_units s)\<rparr>"
    using ok by (auto simp: spine_add_Inr_iff)
  define f where "f = ou_fgrn u"
  have fresh: "f \<notin> fst ` set (sp_units s)" using p(2) by (simp add: spine_contains_def hm_contains_iff f_def)
  have old: "climbs (sp_units s) k ps \<Longrightarrow> climbs (sp_units s') k ps" for k ps
    using climbs_insert_other [of "sp_units s" k ps f] climbs_keys [of "sp_units s" k ps f] fresh p(4)
    by (auto simp: f_def)
  obtain ps where "climbs (sp_units s) p ps" using spine_wf_climbs [OF wf p(1)] .
  then have new: "climbs (sp_units s') f (f # ps)"
    using p(4) by (intro climbs.up [OF _ old]) (simp_all add: hm_insert_lookup f_def)
  have "map_of (sp_units s) f = None" using fresh by (simp add: map_of_eq_None_iff)
  with wf have "map_of (sp_units s') (sp_root s) = Some None"
    using p(4) by (auto simp: spine_wf_def hm_insert_lookup f_def)
  moreover have "\<exists>ps. climbs (sp_units s') k ps" if "k \<in> insert f (fst ` set (sp_units s))" for k
    using that wf old new unfolding spine_wf_def by blast
  ultimately show ?thesis
    using wf u p(3,4) unfolding spine_wf_def org_unit_wf_def f_def
    by (simp add: hm_insert_wf hm_insert_keys hm_insert_lookup)
qed

lemma spine_reparent_Inr_iff:
  assumes "spine_wf s"
  shows "spine_reparent s node new_parent = Some (Inr s') \<longleftrightarrow>
     spine_contains s node \<and> node \<noteq> sp_root s \<and> spine_contains s new_parent \<and>
     (new_parent, node) \<notin> (parent_rel (sp_units s))\<^sup>* \<and>
     s' = s\<lparr>sp_units := hm_insert node (Some new_parent) (sp_units s)\<rparr>"
  using spine_is_at_or_below_iff [OF assms, of new_parent node]
  by (auto simp: spine_reparent_def spine_contains_def split: if_splits)

lemma climbs_reparent:
  assumes np: "climbs m new_parent qs" "node \<notin> set qs"
    and below: "map_of m node = Some (Some q)"
  shows "climbs m k ps \<Longrightarrow> \<exists>ps'. climbs (hm_insert node (Some new_parent) m) k ps'"
proof (induction rule: climbs.induct)
  case (top k)
  then have "k \<noteq> node" using below by auto
  with top have "climbs (hm_insert node (Some new_parent) m) k [k]"
    by (intro climbs.top) (simp add: hm_insert_lookup)
  then show ?case by blast
next
  case (up k p ps)
  then obtain ps' where ps': "climbs (hm_insert node (Some new_parent) m) p ps'" by blast
  show ?case
  proof (cases "k = node")
    case True
    then have "climbs (hm_insert node (Some new_parent) m) k (k # qs)"
      by (intro climbs.up [OF _ climbs_insert_other [OF np]]) (simp add: hm_insert_lookup)
    then show ?thesis by blast
  next
    case False
    then have "climbs (hm_insert node (Some new_parent) m) k (k # ps')"
      using up.hyps(1) by (intro climbs.up [OF _ ps']) (simp add: hm_insert_lookup)
    then show ?thesis by blast
  qed
qed

lemma spine_reparent_wf:
  assumes wf: "spine_wf s" and ok: "spine_reparent s node new_parent = Some (Inr s')"
  shows "spine_wf s'"
proof -
  have c: "spine_contains s node" "node \<noteq> sp_root s" "spine_contains s new_parent"
      "(new_parent, node) \<notin> (parent_rel (sp_units s))\<^sup>*"
      "s' = s\<lparr>sp_units := hm_insert node (Some new_parent) (sp_units s)\<rparr>"
    using ok by (auto simp: spine_reparent_Inr_iff [OF wf])
  obtain qs where qs: "climbs (sp_units s) new_parent qs" using spine_wf_climbs [OF wf c(3)] .
  then have node: "node \<notin> set qs" using climbs_members c(4) by blast
  obtain v where v: "map_of (sp_units s) node = Some v"
    using c(1) by (auto simp: spine_contains_def hm_contains_def)
  then obtain q where q: "map_of (sp_units s) node = Some (Some q)"
    using wf c(2) by (cases v) (auto simp: spine_wf_def)
  have "\<exists>ps. climbs (sp_units s') k ps" if "k \<in> fst ` set (sp_units s)" for k
    using climbs_reparent [OF qs node q] that wf c(5) by (auto simp: spine_wf_def)
  moreover have "fst ` set (sp_units s') = fst ` set (sp_units s)"
    using c(1,5) by (simp add: hm_insert_keys insert_absorb spine_contains_def hm_contains_iff)
  ultimately show ?thesis
    using wf c(2,5) unfolding spine_wf_def by (simp add: hm_insert_wf hm_insert_lookup)
qed

text \<open>The spines the interface can produce from validated units.\<close>

inductive spine_reachable :: "spine \<Rightarrow> bool" where
  new: "\<forall>u \<in> set us. org_unit_wf u \<Longrightarrow> spine_try_new us = Inr s \<Longrightarrow> spine_reachable s"
| add: "spine_reachable s \<Longrightarrow> org_unit_wf u \<Longrightarrow> spine_add s u = Inr s' \<Longrightarrow> spine_reachable s'"
| reparent: "spine_reachable s \<Longrightarrow> spine_reparent s node new_parent = Some (Inr s') \<Longrightarrow>
    spine_reachable s'"

lemma spine_reachable_wf: "spine_reachable s \<Longrightarrow> spine_wf s"
  by (induction rule: spine_reachable.induct)
    (blast intro: spine_try_new_wf spine_add_wf spine_reparent_wf)+


section \<open>Properties of the spine\<close>

text \<open>
  \<open>Spine::try_new\<close> accepts a batch of org units exactly when the parent edges form a
  single-rooted tree over the batch: no unit twice, one organization, exactly one unit without a
  parent, every parent in the batch, no cycle.
\<close>

theorem spine_try_new_accepts_trees:
  "(\<exists>s. spine_try_new us = Inr s) \<longleftrightarrow> tree_units us"
  by (simp add: spine_try_new_Inr_iff)

text \<open>
  In every spine the interface can build by construction, additions and reparentings, the loop
  of \<open>path\<close> returns for every contained unit: the path is free of repetitions, runs from the root to
  the unit, and each unit on it is the parent of the next.
\<close>

theorem spine_path_correct:
  assumes "spine_reachable s" "spine_contains s f"
  shows "\<exists>path. spine_path s f = Some (Inr path) \<and> path \<noteq> [] \<and> distinct path \<and>
           hd path = sp_root s \<and> last path = f \<and>
           (\<forall>i. Suc i < length path \<longrightarrow> spine_parent s (path ! Suc i) = Inr (Some (path ! i)))"
proof -
  have wf: "spine_wf s" using assms(1) by (rule spine_reachable_wf)
  then obtain ps where ps: "climbs (sp_units s) f ps" using spine_wf_climbs assms(2) by blast
  have ne: "ps \<noteq> []" "hd ps = f" using climbs_hd [OF ps] by simp_all
  have "last ps = sp_root s" using climbs_last [OF ps] wf by (simp add: spine_wf_def)
  moreover have "spine_parent s (rev ps ! Suc i) = Inr (Some (rev ps ! i))"
    if i: "Suc i < length ps" for i
  proof -
    have "Suc (length ps - Suc (Suc i)) = length ps - Suc i" using i by simp
    then show ?thesis
      using climbs_nth [OF ps, of "length ps - Suc (Suc i)"] i
      by (simp add: rev_nth spine_parent_def)
  qed
  ultimately show ?thesis
    using spine_path_climbs [OF ps] climbs_distinct [OF ps] ne by (simp add: hd_rev last_rev)
qed

definition ex_acme :: fgrn where "ex_acme = fgrn_org_unit (Segment ''acme'') (NativeId ''root'')"
definition ex_eng :: fgrn where "ex_eng = fgrn_org_unit (Segment ''acme'') (NativeId ''eng'')"
definition ex_ops :: fgrn where "ex_ops = fgrn_org_unit (Segment ''acme'') (NativeId ''ops'')"

definition ex_units :: "org_unit list" where
  "ex_units =
     [\<lparr>ou_fgrn = ex_eng, ou_parent = Some ex_acme\<rparr>, \<lparr>ou_fgrn = ex_acme, ou_parent = None\<rparr>,
      \<lparr>ou_fgrn = ex_ops, ou_parent = Some ex_eng\<rparr>]"

definition ex_spine :: spine where
  "ex_spine = \<lparr>sp_units = [(ex_eng, Some ex_acme), (ex_acme, None), (ex_ops, Some ex_eng)],
               sp_root = ex_acme, sp_org = Segment ''acme''\<rparr>"

lemma ex_spine_try_new: "spine_try_new ex_units = Inr ex_spine"
  by code_simp

lemma ex_spine_reachable: "spine_reachable ex_spine"
proof (rule spine_reachable.new)
  show "\<forall>u \<in> set ex_units. org_unit_wf u" by code_simp
qed (rule ex_spine_try_new)

lemma ex_spine_contains:
  "spine_contains ex_spine ex_acme" "spine_contains ex_spine ex_eng" "spine_contains ex_spine ex_ops"
  by code_simp+

theorem spine_path_correct_witness:
  "\<exists>path. spine_path ex_spine ex_ops = Some (Inr path) \<and> path \<noteq> [] \<and> distinct path \<and>
     hd path = sp_root ex_spine \<and> last path = ex_ops \<and>
     (\<forall>i. Suc i < length path \<longrightarrow> spine_parent ex_spine (path ! Suc i) = Inr (Some (path ! i)))"
  using spine_path_correct [OF ex_spine_reachable ex_spine_contains(3)] .

text \<open>
  \<open>is_at_or_below\<close> decides ancestry: on a reachable spine and two contained units it always
  returns, and it returns \<open>true\<close> exactly when following parent edges from the first reaches the second.
\<close>

theorem spine_is_at_or_below_correct:
  assumes "spine_reachable s" "spine_contains s node" "spine_contains s ancestor"
  shows "spine_is_at_or_below s node ancestor =
           Some (Inr ((node, ancestor) \<in> {(k, p). spine_parent s k = Inr (Some p)}\<^sup>*))"
proof -
  have "{(k, p). spine_parent s k = Inr (Some p)} = parent_rel (sp_units s)"
    by (auto simp: spine_parent_def parent_rel_def)
  then show ?thesis
    using spine_is_at_or_below_iff [OF spine_reachable_wf [OF assms(1)] assms(2,3)] by simp
qed

theorem spine_is_at_or_below_correct_witness:
  "spine_is_at_or_below ex_spine ex_ops ex_acme =
     Some (Inr ((ex_ops, ex_acme) \<in> {(k, p). spine_parent ex_spine k = Inr (Some p)}\<^sup>*))"
  using spine_is_at_or_below_correct [OF ex_spine_reachable ex_spine_contains(3,1)] .

text \<open>
  C15. \<open>reparent\<close> on a reachable spine always returns; it succeeds exactly when the moved unit is a
  contained unit other than the root and the new parent is contained and does not lie at or below
  the moved unit. On success the moved unit has the new parent, every other unit keeps its parent,
  and the result is again a single-rooted tree.
\<close>

theorem spine_reparent_correct:
  assumes "spine_reachable s"
  shows "\<exists>r. spine_reparent s node new_parent = Some r \<and>
     (is_ok r \<longleftrightarrow> spine_contains s node \<and> node \<noteq> sp_root s \<and> spine_contains s new_parent \<and>
        spine_is_at_or_below s new_parent node = Some (Inr False)) \<and>
     (\<forall>s'. r = Inr s' \<longrightarrow> spine_wf s' \<and> spine_parent s' node = Inr (Some new_parent) \<and>
        (\<forall>k. k \<noteq> node \<longrightarrow> spine_parent s' k = spine_parent s k))"
proof -
  have wf: "spine_wf s" using assms by (rule spine_reachable_wf)
  have "spine_reparent s node new_parent \<noteq> None"
    using spine_is_at_or_below_iff [OF wf, of new_parent node]
    by (auto simp: spine_reparent_def spine_contains_def)
  then obtain r where r: "spine_reparent s node new_parent = Some r" by blast
  have ok: "is_ok r \<longleftrightarrow> spine_contains s node \<and> node \<noteq> sp_root s \<and> spine_contains s new_parent \<and>
      spine_is_at_or_below s new_parent node = Some (Inr False)"
    using r spine_is_at_or_below_iff [OF wf, of new_parent node]
    by (auto simp: spine_reparent_def spine_contains_def is_ok_iff split: if_splits)
  have "spine_wf s' \<and> spine_parent s' node = Inr (Some new_parent) \<and>
      (\<forall>k. k \<noteq> node \<longrightarrow> spine_parent s' k = spine_parent s k)" if "r = Inr s'" for s'
    using r that spine_reparent_wf [OF wf] spine_reparent_Inr_iff [OF wf, of node new_parent s']
    by (simp add: spine_parent_def hm_insert_lookup)
  with r ok show ?thesis by blast
qed

theorem spine_reparent_correct_witness:
  "\<exists>r. spine_reparent ex_spine ex_ops ex_acme = Some r \<and>
     (is_ok r \<longleftrightarrow> spine_contains ex_spine ex_ops \<and> ex_ops \<noteq> sp_root ex_spine \<and>
        spine_contains ex_spine ex_acme \<and>
        spine_is_at_or_below ex_spine ex_acme ex_ops = Some (Inr False)) \<and>
     (\<forall>s'. r = Inr s' \<longrightarrow> spine_wf s' \<and> spine_parent s' ex_ops = Inr (Some ex_acme) \<and>
        (\<forall>k. k \<noteq> ex_ops \<longrightarrow> spine_parent s' k = spine_parent ex_spine k))"
  using spine_reparent_correct [OF ex_spine_reachable] .

end
