(* ===== verification/Graphs.thy ===== *)
theory Graphs
  imports Prelude
begin

text \<open>
  Facts on finite directed graphs that the depth-first searches of the program share: sets closed
  under successors, and acyclicity of the part of a graph a search has finished.
\<close>

definition closed_under :: "('a \<times> 'a) set \<Rightarrow> 'a set \<Rightarrow> bool" where
  "closed_under E F \<longleftrightarrow> E `` F \<subseteq> F"

lemma closed_under_rtrancl:
  assumes "closed_under E F" "x \<in> F" "(x, y) \<in> E\<^sup>*" shows "y \<in> F"
  using assms(3,2) by (induction rule: rtrancl_induct) (use assms(1) in \<open>auto simp: closed_under_def\<close>)

lemma closed_under_trancl:
  assumes "closed_under E F" "x \<in> F" "(x, y) \<in> E\<^sup>+" shows "y \<in> F"
  using closed_under_rtrancl [OF assms(1,2)] assms(3) by (blast intro: trancl_into_rtrancl)

lemma closed_under_insert:
  "closed_under E F \<Longrightarrow> E `` {x} \<subseteq> F \<Longrightarrow> closed_under E (insert x F)"
  by (auto simp: closed_under_def)

text \<open>No cycle passes through a node of \<open>F\<close>.\<close>

definition cycle_free :: "('a \<times> 'a) set \<Rightarrow> 'a set \<Rightarrow> bool" where
  "cycle_free E F \<longleftrightarrow> (\<forall>x \<in> F. (x, x) \<notin> E\<^sup>+)"

lemma cycle_free_empty [simp]: "cycle_free E {}"
  by (simp add: cycle_free_def)

lemma cycle_free_mono: "cycle_free E F \<Longrightarrow> F' \<subseteq> F \<Longrightarrow> cycle_free E F'"
  by (auto simp: cycle_free_def)

text \<open>A node all of whose successors lie in a closed set it is not in is on no cycle.\<close>

lemma cycle_free_insert:
  assumes "closed_under E F" "cycle_free E F" "E `` {x} \<subseteq> F"
  shows "cycle_free E (insert x F)"
proof -
  have "(x, x) \<notin> E\<^sup>+" if "x \<notin> F"
  proof
    assume "(x, x) \<in> E\<^sup>+"
    then obtain y where y: "(x, y) \<in> E" "(y, x) \<in> E\<^sup>*" by (blast dest: tranclD)
    then have "y \<in> F" using assms(3) by blast
    then have "x \<in> F" using y(2) by (rule closed_under_rtrancl [OF assms(1)])
    with that show False ..
  qed
  then show ?thesis using assms(2) by (auto simp: cycle_free_def)
qed

lemma acyclic_cycle_free: "acyclic E \<Longrightarrow> cycle_free E F"
  by (simp add: cycle_free_def acyclic_def)

lemma cycle_free_acyclic:
  assumes "cycle_free E F" "Domain E \<subseteq> F" shows "acyclic E"
proof -
  have "(x, x) \<notin> E\<^sup>+" for x
  proof
    assume c: "(x, x) \<in> E\<^sup>+"
    then have "x \<in> Domain E" by (meson Domain.DomainI tranclD)
    with c assms show False by (auto simp: cycle_free_def)
  qed
  then show ?thesis by (simp add: acyclic_def)
qed

end
