(* ===== verification/Principal_Sets.thy ===== *)
theory Principal_Sets
  imports Fgrn Graphs
begin

text \<open>
  Principal sets, grants and delegation chains: \<open>crates/core/src/principal_set.rs\<close>,
  \<open>grant.rs\<close> and \<open>delegation.rs\<close>.
\<close>

section \<open>Principal sets\<close>

record principal_set =
  ps_fgrn :: fgrn
  ps_anchor :: fgrn
  ps_members :: "fgrn list"

definition principal_set_try_new :: "fgrn \<Rightarrow> fgrn \<Rightarrow> (core_error, principal_set) result" where
  "principal_set_try_new f anchor =
     (if fgrn_kind f \<noteq> KPrincipalSet then
        Inl (SpineError (fgrn_display f) ''principal set fgrn must have kind principal-set'')
      else if fgrn_kind anchor \<noteq> KOrgUnit then
        Inl (SpineError (fgrn_display anchor) ''principal set anchor must be an org unit'')
      else if fgrn_org anchor \<noteq> fgrn_org f then
        Inl (SpineError (fgrn_display anchor) ''anchor must belong to the same organization'')
      else Inr \<lparr>ps_fgrn = f, ps_anchor = anchor, ps_members = []\<rparr>)"

definition ps_contains :: "principal_set \<Rightarrow> fgrn \<Rightarrow> bool" where
  "ps_contains s member = (member \<in> set (ps_members s))"

definition ps_add_member :: "principal_set \<Rightarrow> fgrn \<Rightarrow> (core_error, bool \<times> principal_set) result" where
  "ps_add_member s member =
     (if fgrn_kind member \<noteq> KPrincipal \<and> fgrn_kind member \<noteq> KPrincipalSet then
        Inl (GrantError (fgrn_display member) ''member must be a principal or principal-set'')
      else if member = ps_fgrn s then
        Inl (GrantError (fgrn_display member) ''set cannot be a member of itself'')
      else if fgrn_org member \<noteq> fgrn_org (ps_fgrn s) then
        Inl (GrantError (fgrn_display member) ''member must belong to the same organization'')
      else Inr (member \<notin> set (ps_members s), s\<lparr>ps_members := bt_insert member (ps_members s)\<rparr>))"

definition ps_remove_member :: "principal_set \<Rightarrow> fgrn \<Rightarrow> bool \<times> principal_set" where
  "ps_remove_member s member =
     (member \<in> set (ps_members s), s\<lparr>ps_members := removeAll member (ps_members s)\<rparr>)"

definition principal_set_wf :: "principal_set \<Rightarrow> bool" where
  "principal_set_wf s \<longleftrightarrow>
     fgrn_wf (ps_fgrn s) \<and> fgrn_kind (ps_fgrn s) = KPrincipalSet \<and>
     fgrn_wf (ps_anchor s) \<and> fgrn_kind (ps_anchor s) = KOrgUnit \<and>
     fgrn_org (ps_anchor s) = fgrn_org (ps_fgrn s) \<and>
     bt_wf (ps_members s) \<and>
     (\<forall>x \<in> set (ps_members s).
        fgrn_wf x \<and> fgrn_kind x \<in> {KPrincipal, KPrincipalSet} \<and> x \<noteq> ps_fgrn s \<and>
        fgrn_org x = fgrn_org (ps_fgrn s))"

lemma principal_set_try_new_wf:
  "fgrn_wf f \<Longrightarrow> fgrn_wf anchor \<Longrightarrow> principal_set_try_new f anchor = Inr s \<Longrightarrow> principal_set_wf s"
  by (auto simp: principal_set_try_new_def principal_set_wf_def split: if_splits)

lemma ps_add_member_wf:
  "principal_set_wf s \<Longrightarrow> fgrn_wf member \<Longrightarrow> ps_add_member s member = Inr (new, s') \<Longrightarrow>
     principal_set_wf s'"
  using bt_insert_wf [of "ps_members s" member]
  by (clarsimp simp: ps_add_member_def principal_set_wf_def split: if_splits)

lemma ps_remove_member_wf:
  "principal_set_wf s \<Longrightarrow> principal_set_wf (snd (ps_remove_member s member))"
  by (auto simp: ps_remove_member_def principal_set_wf_def bt_remove_wf)

subsection \<open>Membership cycles\<close>

type_synonym set_map = "(fgrn, principal_set) hash_map"

definition sets_by_fgrn :: "principal_set list \<Rightarrow> set_map" where
  "sets_by_fgrn sets = foldl (\<lambda>m s. hm_insert (ps_fgrn s) s m) [] sets"

text \<open>The path is pushed before and popped after the loop, so it is an argument here.\<close>

function visit :: "set_map \<Rightarrow> fgrn \<Rightarrow> fgrn list \<Rightarrow> (core_error, unit) result"
  and visit_members :: "set_map \<Rightarrow> fgrn list \<Rightarrow> fgrn list \<Rightarrow> (core_error, unit) result" where
  "visit m f path =
     (if f \<in> set path then
        Inl (GrantError (fgrn_display f) ''principal-set membership cycle detected'')
      else (case map_of m f of
          None \<Rightarrow> Inr ()
        | Some current_set \<Rightarrow> visit_members m (ps_members current_set) (path @ [f])))"
| "visit_members m [] path = Inr ()"
| "visit_members m (x # xs) path =
     and_then (if fgrn_kind x = KPrincipalSet \<and> hm_contains m x then visit m x path else Inr ())
       (\<lambda>_. visit_members m xs path)"
  by pat_completeness auto
termination
proof (relation "measures [\<lambda>a. case a of
      Inl (m, f, path) \<Rightarrow> card (fst ` set m - set path)
    | Inr (m, xs, path) \<Rightarrow> card (fst ` set m - set path),
    \<lambda>a. case a of Inl _ \<Rightarrow> 0 | Inr (m, xs, path) \<Rightarrow> Suc (length xs)]", goal_cases)
  case (2 m f path current_set)
  then have "f \<in> fst ` set m - set path" by (force dest: map_of_SomeD)
  then have "card (fst ` set m - set (path @ [f])) < card (fst ` set m - set path)"
    by (intro psubset_card_mono) auto
  then show ?case by simp
qed auto

declare visit.simps [simp del]

definition assert_acyclic :: "principal_set list \<Rightarrow> (core_error, unit) result" where
  "assert_acyclic sets = for_each (\<lambda>s. visit (sets_by_fgrn sets) (ps_fgrn s) []) sets"

text \<open>The membership edges between the sets of a collection.\<close>

definition set_edges :: "set_map \<Rightarrow> (fgrn \<times> fgrn) set" where
  "set_edges m =
     {(f, g). \<exists>s. map_of m f = Some s \<and> g \<in> set (ps_members s) \<and> fgrn_kind g = KPrincipalSet \<and>
        hm_contains m g}"

lemma visit_members_Inr_iff:
  "visit_members m xs path = Inr () \<longleftrightarrow>
     (\<forall>x \<in> set xs. fgrn_kind x = KPrincipalSet \<and> hm_contains m x \<longrightarrow> visit m x path = Inr ())"
  by (induction xs) auto

lemma visit_Inr_step:
  assumes "visit m f path = Inr ()" "(f, g) \<in> set_edges m"
  shows "f \<notin> set path \<and> visit m g (path @ [f]) = Inr ()"
  using assms
  by (auto simp: visit.simps [of m f] set_edges_def visit_members_Inr_iff split: if_splits)

lemma visit_Inr_trancl:
  assumes "visit m f path = Inr ()" "(f, g) \<in> (set_edges m)\<^sup>+"
  shows "\<exists>path'. f \<in> set path' \<and> visit m g path' = Inr ()"
  using assms(2)
proof (induction rule: trancl_induct)
  case (base g)
  then have "visit m g (path @ [f]) = Inr ()" using visit_Inr_step [OF assms(1)] by blast
  then show ?case by (intro exI [of _ "path @ [f]"]) simp
next
  case (step g h)
  then obtain path' where p: "f \<in> set path'" "visit m g path' = Inr ()" by blast
  then have "visit m h (path' @ [g]) = Inr ()" using visit_Inr_step step.hyps(2) by blast
  with p(1) show ?case by (intro exI [of _ "path' @ [g]"]) simp
qed

lemma visit_Inr_no_cycle:
  assumes "visit m f path = Inr ()" shows "(f, f) \<notin> (set_edges m)\<^sup>+"
proof
  assume "(f, f) \<in> (set_edges m)\<^sup>+"
  then obtain path' where "f \<in> set path'" "visit m f path' = Inr ()"
    using visit_Inr_trancl [OF assms] by blast
  then show False by (simp add: visit.simps)
qed

lemma acyclic_visit:
  assumes "acyclic (set_edges m)"
  shows "\<forall>x \<in> set path. (x, f) \<in> (set_edges m)\<^sup>+ \<Longrightarrow> visit m f path = Inr ()"
proof (induction "card (fst ` set m - set path)" arbitrary: f path rule: less_induct)
  case less
  have f: "f \<notin> set path" using less.prems assms by (auto simp: acyclic_def)
  show ?case
  proof (cases "map_of m f")
    case None
    with f show ?thesis by (simp add: visit.simps)
  next
    case (Some s)
    have "visit m g (path @ [f]) = Inr ()"
      if g: "g \<in> set (ps_members s)" "fgrn_kind g = KPrincipalSet" "hm_contains m g" for g
    proof (rule less.hyps)
      have "f \<in> fst ` set m - set path" using f Some by (force dest: map_of_SomeD)
      then show "card (fst ` set m - set (path @ [f])) < card (fst ` set m - set path)"
        by (intro psubset_card_mono) auto
      have "(f, g) \<in> set_edges m" using g Some by (auto simp: set_edges_def)
      with less.prems show "\<forall>x \<in> set (path @ [f]). (x, g) \<in> (set_edges m)\<^sup>+"
        by (auto intro: trancl_into_trancl)
    qed
    with f Some show ?thesis by (simp add: visit.simps [of m f] visit_members_Inr_iff)
  qed
qed

lemma sets_by_fgrn_keys: "fst ` set (sets_by_fgrn sets) = ps_fgrn ` set sets"
proof -
  have "fst ` set (foldl (\<lambda>m s. hm_insert (ps_fgrn s) s m) m sets) = fst ` set m \<union> ps_fgrn ` set sets" for m
    by (induction sets arbitrary: m) (auto simp: hm_insert_keys)
  then show ?thesis by (simp add: sets_by_fgrn_def)
qed

lemma assert_acyclic_iff:
  "assert_acyclic sets = Inr () \<longleftrightarrow> acyclic (set_edges (sets_by_fgrn sets))"
proof
  let ?m = "sets_by_fgrn sets"
  assume ok: "assert_acyclic sets = Inr ()"
  have "cycle_free (set_edges ?m) (ps_fgrn ` set sets)"
    using ok visit_Inr_no_cycle by (auto simp: assert_acyclic_def cycle_free_def)
  moreover have "Domain (set_edges ?m) \<subseteq> ps_fgrn ` set sets"
    unfolding sets_by_fgrn_keys [symmetric] by (force simp: set_edges_def dest: map_of_SomeD)
  ultimately show "acyclic (set_edges ?m)" by (rule cycle_free_acyclic)
next
  assume "acyclic (set_edges (sets_by_fgrn sets))"
  then show "assert_acyclic sets = Inr ()" by (simp add: assert_acyclic_def acyclic_visit)
qed

section \<open>Grants\<close>

lemma bt_of_list_eq_Nil_iff: "bt_of_list xs = [] \<longleftrightarrow> xs = []"
  using set_bt_of_list [of xs] by (metis empty_set set_empty)

record grant =
  gr_resource :: fgrn
  gr_actions :: "verb list"
  gr_to :: fgrn

definition grant_try_new :: "fgrn \<Rightarrow> verb list \<Rightarrow> fgrn \<Rightarrow> (core_error, grant) result" where
  "grant_try_new resource actions to =
     (if actions = [] then
        Inl (GrantError (fgrn_display resource) ''grant must carry at least one action'')
      else if fgrn_kind resource \<noteq> KResource then
        Inl (GrantError (fgrn_display resource) ''grant resource must have kind resource'')
      else if fgrn_kind to \<noteq> KPrincipal \<and> fgrn_kind to \<noteq> KPrincipalSet then
        Inl (GrantError (fgrn_display to) ''grantee must be a principal or principal-set'')
      else if fgrn_org to \<noteq> fgrn_org resource then
        Inl (GrantError (fgrn_display to) ''grantee must belong to the same organization'')
      else Inr \<lparr>gr_resource = resource, gr_actions = bt_of_list actions, gr_to = to\<rparr>)"

definition grant_permits :: "grant \<Rightarrow> verb \<Rightarrow> bool" where
  "grant_permits g v = (v \<in> set (gr_actions g))"

definition grant_wf :: "grant \<Rightarrow> bool" where
  "grant_wf g \<longleftrightarrow>
     fgrn_kind (gr_resource g) = KResource \<and> fgrn_kind (gr_to g) \<in> {KPrincipal, KPrincipalSet} \<and>
     fgrn_org (gr_to g) = fgrn_org (gr_resource g) \<and> gr_actions g \<noteq> [] \<and> bt_wf (gr_actions g)"

lemma grant_try_new_Inr:
  assumes "grant_try_new resource actions to = Inr g"
  shows "grant_wf g" "gr_resource g = resource" "gr_to g = to" "grant_permits g v \<longleftrightarrow> v \<in> set actions"
  using assms bt_of_list_eq_Nil_iff [of actions]
  by (auto simp: grant_try_new_def grant_wf_def grant_permits_def split: if_splits)

section \<open>Delegation chains\<close>

record delegation_chain =
  dc_links :: "fgrn list"

definition delegation_chain_try_new :: "fgrn list \<Rightarrow> (core_error, delegation_chain) result" where
  "delegation_chain_try_new links =
     (if length links < 2 then
        Inl (GrantError (case links of [] \<Rightarrow> [] | f # _ \<Rightarrow> fgrn_display f)
          ''delegation chain must have at least two links'')
      else
        and_then (for_each (\<lambda>l. if fgrn_kind l \<noteq> KPrincipal
            then Inl (GrantError (fgrn_display l) ''delegation link must be a principal'')
            else Inr ()) links) (\<lambda>_.
        and_then (for_each (\<lambda>l. if fgrn_org l \<noteq> fgrn_org (hd links)
            then Inl (GrantError (fgrn_display l)
              ''delegation links must belong to the same organization'')
            else Inr ()) (tl links)) (\<lambda>_.
        Inr \<lparr>dc_links = links\<rparr>)))"

definition dc_actor :: "delegation_chain \<Rightarrow> fgrn" where
  "dc_actor c = dc_links c ! 0"

definition dc_subject :: "delegation_chain \<Rightarrow> fgrn" where
  "dc_subject c = dc_links c ! (length (dc_links c) - 1)"

definition delegation_chain_wf :: "delegation_chain \<Rightarrow> bool" where
  "delegation_chain_wf c \<longleftrightarrow>
     2 \<le> length (dc_links c) \<and>
     (\<forall>l \<in> set (dc_links c). fgrn_kind l = KPrincipal \<and> fgrn_org l = fgrn_org (dc_actor c))"

lemma delegation_chain_try_new_Inr_iff:
  "delegation_chain_try_new links = Inr c \<longleftrightarrow> dc_links c = links \<and> delegation_chain_wf c"
  by (cases links)
    (auto simp: delegation_chain_try_new_def delegation_chain_wf_def dc_actor_def Suc_le_eq
      split: if_splits)

text \<open>The transitive membership walk of \<open>set_contains\<close>, with its list of visited sets.\<close>

function walk :: "principal_set list \<Rightarrow> fgrn \<Rightarrow> fgrn \<Rightarrow> fgrn list \<Rightarrow> bool \<times> fgrn list"
  and walk_any :: "principal_set list \<Rightarrow> fgrn list \<Rightarrow> fgrn \<Rightarrow> fgrn list \<Rightarrow> bool \<times> fgrn list" where
  "walk sets set_fgrn prin visited =
     (case find (\<lambda>s. ps_fgrn s = set_fgrn) sets of
        None \<Rightarrow> (False, visited)
      | Some s \<Rightarrow>
          if ps_fgrn s \<in> set visited then (False, visited)
          else if ps_contains s prin then (True, visited @ [ps_fgrn s])
          else walk_any sets (filter (\<lambda>m. fgrn_kind m = KPrincipalSet) (ps_members s)) prin
                 (visited @ [ps_fgrn s]))"
| "walk_any sets [] prin visited = (False, visited)"
| "walk_any sets (m # ms) prin visited =
     (case walk sets m prin visited of
        (True, visited') \<Rightarrow> (True, visited')
      | (False, visited') \<Rightarrow> walk_any sets ms prin visited')"
  by pat_completeness auto

lemma walk_visited_grows:
  "walk_walk_any_dom (Inl (sets, f, p, v)) \<Longrightarrow> set v \<subseteq> set (snd (walk sets f p v))"
  "walk_walk_any_dom (Inr (sets, ms, p, v)) \<Longrightarrow> set v \<subseteq> set (snd (walk_any sets ms p v))"
proof (induction sets f p v and sets ms p v rule: walk_walk_any.pinduct)
  case (1 sets f p v)
  show ?case
  proof (cases "find (\<lambda>s. ps_fgrn s = f) sets")
    case None
    then show ?thesis by (simp add: walk.psimps [OF 1(1)])
  next
    case (Some s)
    then show ?thesis using 1(2) [OF Some] by (auto simp: walk.psimps [OF 1(1)])
  qed
next
  case (3 sets m ms p v)
  obtain b v' where w: "walk sets m p v = (b, v')" by fastforce
  then have "set v \<subseteq> set v'" using 3(2) by simp
  moreover have "set v' \<subseteq> set (snd (walk_any sets ms p v'))" if "\<not> b"
    using 3(3) [OF w [symmetric]] that by simp
  ultimately show ?case by (auto simp: walk_any.psimps(2) [OF 3(1)] w split: bool.splits)
qed (simp add: walk_any.psimps)

termination walk
proof (relation "measures [\<lambda>a. case a of
      Inl (sets, f, p, v) \<Rightarrow> card (ps_fgrn ` set sets - set v)
    | Inr (sets, ms, p, v) \<Rightarrow> card (ps_fgrn ` set sets - set v),
    \<lambda>a. case a of Inl _ \<Rightarrow> 0 | Inr (sets, ms, p, v) \<Rightarrow> Suc (length ms)]", goal_cases)
  case (2 sets f p v s)
  then have "ps_fgrn s \<in> ps_fgrn ` set sets - set v" by (auto simp: find_Some_iff)
  then have "card (ps_fgrn ` set sets - set (v @ [ps_fgrn s])) < card (ps_fgrn ` set sets - set v)"
    by (intro psubset_card_mono) auto
  then show ?case by simp
next
  case (4 sets m ms p v b v')
  then have "v' = snd (walk sets m p v)" by (metis snd_conv)
  then have "set v \<subseteq> set v'" using walk_visited_grows(1) [of sets m p v] 4 by simp
  then have "card (ps_fgrn ` set sets - set v') \<le> card (ps_fgrn ` set sets - set v)"
    by (intro card_mono) auto
  then show ?case by auto
qed auto


declare walk.simps [simp del]

definition set_contains :: "principal_set list \<Rightarrow> fgrn \<Rightarrow> fgrn \<Rightarrow> bool" where
  "set_contains sets set_fgrn prin = fst (walk sets set_fgrn prin [])"

record effective_scope_query =
  es_chain :: delegation_chain
  es_resource :: fgrn
  es_grants :: "grant list"
  es_sets :: "principal_set list"

definition verbs_held :: "fgrn \<Rightarrow> effective_scope_query \<Rightarrow> verb list" where
  "verbs_held l q =
     bt_of_list (concat (map gr_actions
       (filter (\<lambda>g. gr_to g = l \<or> set_contains (es_sets q) (gr_to g) l)
         (filter (\<lambda>g. gr_resource g = es_resource q) (es_grants q)))))"

text \<open>The loop of \<open>effective_verbs\<close>, with its early exit on the empty set.\<close>

fun effective_loop :: "effective_scope_query \<Rightarrow> fgrn list \<Rightarrow> verb list option \<Rightarrow> verb list option" where
  "effective_loop q [] effective = effective"
| "effective_loop q (l # ls) effective =
     (let held = verbs_held l q;
          effective' = (case effective of
              None \<Rightarrow> held
            | Some prev \<Rightarrow> filter (\<lambda>v. v \<in> set held) prev)
      in if effective' = [] then Some effective' else effective_loop q ls (Some effective'))"

definition effective_verbs :: "effective_scope_query \<Rightarrow> (core_error, verb list) result" where
  "effective_verbs q =
     (if fgrn_kind (es_resource q) \<noteq> KResource then
        Inl (GrantError (fgrn_display (es_resource q))
          ''effective scope resource must have kind resource'')
      else Inr (case effective_loop q (dc_links (es_chain q)) None of None \<Rightarrow> [] | Some vs \<Rightarrow> vs))"

section \<open>Transitive membership\<close>

text \<open>Membership stated without a search: a chain of nested sets down to one that has the principal.\<close>

definition find_set :: "principal_set list \<Rightarrow> fgrn \<Rightarrow> principal_set option" where
  "find_set sets f = find (\<lambda>s. ps_fgrn s = f) sets"

inductive transitive_member :: "principal_set list \<Rightarrow> fgrn \<Rightarrow> fgrn \<Rightarrow> bool"
  for sets :: "principal_set list" and prin :: fgrn where
  direct: "find_set sets f = Some s \<Longrightarrow> ps_contains s prin \<Longrightarrow> transitive_member sets prin f"
| nested: "find_set sets f = Some s \<Longrightarrow> g \<in> set (ps_members s) \<Longrightarrow> fgrn_kind g = KPrincipalSet \<Longrightarrow>
    transitive_member sets prin g \<Longrightarrow> transitive_member sets prin f"

lemma find_set_fgrn: "find_set sets f = Some s \<Longrightarrow> ps_fgrn s = f \<and> s \<in> set sets"
  by (auto simp: find_set_def find_Some_iff)

lemma walk_sound:
  "fst (walk sets f prin v) \<Longrightarrow> transitive_member sets prin f"
  "fst (walk_any sets ms prin v) \<Longrightarrow> \<exists>g \<in> set ms. transitive_member sets prin g"
proof (induction sets f prin v and sets ms prin v rule: walk_walk_any.induct)
  case (1 sets f prin v)
  have "find_set sets f \<noteq> None"
  proof
    assume "find_set sets f = None"
    with 1(2) show False by (simp add: walk.simps [of sets f prin v] find_set_def)
  qed
  then obtain s where s: "find_set sets f = Some s" by blast
  then have f: "find (\<lambda>s. ps_fgrn s = f) sets = Some s" "ps_fgrn s = f"
    using find_set_fgrn [OF s] by (simp_all add: find_set_def)
  show ?case
  proof (cases "ps_contains s prin")
    case True
    with s show ?thesis by (rule transitive_member.direct)
  next
    case False
    have v: "f \<notin> set v" using 1(2) f by (auto simp: walk.simps [of sets f])
    then have "fst (walk_any sets (filter (\<lambda>m. fgrn_kind m = KPrincipalSet) (ps_members s)) prin (v @ [f]))"
      using 1(2) f False by (simp add: walk.simps [of sets f])
    then have "\<exists>g \<in> set (filter (\<lambda>m. fgrn_kind m = KPrincipalSet) (ps_members s)).
        transitive_member sets prin g"
      using 1(1) [OF f(1)] v False f(2) by simp
    with s show ?thesis by (auto intro: transitive_member.nested)
  qed
next
  case (3 sets m ms prin v)
  obtain b v' where w: "walk sets m prin v = (b, v')" by fastforce
  show ?case
  proof (cases b)
    case True
    with 3(1) w show ?thesis by simp
  next
    case False
    with 3(2) [OF w [symmetric]] 3(3) w show ?thesis by auto
  qed
qed simp

text \<open>
  The sets a failed search has visited: known to the collection, without the principal, and with
  all their nested sets visited too.
\<close>

definition searched :: "principal_set list \<Rightarrow> fgrn \<Rightarrow> fgrn list \<Rightarrow> fgrn \<Rightarrow> bool" where
  "searched sets prin v x \<longleftrightarrow>
     (\<forall>s. find_set sets x = Some s \<longrightarrow> \<not> ps_contains s prin \<and>
        (\<forall>g \<in> set (ps_members s). fgrn_kind g = KPrincipalSet \<longrightarrow> find_set sets g \<noteq> None \<longrightarrow>
           g \<in> set v))"

lemma searched_mono: "searched sets prin v x \<Longrightarrow> set v \<subseteq> set v' \<Longrightarrow> searched sets prin v' x"
  by (auto simp: searched_def)

lemma walk_complete:
  "walk sets f prin v = (False, v') \<Longrightarrow>
     set v \<subseteq> set v' \<and> (find_set sets f \<noteq> None \<longrightarrow> f \<in> set v') \<and>
     (\<forall>x \<in> set v' - set v. searched sets prin v' x)"
  "walk_any sets ms prin v = (False, v') \<Longrightarrow>
     set v \<subseteq> set v' \<and> (\<forall>g \<in> set ms. find_set sets g \<noteq> None \<longrightarrow> g \<in> set v') \<and>
     (\<forall>x \<in> set v' - set v. searched sets prin v' x)"
proof (induction sets f prin v and sets ms prin v arbitrary: v' and v' rule: walk_walk_any.induct)
  case (1 sets f prin v)
  show ?case
  proof (cases "find_set sets f")
    case None
    with 1(2) show ?thesis by (simp add: walk.simps find_set_def)
  next
    case (Some s)
    then have f: "find (\<lambda>s. ps_fgrn s = f) sets = Some s" "ps_fgrn s = f"
      using find_set_fgrn [OF Some] by (simp_all add: find_set_def)
    show ?thesis
    proof (cases "f \<in> set v")
      case True
      with 1(2) f show ?thesis by (simp add: walk.simps [of sets f])
    next
      case False
      let ?ms = "filter (\<lambda>m. fgrn_kind m = KPrincipalSet) (ps_members s)"
      have no: "\<not> ps_contains s prin" and any: "walk_any sets ?ms prin (v @ [f]) = (False, v')"
        using 1(2) f False by (auto simp: walk.simps [of sets f] split: if_splits)
      have ih: "set (v @ [f]) \<subseteq> set v'" "\<forall>g \<in> set ?ms. find_set sets g \<noteq> None \<longrightarrow> g \<in> set v'"
          "\<forall>x \<in> set v' - set (v @ [f]). searched sets prin v' x"
        using 1(1) [OF f(1)] False no any f(2) by simp_all
      have "searched sets prin v' f" using ih(2) no Some by (auto simp: searched_def)
      with ih show ?thesis by auto
    qed
  qed
next
  case (3 sets m ms prin v)
  obtain b w where w: "walk sets m prin v = (b, w)" by fastforce
  with 3(3) have b: "\<not> b" and rest: "walk_any sets ms prin w = (False, v')" by (cases b; simp)+
  have one: "set v \<subseteq> set w \<and> (find_set sets m \<noteq> None \<longrightarrow> m \<in> set w) \<and>
      (\<forall>x \<in> set w - set v. searched sets prin w x)"
    using 3(1) w b by simp
  have two: "set w \<subseteq> set v' \<and> (\<forall>g \<in> set ms. find_set sets g \<noteq> None \<longrightarrow> g \<in> set v') \<and>
      (\<forall>x \<in> set v' - set w. searched sets prin v' x)"
    using 3(2) [OF w [symmetric] _ rest] b by simp
  have "searched sets prin v' x" if "x \<in> set v' - set v" for x
    using that one two searched_mono [of sets prin w x v'] by blast
  with one two show ?case by auto
qed simp

lemma set_contains_iff: "set_contains sets f prin \<longleftrightarrow> transitive_member sets prin f"
proof
  assume "set_contains sets f prin"
  then show "transitive_member sets prin f" unfolding set_contains_def by (rule walk_sound)
next
  assume mem: "transitive_member sets prin f"
  show "set_contains sets f prin"
  proof (rule ccontr)
    assume "\<not> set_contains sets f prin"
    then obtain v where v: "walk sets f prin [] = (False, v)"
      by (cases "walk sets f prin []") (auto simp: set_contains_def)
    have "g \<notin> set v" if "transitive_member sets prin g" for g
      using that
    proof (induction rule: transitive_member.induct)
      case (direct g s)
      then show ?case using walk_complete(1) [OF v] unfolding searched_def by force
    next
      case (nested g s h)
      have "find_set sets h \<noteq> None" using nested.hyps(4) by (cases rule: transitive_member.cases) auto
      with nested show ?case using walk_complete(1) [OF v] by (auto simp: searched_def)
    qed
    moreover have "find_set sets f \<noteq> None" using mem by (cases rule: transitive_member.cases) auto
    then have "f \<in> set v" using walk_complete(1) [OF v] by blast
    ultimately show False using mem by blast
  qed
qed


lemma set_verbs_held:
  "v \<in> set (verbs_held l q) \<longleftrightarrow>
     (\<exists>g \<in> set (es_grants q). gr_resource g = es_resource q \<and> grant_permits g v \<and>
        (gr_to g = l \<or> transitive_member (es_sets q) l (gr_to g)))"
  by (auto simp: verbs_held_def grant_permits_def set_contains_iff)

lemma verbs_held_wf: "bt_wf (verbs_held l q)"
  by (simp add: verbs_held_def)

lemma effective_loop_Some:
  "bt_wf prev \<Longrightarrow>
     \<exists>vs. effective_loop q ls (Some prev) = Some vs \<and> bt_wf vs \<and>
       set vs = {v \<in> set prev. \<forall>l \<in> set ls. v \<in> set (verbs_held l q)}"
proof (induction ls arbitrary: prev)
  case (Cons l ls)
  define prev' where "prev' = filter (\<lambda>v. v \<in> set (verbs_held l q)) prev"
  have wf: "bt_wf prev'" using Cons.prems by (simp add: prev'_def sorted_wrt_filter)
  have s: "set prev' = {v \<in> set prev. v \<in> set (verbs_held l q)}" by (auto simp: prev'_def)
  show ?case
  proof (cases "prev' = []")
    case True
    then have "{v \<in> set prev. v \<in> set (verbs_held l q)} = {}" using s by simp
    with True show ?thesis by (auto simp: Let_def prev'_def [symmetric])
  next
    case False
    then have "effective_loop q (l # ls) (Some prev) = effective_loop q ls (Some prev')"
      by (simp add: Let_def prev'_def)
    then show ?thesis using Cons.IH [OF wf] s by auto
  qed
qed simp

lemma effective_loop_None:
  assumes "ls \<noteq> []"
  shows "\<exists>vs. effective_loop q ls None = Some vs \<and> bt_wf vs \<and>
           (\<forall>v. v \<in> set vs \<longleftrightarrow> (\<forall>l \<in> set ls. v \<in> set (verbs_held l q)))"
proof -
  obtain l ls' where ls: "ls = l # ls'" using assms by (cases ls) auto
  show ?thesis
  proof (cases "verbs_held l q = []")
    case True
    then show ?thesis by (auto simp: ls Let_def)
  next
    case False
    then show ?thesis
      using effective_loop_Some [OF verbs_held_wf, of q ls' l q] by (auto simp: ls Let_def)
  qed
qed

section \<open>Properties of principal sets and delegation\<close>

text \<open>
  C36. \<open>assert_acyclic\<close> accepts a collection of principal sets exactly when the membership edges
  between its sets have no cycle; a shared descendant reached along two parents is accepted.
\<close>

theorem assert_acyclic_correct:
  "is_ok (assert_acyclic sets) \<longleftrightarrow> acyclic (set_edges (sets_by_fgrn sets))"
  using assert_acyclic_iff [of sets] by (auto simp: is_ok_iff)

text \<open>
  C17. The effective verbs of a delegation chain on a resource are the intersection of the verbs its
  links hold: a verb is effective exactly when every link holds it by some grant on the resource
  that names the link itself or a principal set with the link as a transitive member. Cyclic set
  memberships do no harm.
\<close>

theorem effective_verbs_correct:
  assumes "fgrn_kind (es_resource q) = KResource" "delegation_chain_wf (es_chain q)"
  shows "\<exists>vs. effective_verbs q = Inr vs \<and> bt_wf vs \<and>
    (\<forall>v. v \<in> set vs \<longleftrightarrow>
      (\<forall>l \<in> set (dc_links (es_chain q)). \<exists>g \<in> set (es_grants q).
         gr_resource g = es_resource q \<and> grant_permits g v \<and>
         (gr_to g = l \<or> transitive_member (es_sets q) l (gr_to g))))"
proof -
  have "dc_links (es_chain q) \<noteq> []" using assms(2) by (auto simp: delegation_chain_wf_def)
  then show ?thesis
    using effective_loop_None [of "dc_links (es_chain q)" q] assms(1)
    by (auto simp: effective_verbs_def set_verbs_held)
qed

definition ex_alice :: fgrn where "ex_alice = fgrn_principal (Segment ''acme'') (NativeId ''alice'')"
definition ex_bot :: fgrn where "ex_bot = fgrn_principal (Segment ''acme'') (NativeId ''bot'')"
definition ex_team :: fgrn where "ex_team = fgrn_principal_set (Segment ''acme'') (NativeId ''team'')"
definition ex_doc :: fgrn where
  "ex_doc = Fgrn (Segment ''acme'') KResource (NativeId ''doc/1'') (Some (Segment ''doc''))
     (Some (NativeId ''1'')) ''fgrn:acme:resource:doc/1''"

definition ex_query :: effective_scope_query where
  "ex_query =
     \<lparr>es_chain = \<lparr>dc_links = [ex_bot, ex_alice]\<rparr>, es_resource = ex_doc,
      es_grants =
        [\<lparr>gr_resource = ex_doc, gr_actions = [Verb ''read'', Verb ''write''], gr_to = ex_team\<rparr>,
         \<lparr>gr_resource = ex_doc, gr_actions = [Verb ''read''], gr_to = ex_bot\<rparr>],
      es_sets = [\<lparr>ps_fgrn = ex_team, ps_anchor = fgrn_org_unit (Segment ''acme'') (NativeId ''root''),
                  ps_members = [ex_alice]\<rparr>]\<rparr>"

theorem effective_verbs_correct_witness:
  "\<exists>vs. effective_verbs ex_query = Inr vs \<and> bt_wf vs \<and>
    (\<forall>v. v \<in> set vs \<longleftrightarrow>
      (\<forall>l \<in> set (dc_links (es_chain ex_query)). \<exists>g \<in> set (es_grants ex_query).
         gr_resource g = es_resource ex_query \<and> grant_permits g v \<and>
         (gr_to g = l \<or> transitive_member (es_sets ex_query) l (gr_to g))))"
proof (rule effective_verbs_correct)
  show "fgrn_kind (es_resource ex_query) = KResource" by code_simp
  show "delegation_chain_wf (es_chain ex_query)" by code_simp
qed

end
