(* ===== verification/Hierarchy.thy ===== *)
theory Hierarchy
  imports Spine Principal_Sets
begin

text \<open>
  What anchors into the spine and what is read from it: principals (\<open>principal.rs\<close>), resource type
  declarations (\<open>resource_type.rs\<close>), anchored and promoted resources (\<open>anchored_resource.rs\<close>,
  \<open>promotion.rs\<close>), ambient subtree visibility (\<open>visibility.rs\<close>) and selectors (\<open>selector.rs\<close>).
\<close>

section \<open>Principals\<close>

datatype principal_kind = Human | Service | Agent

fun principal_kind_str :: "principal_kind \<Rightarrow> string" where
  "principal_kind_str Human = ''human''"
| "principal_kind_str Service = ''service''"
| "principal_kind_str Agent = ''agent''"

definition principal_kind_from_str :: "string \<Rightarrow> (core_error, principal_kind) result" where
  "principal_kind_from_str s =
     (if s = ''human'' then Inr Human
      else if s = ''service'' then Inr Service
      else if s = ''agent'' then Inr Agent
      else Inl (Parse ''principal_kind'' s
        (''unknown kind '' @ em_dash @ '' expected human, service, or agent'')))"

record principal_node =
  pr_fgrn :: fgrn
  pr_kind :: principal_kind
  pr_anchor :: fgrn

definition principal_try_new :: "fgrn \<Rightarrow> principal_kind \<Rightarrow> fgrn \<Rightarrow> (core_error, principal_node) result" where
  "principal_try_new f kind anchor =
     (if fgrn_kind f \<noteq> KPrincipal then
        Inl (SpineError (fgrn_display f) ''principal fgrn must have kind principal'')
      else if fgrn_kind anchor \<noteq> KOrgUnit then
        Inl (SpineError (fgrn_display anchor) ''principal anchor must be an org unit'')
      else if fgrn_org anchor \<noteq> fgrn_org f then
        Inl (SpineError (fgrn_display anchor) ''anchor must belong to the same organization'')
      else Inr \<lparr>pr_fgrn = f, pr_kind = kind, pr_anchor = anchor\<rparr>)"

definition principal_wf :: "principal_node \<Rightarrow> bool" where
  "principal_wf p \<longleftrightarrow>
     fgrn_wf (pr_fgrn p) \<and> fgrn_kind (pr_fgrn p) = KPrincipal \<and>
     fgrn_wf (pr_anchor p) \<and> fgrn_kind (pr_anchor p) = KOrgUnit \<and>
     fgrn_org (pr_anchor p) = fgrn_org (pr_fgrn p)"

lemma principal_kind_round_trip: "principal_kind_from_str s = Inr k \<longleftrightarrow> s = principal_kind_str k"
  by (cases k) (auto simp: principal_kind_from_str_def)

lemma principal_try_new_wf:
  "fgrn_wf f \<Longrightarrow> fgrn_wf anchor \<Longrightarrow> principal_try_new f kind anchor = Inr p \<Longrightarrow> principal_wf p"
  by (auto simp: principal_try_new_def principal_wf_def split: if_splits)

section \<open>Resource types, anchored resources, promotion\<close>

datatype user_boundary = Opaque | Transparent

fun user_boundary_str :: "user_boundary \<Rightarrow> string" where
  "user_boundary_str Opaque = ''opaque''"
| "user_boundary_str Transparent = ''transparent''"

definition user_boundary_from_str :: "string \<Rightarrow> (core_error, user_boundary) result" where
  "user_boundary_from_str s =
     (if s = ''opaque'' then Inr Opaque
      else if s = ''transparent'' then Inr Transparent
      else Inl (Parse ''user_boundary'' s
        (''unknown boundary '' @ em_dash @ '' expected opaque or transparent'')))"

lemma user_boundary_round_trip: "user_boundary_from_str s = Inr b \<longleftrightarrow> s = user_boundary_str b"
  by (cases b) (auto simp: user_boundary_from_str_def)

datatype anchoring = AnchorOrgUnit | AnchorPrincipal user_boundary | AnchorPrincipalSet

fun anchor_kind :: "anchoring \<Rightarrow> fgrn_kind" where
  "anchor_kind AnchorOrgUnit = KOrgUnit"
| "anchor_kind (AnchorPrincipal b) = KPrincipal"
| "anchor_kind AnchorPrincipalSet = KPrincipalSet"

record resource_type_decl =
  rt_name :: segment
  rt_anchoring :: anchoring

record anchored_resource =
  ar_type :: segment
  ar_anchor :: fgrn

definition anchored_resource_try_new :: "segment \<Rightarrow> fgrn \<Rightarrow> (core_error, anchored_resource) result" where
  "anchored_resource_try_new resource_type anchor =
     (case fgrn_kind anchor of
        KResource \<Rightarrow> Inl (SpineError (fgrn_display anchor)
          ''resource anchor must be an org unit, principal, or principal-set'')
      | _ \<Rightarrow> Inr \<lparr>ar_type = resource_type, ar_anchor = anchor\<rparr>)"

lemma declared_anchors_accepted:
  "fgrn_kind anchor = anchor_kind a \<Longrightarrow>
     anchored_resource_try_new t anchor = Inr \<lparr>ar_type = t, ar_anchor = anchor\<rparr>"
  by (cases a) (auto simp: anchored_resource_try_new_def)

record promoted_resource =
  pm_fgrn :: fgrn
  pm_anchor :: fgrn

record share_request =
  sh_resource :: anchored_resource
  sh_native_id :: native_id
  sh_to :: fgrn
  sh_actions :: "verb list"

definition share :: "share_request \<Rightarrow> (core_error, promoted_resource \<times> grant) outcome" where
  "share request =
     (case fgrn_resource (fgrn_org (ar_anchor (sh_resource request))) (ar_type (sh_resource request))
             (sh_native_id request) of
        None \<Rightarrow> None
      | Some minted \<Rightarrow> Some (
          and_then (grant_try_new minted (sh_actions request) (sh_to request)) (\<lambda>g.
            Inr (\<lparr>pm_fgrn = minted, pm_anchor = ar_anchor (sh_resource request)\<rparr>, g))))"

section \<open>Ambient visibility\<close>

datatype resolved_anchor =
    AtOrgUnit fgrn
  | AtPrincipal (ra_owner: fgrn) (ra_anchored_at: fgrn) (ra_boundary: user_boundary)
  | AtPrincipalSet fgrn

record visibility_query =
  vq_requester :: fgrn
  vq_scope :: fgrn
  vq_anchor :: resolved_anchor
  vq_spine :: spine

definition expect_kind :: "fgrn \<Rightarrow> fgrn_kind \<Rightarrow> string \<Rightarrow> (core_error, unit) result" where
  "expect_kind f kind reason =
     (if fgrn_kind f = kind then Inr () else Inl (SpineError (fgrn_display f) reason))"

definition subtree_visible :: "visibility_query \<Rightarrow> (core_error, bool) outcome" where
  "subtree_visible q =
     (if fgrn_kind (vq_requester q) \<noteq> KPrincipal then
        Some (Inl (SpineError (fgrn_display (vq_requester q))
          ''visibility requester must be a principal''))
      else if fgrn_kind (vq_scope q) \<noteq> KOrgUnit then
        Some (Inl (SpineError (fgrn_display (vq_scope q)) ''visibility scope must be an org unit''))
      else (case vq_anchor q of
          AtOrgUnit anchor \<Rightarrow>
            outcome_then (Some (expect_kind anchor KOrgUnit ''resource anchor must be an org unit''))
              (\<lambda>_. spine_is_at_or_below (vq_spine q) anchor (vq_scope q))
        | AtPrincipalSet anchored_at \<Rightarrow>
            outcome_then (Some (expect_kind anchored_at KOrgUnit ''set anchor must be an org unit''))
              (\<lambda>_. spine_is_at_or_below (vq_spine q) anchored_at (vq_scope q))
        | AtPrincipal owner anchored_at boundary \<Rightarrow>
            outcome_then (Some (expect_kind owner KPrincipal ''resource owner must be a principal''))
              (\<lambda>_. outcome_then
                (Some (expect_kind anchored_at KOrgUnit ''owner anchor must be an org unit''))
              (\<lambda>_. outcome_then (spine_is_at_or_below (vq_spine q) anchored_at (vq_scope q))
              (\<lambda>below.
                if \<not> below then Some (Inr False)
                else if vq_requester q = owner then Some (Inr True)
                else Some (Inr (boundary = Transparent)))))))"

text \<open>The org unit a resolved anchor sits at, and whether the requester is let past its owner.\<close>

fun anchor_position :: "resolved_anchor \<Rightarrow> fgrn" where
  "anchor_position (AtOrgUnit u) = u"
| "anchor_position (AtPrincipal owner u b) = u"
| "anchor_position (AtPrincipalSet u) = u"

fun boundary_open :: "resolved_anchor \<Rightarrow> fgrn \<Rightarrow> bool" where
  "boundary_open (AtPrincipal owner u b) requester \<longleftrightarrow> requester = owner \<or> b = Transparent"
| "boundary_open _ requester \<longleftrightarrow> True"

fun anchor_owner_ok :: "resolved_anchor \<Rightarrow> bool" where
  "anchor_owner_ok (AtPrincipal owner u b) \<longleftrightarrow> fgrn_kind owner = KPrincipal"
| "anchor_owner_ok _ \<longleftrightarrow> True"

lemma spine_contains_kind: "spine_wf s \<Longrightarrow> spine_contains s u \<Longrightarrow> fgrn_kind u = KOrgUnit"
  unfolding spine_wf_def spine_contains_def hm_contains_iff by blast

section \<open>Selectors\<close>

datatype selector_scope = ScopeNode | ScopeSubtree

record selector =
  sel_org :: segment
  sel_path :: "native_id list"
  sel_scope :: selector_scope

definition selector_display :: "selector \<Rightarrow> string" where
  "selector_display sel =
     ''org:'' @ seg_str (sel_org sel) @ concat (map (\<lambda>i. ''.'' @ nid_str i) (sel_path sel)) @
     (if sel_scope sel = ScopeSubtree then ''/**'' else [])"

definition selector_from_str :: "string \<Rightarrow> (core_error, selector) result" where
  "selector_from_str s =
     (case strip_prefix ''org:'' s of
        None \<Rightarrow> Inl (Parse ''selector'' s ''selector must start with org:'')
      | Some body \<Rightarrow>
          (let (body, scope) = (case strip_suffix ''/**'' body of
                Some stripped \<Rightarrow> (stripped, ScopeSubtree)
              | None \<Rightarrow> (body, ScopeNode))
           in if CHR ''/'' \<in> set body then
                Inl (Parse ''selector'' s ''selector path may only end with /**'')
              else (let parts = split_on (CHR ''.'') body in
                and_then (segment_try_new (hd parts)) (\<lambda>organization.
                and_then (collect_results (map native_id_try_new (tl parts))) (\<lambda>path.
                Inr \<lparr>sel_org = organization, sel_path = path, sel_scope = scope\<rparr>)))))"

text \<open>The scan of the units for the child with a given id.\<close>

fun find_child :: "spine \<Rightarrow> fgrn list \<Rightarrow> native_id \<Rightarrow> fgrn \<Rightarrow> (core_error, fgrn option) result" where
  "find_child s [] i current = Inr None"
| "find_child s (u # us) i current =
     (if fgrn_id u = i then
        and_then (spine_parent s u) (\<lambda>p.
          if p = Some current then Inr (Some u) else find_child s us i current)
      else find_child s us i current)"

fun resolve_path :: "selector \<Rightarrow> spine \<Rightarrow> native_id list \<Rightarrow> fgrn \<Rightarrow> (core_error, fgrn) result" where
  "resolve_path sel s [] current = Inr current"
| "resolve_path sel s (i # is) current =
     and_then (find_child s (spine_units s) i current) (\<lambda>found.
     and_then (ok_or found (SpineError (selector_display sel)
       ''selector path does not match any org unit'')) (\<lambda>u.
     resolve_path sel s is u))"

fun collect_below :: "spine \<Rightarrow> fgrn \<Rightarrow> fgrn list \<Rightarrow> fgrn list \<Rightarrow> (core_error, fgrn list) outcome" where
  "collect_below s current [] resolved = Some (Inr resolved)"
| "collect_below s current (u # us) resolved =
     outcome_then (spine_is_at_or_below s u current) (\<lambda>below.
       collect_below s current us (if below then resolved @ [u] else resolved))"

definition selector_resolve :: "selector \<Rightarrow> spine \<Rightarrow> (core_error, fgrn list) outcome" where
  "selector_resolve sel s =
     (if sp_org s \<noteq> sel_org sel then
        Some (Inl (SpineError (selector_display sel) ''selector organization does not match spine''))
      else outcome_then (Some (resolve_path sel s (sel_path sel) (sp_root s))) (\<lambda>current.
        case sel_scope sel of
          ScopeNode \<Rightarrow> Some (Inr [current])
        | ScopeSubtree \<Rightarrow>
            outcome_then (collect_below s current (spine_units s) []) (\<lambda>resolved.
              Some (Inr (sort resolved)))))"

definition selector_wf :: "selector \<Rightarrow> bool" where
  "selector_wf sel \<longleftrightarrow> segment_wf (sel_org sel) \<and> (\<forall>i \<in> set (sel_path sel). native_id_wf i)"


lemma concat_ids_split:
  "CHR ''.'' \<notin> set a \<Longrightarrow> \<forall>i \<in> set is. CHR ''.'' \<notin> set (nid_str i) \<Longrightarrow>
     split_on (CHR ''.'') (a @ concat (map (\<lambda>i. ''.'' @ nid_str i) is)) = a # map nid_str is"
proof (induction "is" arbitrary: a)
  case (Cons i "is")
  then have "split_on (CHR ''.'') (nid_str i @ concat (map (\<lambda>i. ''.'' @ nid_str i) is)) =
      nid_str i # map nid_str is" by simp
  with Cons.prems show ?case by simp
qed simp

lemma selector_from_str_chars:
  assumes "selector_from_str s = Inr sel" "i \<in> set (sel_path sel)"
  shows "CHR ''.'' \<notin> set (nid_str i)" "CHR ''/'' \<notin> set (nid_str i)"
proof -
  obtain body0 where p: "strip_prefix ''org:'' s = Some body0"
    using assms(1) by (cases "strip_prefix ''org:'' s") (simp_all add: selector_from_str_def)
  obtain body scope where b:
      "(case strip_suffix ''/**'' body0 of Some stripped \<Rightarrow> (stripped, ScopeSubtree)
        | None \<Rightarrow> (body0, ScopeNode)) = (body, scope)" by (meson surj_pair)
  have body: "CHR ''/'' \<notin> set body"
      "collect_results (map native_id_try_new (tl (split_on (CHR ''.'') body))) = Inr (sel_path sel)"
    using assms(1) unfolding selector_from_str_def p option.case b
    by (auto simp: Let_def split: if_splits)
  then have "nid_str i \<in> set (tl (split_on (CHR ''.'') body))"
    using assms(2) by (simp add: nid.collect_construct_Inr_iff)
  then have part: "nid_str i \<in> set (split_on (CHR ''.'') body)"
    by (rule list.set_sel(2) [OF split_on_not_Nil])
  show "CHR ''.'' \<notin> set (nid_str i)" using split_on_parts [OF part] .
  show "CHR ''/'' \<notin> set (nid_str i)" using split_on_subset [OF part] body(1) by blast
qed

lemma selector_round_trip:
  assumes wf: "selector_wf sel"
    and chars: "\<forall>i \<in> set (sel_path sel). CHR ''.'' \<notin> set (nid_str i) \<and> CHR ''/'' \<notin> set (nid_str i)"
  shows "selector_from_str (selector_display sel) = Inr sel"
proof -
  define body where
    "body = seg_str (sel_org sel) @ concat (map (\<lambda>i. ''.'' @ nid_str i) (sel_path sel))"
  have org: "CHR ''.'' \<notin> set (seg_str (sel_org sel))" "CHR ''/'' \<notin> set (seg_str (sel_org sel))"
    using wf valid_segment_excludes by (auto simp: selector_wf_def)
  have slash: "CHR ''/'' \<notin> set body" using org chars by (auto simp: body_def)
  have split: "split_on (CHR ''.'') body = seg_str (sel_org sel) # map nid_str (sel_path sel)"
    unfolding body_def using org(1) chars by (intro concat_ids_split) auto
  have path: "collect_results (map native_id_try_new (map nid_str (sel_path sel))) = Inr (sel_path sel)"
    using wf by (simp only: nid.collect_construct_Inr_iff) (simp add: selector_wf_def)
  have seg: "segment_try_new (seg_str (sel_org sel)) = Inr (sel_org sel)"
    using wf by (intro seg.construct_round_trip) (simp add: selector_wf_def)
  have "strip_suffix ''/**'' body = None" using slash by (auto simp: strip_suffix_None_iff)
  then have suffix: "(case strip_suffix ''/**'' (body @ (if sel_scope sel = ScopeSubtree then ''/**'' else [])) of
      Some stripped \<Rightarrow> (stripped, ScopeSubtree)
    | None \<Rightarrow> (body @ (if sel_scope sel = ScopeSubtree then ''/**'' else []), ScopeNode)) =
      (body, sel_scope sel)"
    by (cases "sel_scope sel") simp_all
  have prefix: "strip_prefix ''org:'' (selector_display sel) =
      Some (body @ (if sel_scope sel = ScopeSubtree then ''/**'' else []))"
    by (simp add: selector_display_def body_def)
  show ?thesis
    unfolding selector_from_str_def prefix option.case suffix
    using slash split path seg by simp
qed

section \<open>Resolution of selectors\<close>

text \<open>The units a path of ids leads to, going from parent to child.\<close>

fun descends :: "spine \<Rightarrow> fgrn \<Rightarrow> native_id list \<Rightarrow> fgrn \<Rightarrow> bool" where
  "descends s u [] v \<longleftrightarrow> v = u"
| "descends s u (i # is) v \<longleftrightarrow>
     (\<exists>c. spine_parent s c = Inr (Some u) \<and> fgrn_id c = i \<and> descends s c is v)"

lemma spine_contains_parent: "spine_parent s c = Inr p \<Longrightarrow> spine_contains s c"
  by (auto simp: spine_parent_def spine_contains_def hm_contains_def ok_or_def split: option.splits)

lemma spine_unit_unique:
  assumes "spine_wf s" "spine_contains s u" "spine_contains s v" "fgrn_id u = fgrn_id v"
  shows "u = v"
  using assms same_position_eq [of u v]
  unfolding spine_wf_def spine_contains_def hm_contains_iff by metis

lemma find_child_total:
  assumes "spine_wf s"
  shows "\<forall>u \<in> set us. spine_contains s u \<Longrightarrow>
     \<exists>r. find_child s us i current = Inr r \<and>
       (\<forall>c. r = Some c \<longleftrightarrow> c \<in> set us \<and> fgrn_id c = i \<and> spine_parent s c = Inr (Some current))"
proof (induction us)
  case (Cons u us)
  have "spine_contains s u" using Cons.prems by simp
  then obtain p where p: "spine_parent s u = Inr p"
    by (auto simp: spine_parent_def spine_contains_def hm_contains_def ok_or_def split: option.splits)
  have "\<forall>u \<in> set us. spine_contains s u" using Cons.prems by simp
  then obtain r where r: "find_child s us i current = Inr r"
      "\<And>c. r = Some c \<longleftrightarrow> c \<in> set us \<and> fgrn_id c = i \<and> spine_parent s c = Inr (Some current)"
    using Cons.IH by blast
  have uniq: "c = u" if "c \<in> set us" "fgrn_id c = fgrn_id u" for c
    using spine_unit_unique [OF assms, of c u] that Cons.prems by simp
  show ?case
  proof (cases "fgrn_id u = i \<and> p = Some current")
    case True
    then have "find_child s (u # us) i current = Inr (Some u)" using p by simp
    then show ?thesis using True p uniq by (intro exI [of _ "Some u"]) auto
  next
    case False
    then have "find_child s (u # us) i current = Inr r" using p r(1) by auto
    moreover have "r = Some c \<longleftrightarrow> c \<in> set (u # us) \<and> fgrn_id c = i \<and>
        spine_parent s c = Inr (Some current)" for c
      using False p r(2) [of c] by auto
    ultimately show ?thesis by blast
  qed
qed simp

lemma resolve_path_iff:
  assumes "spine_wf s"
  shows "resolve_path sel s is u = Inr v \<longleftrightarrow> descends s u is v"
proof (induction "is" arbitrary: u)
  case (Cons i "is")
  have "\<forall>u \<in> set (spine_units s). spine_contains s u"
    by (auto simp: spine_units_def spine_contains_def hm_contains_iff hm_keys_def)
  then obtain r where r: "find_child s (spine_units s) i u = Inr r"
      "\<And>c. r = Some c \<longleftrightarrow> c \<in> set (spine_units s) \<and> fgrn_id c = i \<and> spine_parent s c = Inr (Some u)"
    using find_child_total [OF assms, of "spine_units s" i u] by blast
  have units: "c \<in> set (spine_units s)" if "spine_parent s c = Inr (Some u)" for c
    using spine_contains_parent [OF that]
    by (simp add: spine_units_def spine_contains_def hm_contains_iff hm_keys_def)
  show ?case
  proof (cases r)
    case None
    then have "\<not> (fgrn_id c = i \<and> spine_parent s c = Inr (Some u))" for c
      using r(2) [of c] units [of c] by blast
    then show ?thesis using r(1) None by (auto simp: ok_or_def)
  next
    case (Some c)
    then have c: "fgrn_id c = i" "spine_parent s c = Inr (Some u)" using r(2) [of c] by auto
    have uniq: "c' = c" if "fgrn_id c' = i" "spine_parent s c' = Inr (Some u)" for c'
    proof -
      have "r = Some c'" using r(2) [of c'] that units [of c'] by blast
      with Some show ?thesis by simp
    qed
    have "descends s u (i # is) v \<longleftrightarrow> descends s c is v"
      unfolding descends.simps using c uniq by blast
    then show ?thesis using r(1) Some Cons.IH [of c] by (simp add: ok_or_def)
  qed
qed auto

lemma collect_below_total:
  assumes "spine_wf s" "spine_contains s current"
  shows "\<forall>u \<in> set us. spine_contains s u \<Longrightarrow>
     collect_below s current us resolved =
       Some (Inr (resolved @ filter (\<lambda>u. (u, current) \<in> (parent_rel (sp_units s))\<^sup>*) us))"
  by (induction us arbitrary: resolved)
    (simp_all add: spine_is_at_or_below_iff [OF assms(1) _ assms(2)])

lemma descends_contains: "descends s u is v \<Longrightarrow> spine_contains s u \<Longrightarrow> spine_contains s v"
  by (induction "is" arbitrary: u) (auto dest: spine_contains_parent)


section \<open>Properties of visibility and selectors\<close>

text \<open>
  C22. Ambient visibility on a reachable spine: for a principal, a scope and an anchor position in
  the spine, \<open>subtree_visible\<close> always returns, and answers yes exactly when the anchor lies at or
  below the scope and, if the resource is anchored to a principal, the requester owns it or its type
  is declared transparent. An opaque resource is never ambiently visible to anyone but its owner.
\<close>

theorem subtree_visible_correct:
  assumes "spine_reachable (vq_spine q)"
    and "fgrn_kind (vq_requester q) = KPrincipal" "anchor_owner_ok (vq_anchor q)"
    and "spine_contains (vq_spine q) (vq_scope q)"
    and "spine_contains (vq_spine q) (anchor_position (vq_anchor q))"
  shows "subtree_visible q =
     Some (Inr ((anchor_position (vq_anchor q), vq_scope q) \<in> (parent_rel (sp_units (vq_spine q)))\<^sup>* \<and>
       boundary_open (vq_anchor q) (vq_requester q)))"
proof -
  have wf: "spine_wf (vq_spine q)" using assms(1) by (rule spine_reachable_wf)
  note kinds = spine_contains_kind [OF wf assms(4)] spine_contains_kind [OF wf assms(5)]
  show ?thesis
    using assms(2,3) kinds spine_is_at_or_below_iff [OF wf assms(5,4)]
    by (cases "vq_anchor q") (auto simp: subtree_visible_def expect_kind_def)
qed

definition ex_visibility :: visibility_query where
  "ex_visibility = \<lparr>vq_requester = ex_bot, vq_scope = ex_acme,
     vq_anchor = AtPrincipal ex_alice ex_ops Opaque, vq_spine = ex_spine\<rparr>"

theorem subtree_visible_correct_witness: "subtree_visible ex_visibility = Some (Inr False)"
proof -
  have "\<not> boundary_open (vq_anchor ex_visibility) (vq_requester ex_visibility)" by code_simp
  moreover have "fgrn_kind (vq_requester ex_visibility) = KPrincipal"
      "anchor_owner_ok (vq_anchor ex_visibility)" by code_simp+
  moreover have "spine_contains (vq_spine ex_visibility) (vq_scope ex_visibility)"
      "spine_contains (vq_spine ex_visibility) (anchor_position (vq_anchor ex_visibility))"
    using ex_spine_contains by (simp_all add: ex_visibility_def)
  ultimately show ?thesis
    using subtree_visible_correct [of ex_visibility] ex_spine_reachable
    by (simp add: ex_visibility_def)
qed

text \<open>
  C32. Resolving a selector against a reachable spine of its organization always returns. It succeeds
  exactly when its path of ids descends from the root to a unit; that unit is unique, node scope
  yields it alone, and subtree scope yields the sorted list of all units at or below it. So the
  result does not depend on the iteration order of the spine's map.
\<close>

theorem selector_resolve_correct:
  assumes "spine_reachable s" "sel_org sel = sp_org s"
  shows "\<exists>r. selector_resolve sel s = Some r \<and>
     (\<forall>fs. r = Inr fs \<longleftrightarrow> (\<exists>node. descends s (sp_root s) (sel_path sel) node \<and> bt_wf fs \<and>
        set fs = (case sel_scope sel of
            ScopeNode \<Rightarrow> {node}
          | ScopeSubtree \<Rightarrow> {u. spine_contains s u \<and> (u, node) \<in> (parent_rel (sp_units s))\<^sup>*})))"
proof (cases "resolve_path sel s (sel_path sel) (sp_root s)")
  case (Inl e)
  then have "\<not> descends s (sp_root s) (sel_path sel) node" for node
    using resolve_path_iff [OF spine_reachable_wf [OF assms(1)], of sel "sel_path sel" "sp_root s" node]
    by simp
  then show ?thesis using assms(2) Inl by (simp add: selector_resolve_def)
next
  case (Inr node)
  have wf: "spine_wf s" using assms(1) by (rule spine_reachable_wf)
  have node: "descends s (sp_root s) (sel_path sel) v \<longleftrightarrow> v = node" for v
    using resolve_path_iff [OF wf, of sel "sel_path sel" "sp_root s" v] Inr by auto
  have root: "spine_contains s (sp_root s)"
    using wf by (auto simp: spine_wf_def spine_contains_def hm_contains_def)
  then have cn: "spine_contains s node" using node descends_contains by blast
  have units: "u \<in> set (spine_units s) \<longleftrightarrow> spine_contains s u" for u
    by (simp add: spine_units_def spine_contains_def hm_contains_iff hm_keys_def)
  have d: "distinct (spine_units s)" using wf by (simp add: spine_units_def hm_keys_def spine_wf_def)
  define below where "below = filter (\<lambda>u. (u, node) \<in> (parent_rel (sp_units s))\<^sup>*) (spine_units s)"
  have coll: "collect_below s node (spine_units s) [] = Some (Inr below)"
    using collect_below_total [OF wf cn, of "spine_units s" "[]"] units by (simp add: below_def)
  have below: "bt_wf (sort below)"
      "set (sort below) = {u. spine_contains s u \<and> (u, node) \<in> (parent_rel (sp_units s))\<^sup>*}"
    using d units by (auto simp: below_def)
  have uniq: "fs = sort below \<longleftrightarrow> bt_wf fs \<and>
      set fs = {u. spine_contains s u \<and> (u, node) \<in> (parent_rel (sp_units s))\<^sup>*}" for fs
    using below bt_eq_iff [of fs "sort below"] by metis
  have "bt_wf [node]" "set [node] = {node}" by simp_all
  then have one: "fs = [node] \<longleftrightarrow> bt_wf fs \<and> set fs = {node}" for fs
    using bt_eq_iff [of fs "[node]"] by metis
  have "selector_resolve sel s = Some (Inr (case sel_scope sel of
      ScopeNode \<Rightarrow> [node] | ScopeSubtree \<Rightarrow> sort below))"
    using assms(2) Inr coll by (cases "sel_scope sel") (simp_all add: selector_resolve_def)
  then show ?thesis
    using uniq one by (cases "sel_scope sel") (simp_all add: node eq_commute)
qed

theorem selector_resolve_correct_witness:
  "\<exists>r. selector_resolve \<lparr>sel_org = Segment ''acme'', sel_path = [NativeId ''eng''], sel_scope = ScopeSubtree\<rparr>
         ex_spine = Some r \<and>
     (\<forall>fs. r = Inr fs \<longleftrightarrow> (\<exists>node. descends ex_spine (sp_root ex_spine) [NativeId ''eng''] node \<and> bt_wf fs \<and>
        set fs = {u. spine_contains ex_spine u \<and> (u, node) \<in> (parent_rel (sp_units ex_spine))\<^sup>*}))"
  using selector_resolve_correct [OF ex_spine_reachable, of
      "\<lparr>sel_org = Segment ''acme'', sel_path = [NativeId ''eng''], sel_scope = ScopeSubtree\<rparr>"]
  by (simp add: ex_spine_def)

text \<open>
  Parsing the printed form of a well-formed selector gives the selector back exactly when no id
  on its path contains a dot or a slash. Both characters are legal in a \<open>NativeId\<close>, so a selector
  can be constructed and displayed in a form that does not parse, or parses to another selector.
\<close>

theorem selector_print_parse:
  assumes "selector_wf sel"
  shows "selector_from_str (selector_display sel) = Inr sel \<longleftrightarrow>
     (\<forall>i \<in> set (sel_path sel). CHR ''.'' \<notin> set (nid_str i) \<and> CHR ''/'' \<notin> set (nid_str i))"
  using selector_round_trip [OF assms] selector_from_str_chars [of "selector_display sel" sel] by blast

theorem selector_print_parse_witness:
  "selector_from_str (selector_display
     \<lparr>sel_org = Segment ''acme'', sel_path = [NativeId ''a.b''], sel_scope = ScopeNode\<rparr>) \<noteq>
   Inr \<lparr>sel_org = Segment ''acme'', sel_path = [NativeId ''a.b''], sel_scope = ScopeNode\<rparr>"
proof -
  have "selector_wf \<lparr>sel_org = Segment ''acme'', sel_path = [NativeId ''a.b''], sel_scope = ScopeNode\<rparr>"
    by code_simp
  from selector_print_parse [OF this] show ?thesis by simp
qed


text \<open>
  Sharing a resource with validated parts never panics. When it succeeds, the minted FGRN is the
  well-formed name of the given type and native id in the anchor's organization, the resource keeps
  its anchor, and the first grant is on that FGRN, to the grantee, for exactly the requested verbs;
  it succeeds exactly when there is a verb and the grantee is a principal or principal set of the
  same organization.
\<close>

theorem share_correct:
  assumes "fgrn_wf (ar_anchor (sh_resource request))" "segment_wf (ar_type (sh_resource request))"
    "native_id_wf (sh_native_id request)"
  shows "\<exists>r. share request = Some r \<and>
    (is_ok r \<longleftrightarrow> sh_actions request \<noteq> [] \<and> fgrn_kind (sh_to request) \<in> {KPrincipal, KPrincipalSet} \<and>
       fgrn_org (sh_to request) = fgrn_org (ar_anchor (sh_resource request))) \<and>
    (\<forall>pm g. r = Inr (pm, g) \<longrightarrow>
       fgrn_wf (pm_fgrn pm) \<and> pm_anchor pm = ar_anchor (sh_resource request) \<and>
       fgrn_org (pm_fgrn pm) = fgrn_org (ar_anchor (sh_resource request)) \<and>
       resource_parts (pm_fgrn pm) = Some (ar_type (sh_resource request), sh_native_id request) \<and>
       grant_wf g \<and> gr_resource g = pm_fgrn pm \<and> gr_to g = sh_to request \<and>
       (\<forall>v. grant_permits g v \<longleftrightarrow> v \<in> set (sh_actions request)))"
proof -
  let ?o = "fgrn_org (ar_anchor (sh_resource request))"
  have o: "segment_wf ?o" using assms(1) by (simp add: fgrn_wf_def)
  obtain f where f: "fgrn_resource ?o (ar_type (sh_resource request)) (sh_native_id request) = Some f"
    using fgrn_resource_Some [OF assms(2,3)] by simp
  note m = fgrn_resource_wf [OF o assms(2,3) f]
  have r: "share request = Some (and_then (grant_try_new f (sh_actions request) (sh_to request))
      (\<lambda>g. Inr (\<lparr>pm_fgrn = f, pm_anchor = ar_anchor (sh_resource request)\<rparr>, g)))" (is "_ = Some ?r")
    by (simp add: share_def f)
  have "is_ok ?r \<longleftrightarrow> sh_actions request \<noteq> [] \<and> fgrn_kind (sh_to request) \<in> {KPrincipal, KPrincipalSet} \<and>
      fgrn_org (sh_to request) = ?o"
    using m by (auto simp: is_ok_iff grant_try_new_def)
  moreover have "grant_wf g \<and> gr_resource g = f \<and> gr_to g = sh_to request \<and>
      (\<forall>v. grant_permits g v \<longleftrightarrow> v \<in> set (sh_actions request))"
    if "grant_try_new f (sh_actions request) (sh_to request) = Inr g" for g
    using grant_try_new_Inr [OF that] by simp
  ultimately show ?thesis using r m by auto
qed

definition ex_share :: share_request where
  "ex_share = \<lparr>sh_resource = \<lparr>ar_type = Segment ''doc'', ar_anchor = ex_alice\<rparr>,
     sh_native_id = NativeId ''1'', sh_to = ex_team, sh_actions = [Verb ''read'']\<rparr>"

theorem share_correct_witness: "\<exists>x. share ex_share = Some (Inr x)"
proof -
  have "fgrn_wf (ar_anchor (sh_resource ex_share))" "segment_wf (ar_type (sh_resource ex_share))"
    "native_id_wf (sh_native_id ex_share)" by code_simp+
  from share_correct [OF this] obtain r where
    "share ex_share = Some r"
    "is_ok r \<longleftrightarrow> sh_actions ex_share \<noteq> [] \<and> fgrn_kind (sh_to ex_share) \<in> {KPrincipal, KPrincipalSet} \<and>
       fgrn_org (sh_to ex_share) = fgrn_org (ar_anchor (sh_resource ex_share))" by blast
  moreover have "sh_actions ex_share \<noteq> [] \<and> fgrn_kind (sh_to ex_share) \<in> {KPrincipal, KPrincipalSet} \<and>
      fgrn_org (sh_to ex_share) = fgrn_org (ar_anchor (sh_resource ex_share))" by code_simp
  ultimately show ?thesis by (auto simp: is_ok_iff)
qed

end
