(* ===== verification/Actions.thy ===== *)
theory Actions
  imports Names
begin

text \<open>
  Namespaces, actions, entities and the references built from them (\<open>crates/core/src/action.rs\<close>),
  and the legacy six-part resource names handed to Verified Permissions (\<open>vp_fgrn.rs\<close>).
\<close>

section \<open>Namespaces, actions, entities\<close>

datatype namespace = UserNs segment | ReservedNs segment

definition reserved_namespaces :: "string list" where
  "reserved_namespaces = [''iam'', ''forgeguard'']"

definition seg_iam :: segment where "seg_iam = Segment ''iam''"
definition seg_forgeguard :: segment where "seg_forgeguard = Segment ''forgeguard''"
definition seg_user :: segment where "seg_user = Segment ''user''"
definition seg_group :: segment where "seg_group = Segment ''group''"
definition seg_policy :: segment where "seg_policy = Segment ''policy''"
definition seg_machine :: segment where "seg_machine = Segment ''machine''"

lemmas known_segments =
  seg_iam_def seg_forgeguard_def seg_user_def seg_group_def seg_policy_def seg_machine_def

definition namespace_parse :: "string \<Rightarrow> (core_error, namespace) result" where
  "namespace_parse s =
     (if s \<in> set reserved_namespaces then
        Inl (Parse ''namespace'' s
          (''reserved namespace '' @ em_dash @ '' '' @ quoted ''iam'' @ '' and '' @ quoted ''forgeguard'' @
           '' cannot be used by customers''))
      else and_then (segment_try_new s) (\<lambda>x. Inr (UserNs x)))"

definition ns_iam :: namespace where "ns_iam = ReservedNs seg_iam"
definition ns_forgeguard :: namespace where "ns_forgeguard = ReservedNs seg_forgeguard"

fun ns_segment :: "namespace \<Rightarrow> segment" where
  "ns_segment (UserNs x) = x"
| "ns_segment (ReservedNs x) = x"

fun ns_is_reserved :: "namespace \<Rightarrow> bool" where
  "ns_is_reserved (ReservedNs _) = True"
| "ns_is_reserved (UserNs _) = False"

definition ns_str :: "namespace \<Rightarrow> string" where
  "ns_str n = seg_str (ns_segment n)"

text \<open>\<open>PartialEq for Namespace\<close> compares the strings only.\<close>

definition ns_eq :: "namespace \<Rightarrow> namespace \<Rightarrow> bool" where
  "ns_eq a b \<longleftrightarrow> ns_str a = ns_str b"

fun namespace_wf :: "namespace \<Rightarrow> bool" where
  "namespace_wf (UserNs x) \<longleftrightarrow> segment_wf x \<and> seg_str x \<notin> set reserved_namespaces"
| "namespace_wf (ReservedNs x) \<longleftrightarrow> x = seg_iam \<or> x = seg_forgeguard"

datatype action = Action (act_segment: segment)
datatype entity = Entity (ent_segment: segment)
datatype resource_id = ResourceId (rid_segment: segment)

definition action_parse :: "string \<Rightarrow> (core_error, action) result" where
  "action_parse s = and_then (segment_try_new s) (\<lambda>x. Inr (Action x))"

definition entity_parse :: "string \<Rightarrow> (core_error, entity) result" where
  "entity_parse s = and_then (segment_try_new s) (\<lambda>x. Inr (Entity x))"

definition resource_id_parse :: "string \<Rightarrow> (core_error, resource_id) result" where
  "resource_id_parse s = and_then (segment_try_new s) (\<lambda>x. Inr (ResourceId x))"

definition act_str :: "action \<Rightarrow> string" where "act_str a = seg_str (act_segment a)"
definition ent_str :: "entity \<Rightarrow> string" where "ent_str e = seg_str (ent_segment e)"
definition rid_str :: "resource_id \<Rightarrow> string" where "rid_str i = seg_str (rid_segment i)"

section \<open>Qualified actions\<close>

record qualified_action =
  qa_namespace :: namespace
  qa_action :: action
  qa_entity :: entity

definition qualified_action_parse :: "string \<Rightarrow> (core_error, qualified_action) result" where
  "qualified_action_parse s =
     (case splitn 4 CHR '':'' s of
        [ns, entity, act] \<Rightarrow>
          and_then (namespace_parse ns) (\<lambda>n.
          and_then (action_parse act) (\<lambda>a.
          and_then (entity_parse entity) (\<lambda>e.
          Inr \<lparr>qa_namespace = n, qa_action = a, qa_entity = e\<rparr>)))
      | _ \<Rightarrow> Inl (Parse ''qualified_action'' s
          (''expected namespace:entity:action (e.g., '' @ quoted ''todo:list:read'' @ '')'')))"

definition qualified_action_display :: "qualified_action \<Rightarrow> string" where
  "qualified_action_display q =
     ns_str (qa_namespace q) @ '':'' @ ent_str (qa_entity q) @ '':'' @ act_str (qa_action q)"

definition vp_action_type :: "qualified_action \<Rightarrow> project_id \<Rightarrow> string" where
  "vp_action_type q project = cedar_namespace_from_project project @ ''::Action''"

definition vp_action_id :: "qualified_action \<Rightarrow> string" where
  "vp_action_id q =
     ns_str (qa_namespace q) @ ''-'' @ ent_str (qa_entity q) @ ''-'' @ act_str (qa_action q)"

definition cedar_action_ref :: "qualified_action \<Rightarrow> project_id \<Rightarrow> string" where
  "cedar_action_ref q project =
     cedar_namespace_from_project project @ ''::Action::'' @ dquoted (vp_action_id q)"

definition qa_vp_entity_type :: "qualified_action \<Rightarrow> project_id \<Rightarrow> string" where
  "qa_vp_entity_type q project =
     cedar_namespace_from_project project @ ''::'' @
     cedar_entity_type (ns_segment (qa_namespace q)) (ent_segment (qa_entity q))"

definition qualified_action_wf :: "qualified_action \<Rightarrow> bool" where
  "qualified_action_wf q \<longleftrightarrow>
     namespace_wf (qa_namespace q) \<and> segment_wf (act_segment (qa_action q)) \<and>
     segment_wf (ent_segment (qa_entity q))"

section \<open>Legacy resource names\<close>

datatype fgrn_segment = SegValue segment | SegWildcard

definition fgrn_segment_parse :: "string \<Rightarrow> (core_error, fgrn_segment) result" where
  "fgrn_segment_parse s =
     (if s = ''*'' then Inr SegWildcard
      else and_then (segment_try_new s) (\<lambda>x. Inr (SegValue x)))"

fun fgrn_segment_matches :: "fgrn_segment \<Rightarrow> fgrn_segment \<Rightarrow> bool" where
  "fgrn_segment_matches v SegWildcard \<longleftrightarrow> True"
| "fgrn_segment_matches v (SegValue p) \<longleftrightarrow> v = SegValue p"

fun fgrn_segment_str :: "fgrn_segment \<Rightarrow> string" where
  "fgrn_segment_str (SegValue x) = seg_str x"
| "fgrn_segment_str SegWildcard = ''*''"

record vp_fgrn =
  vp_project :: "fgrn_segment option"
  vp_tenant :: "fgrn_segment option"
  vp_namespace :: fgrn_segment
  vp_rtype :: fgrn_segment
  vp_rid :: fgrn_segment
  vp_raw :: string

definition parse_optional_segment :: "string \<Rightarrow> (core_error, fgrn_segment option) result" where
  "parse_optional_segment s =
     (if s = ''-'' then Inr None else and_then (fgrn_segment_parse s) (\<lambda>x. Inr (Some x)))"

definition optional_segment_str :: "fgrn_segment option \<Rightarrow> string" where
  "optional_segment_str x = (case x of Some v \<Rightarrow> fgrn_segment_str v | None \<Rightarrow> ''-'')"

fun optional_matches :: "fgrn_segment option \<Rightarrow> fgrn_segment option \<Rightarrow> bool" where
  "optional_matches None None \<longleftrightarrow> True"
| "optional_matches (Some v) None \<longleftrightarrow> False"
| "optional_matches v (Some SegWildcard) \<longleftrightarrow> True"
| "optional_matches None (Some (SegValue p)) \<longleftrightarrow> False"
| "optional_matches (Some v) (Some (SegValue p)) \<longleftrightarrow> fgrn_segment_matches v (SegValue p)"

definition vp_fgrn_parse :: "string \<Rightarrow> (core_error, vp_fgrn) result" where
  "vp_fgrn_parse s =
     (case splitn 6 CHR '':'' s of
        [tag, project, tenant, ns, rtype, rid] \<Rightarrow>
          if tag \<noteq> ''fgrn'' then
            Inl (Parse ''fgrn'' s
              ''expected fgrn:<project>:<tenant>:<namespace>:<resource-type>:<resource-id>'')
          else
            and_then (parse_optional_segment project) (\<lambda>p.
            and_then (parse_optional_segment tenant) (\<lambda>t.
            and_then (fgrn_segment_parse ns) (\<lambda>n.
            and_then (fgrn_segment_parse rtype) (\<lambda>r.
            and_then (fgrn_segment_parse rid) (\<lambda>i.
            Inr \<lparr>vp_project = p, vp_tenant = t, vp_namespace = n, vp_rtype = r, vp_rid = i, vp_raw = s\<rparr>)))))
      | _ \<Rightarrow> Inl (Parse ''fgrn'' s
          ''expected fgrn:<project>:<tenant>:<namespace>:<resource-type>:<resource-id>''))"

definition vp_fgrn_new ::
  "fgrn_segment option \<Rightarrow> fgrn_segment option \<Rightarrow> fgrn_segment \<Rightarrow> fgrn_segment \<Rightarrow> fgrn_segment \<Rightarrow> vp_fgrn" where
  "vp_fgrn_new p t n r i =
     \<lparr>vp_project = p, vp_tenant = t, vp_namespace = n, vp_rtype = r, vp_rid = i,
      vp_raw = ''fgrn:'' @ optional_segment_str p @ '':'' @ optional_segment_str t @ '':'' @
        fgrn_segment_str n @ '':'' @ fgrn_segment_str r @ '':'' @ fgrn_segment_str i\<rparr>"

definition vp_user :: "project_id \<Rightarrow> tenant_id \<Rightarrow> user_id \<Rightarrow> vp_fgrn" where
  "vp_user project tenant u =
     vp_fgrn_new (Some (SegValue project)) (Some (SegValue tenant)) (SegValue seg_iam) (SegValue seg_user)
       (SegValue u)"

definition vp_machine :: "project_id \<Rightarrow> tenant_id \<Rightarrow> user_id \<Rightarrow> vp_fgrn" where
  "vp_machine project tenant u =
     vp_fgrn_new (Some (SegValue project)) (Some (SegValue tenant)) (SegValue seg_iam) (SegValue seg_machine)
       (SegValue u)"

definition vp_group :: "project_id \<Rightarrow> tenant_id \<Rightarrow> group_name \<Rightarrow> vp_fgrn" where
  "vp_group project tenant g =
     vp_fgrn_new (Some (SegValue project)) (Some (SegValue tenant)) (SegValue seg_iam) (SegValue seg_group)
       (SegValue g)"

definition vp_policy :: "project_id \<Rightarrow> policy_name \<Rightarrow> vp_fgrn" where
  "vp_policy project p =
     vp_fgrn_new (Some (SegValue project)) None (SegValue seg_forgeguard) (SegValue seg_policy) (SegValue p)"

definition vp_resource ::
  "project_id \<Rightarrow> tenant_id \<Rightarrow> namespace \<Rightarrow> entity \<Rightarrow> resource_id \<Rightarrow> vp_fgrn" where
  "vp_resource project tenant n e i =
     vp_fgrn_new (Some (SegValue project)) (Some (SegValue tenant)) (SegValue (ns_segment n))
       (SegValue (ent_segment e)) (SegValue (rid_segment i))"

definition vp_cedar_entity_type :: "vp_fgrn \<Rightarrow> string option" where
  "vp_cedar_entity_type f =
     (case (vp_namespace f, vp_rtype f) of
        (SegValue n, SegValue r) \<Rightarrow> Some (seg_str n @ ''::'' @ seg_str r)
      | _ \<Rightarrow> None)"

definition vp_matches :: "vp_fgrn \<Rightarrow> vp_fgrn \<Rightarrow> bool" where
  "vp_matches f pattern \<longleftrightarrow>
     optional_matches (vp_project f) (vp_project pattern) \<and>
     optional_matches (vp_tenant f) (vp_tenant pattern) \<and>
     fgrn_segment_matches (vp_namespace f) (vp_namespace pattern) \<and>
     fgrn_segment_matches (vp_rtype f) (vp_rtype pattern) \<and>
     fgrn_segment_matches (vp_rid f) (vp_rid pattern)"

section \<open>Resource and principal references\<close>

datatype resource_org_source = OwnId | RequestTenant

record resource_ref =
  rr_namespace :: namespace
  rr_entity :: entity
  rr_id :: resource_id
  rr_cedar_entity_type :: "string option"
  rr_org_source :: resource_org_source

definition resource_ref_from_route :: "qualified_action \<Rightarrow> resource_id \<Rightarrow> resource_ref" where
  "resource_ref_from_route q i =
     \<lparr>rr_namespace = qa_namespace q, rr_entity = qa_entity q, rr_id = i,
      rr_cedar_entity_type = None, rr_org_source = RequestTenant\<rparr>"

definition resource_ref_with_entity_type :: "qualified_action \<Rightarrow> resource_id \<Rightarrow> string \<Rightarrow> resource_ref" where
  "resource_ref_with_entity_type q i t =
     \<lparr>rr_namespace = qa_namespace q, rr_entity = qa_entity q, rr_id = i,
      rr_cedar_entity_type = Some t, rr_org_source = RequestTenant\<rparr>"

definition scoped_by_own_id :: "resource_ref \<Rightarrow> resource_ref" where
  "scoped_by_own_id r = r\<lparr>rr_org_source := OwnId\<rparr>"

definition rr_vp_entity_type :: "resource_ref \<Rightarrow> project_id \<Rightarrow> string" where
  "rr_vp_entity_type r project =
     (case rr_cedar_entity_type r of
        Some t \<Rightarrow> cedar_namespace_from_project project @ ''::'' @ t
      | None \<Rightarrow> cedar_namespace_from_project project @ ''::'' @
          cedar_entity_type (ns_segment (rr_namespace r)) (ent_segment (rr_entity r)))"

definition rr_to_fgrn :: "resource_ref \<Rightarrow> project_id \<Rightarrow> tenant_id \<Rightarrow> vp_fgrn" where
  "rr_to_fgrn r project tenant = vp_resource project tenant (rr_namespace r) (rr_entity r) (rr_id r)"

definition resource_ref_display :: "resource_ref \<Rightarrow> string" where
  "resource_ref_display r =
     ns_str (rr_namespace r) @ '':'' @ ent_str (rr_entity r) @ '':'' @ rid_str (rr_id r)"

datatype principal_ref_kind = User | Machine

record principal_ref =
  prf_user_id :: user_id
  prf_kind :: principal_ref_kind

definition principal_ref_new :: "user_id \<Rightarrow> principal_ref" where
  "principal_ref_new u = \<lparr>prf_user_id = u, prf_kind = User\<rparr>"

definition principal_ref_machine :: "user_id \<Rightarrow> principal_ref" where
  "principal_ref_machine u = \<lparr>prf_user_id = u, prf_kind = Machine\<rparr>"

definition prf_vp_entity_type :: "principal_ref \<Rightarrow> project_id \<Rightarrow> string" where
  "prf_vp_entity_type p project =
     (case prf_kind p of
        User \<Rightarrow> cedar_namespace_from_project project @ ''::User''
      | Machine \<Rightarrow> cedar_namespace_from_project project @ ''::Machine'')"

definition vp_group_entity_type :: "project_id \<Rightarrow> string" where
  "vp_group_entity_type project = cedar_namespace_from_project project @ ''::Group''"

definition prf_to_fgrn :: "principal_ref \<Rightarrow> project_id \<Rightarrow> tenant_id \<Rightarrow> vp_fgrn" where
  "prf_to_fgrn p project tenant =
     (case prf_kind p of
        User \<Rightarrow> vp_user project tenant (prf_user_id p)
      | Machine \<Rightarrow> vp_machine project tenant (prf_user_id p))"

section \<open>Lemmas\<close>

lemma splitn_iff:
  "splitn (Suc n) d s = xs @ [y] \<longleftrightarrow>
     length xs \<le> n \<and> s = concat (map (\<lambda>x. x @ [d]) xs) @ y \<and> (\<forall>x \<in> set xs. d \<notin> set x) \<and>
     (length xs < n \<longrightarrow> d \<notin> set y)"
proof (induction n arbitrary: s xs)
  case 0
  then show ?case by (cases xs) auto
next
  case (Suc n)
  show ?case
  proof (cases "split_once d s")
    case None
    then show ?thesis by (cases xs) (auto simp: split_once_None_iff)
  next
    case (Some p)
    then obtain a b where ab: "split_once d s = Some (a, b)" by (cases p) auto
    then have s: "s = a @ d # b" "d \<notin> set a" by (simp_all add: split_once_Some_iff)
    show ?thesis
    proof (cases xs)
      case Nil
      then show ?thesis using ab s by auto
    next
      case (Cons x xs')
      have "a = x \<and> b = r \<longleftrightarrow> a @ d # b = x @ d # r" if "d \<notin> set x" for r
        using split_once_append [OF that, of r] split_once_append [OF s(2), of b] by auto
      then show ?thesis using ab s Cons Suc.IH [of b xs'] by auto
    qed
  qed
qed


lemma splitn_6_iff:
  "splitn 6 d s = [a, b, c, e, f, g] \<longleftrightarrow>
     s = a @ d # b @ d # c @ d # e @ d # f @ d # g \<and>
     d \<notin> set a \<and> d \<notin> set b \<and> d \<notin> set c \<and> d \<notin> set e \<and> d \<notin> set f"
  using splitn_iff [of 5 d s "[a, b, c, e, f]" g] by (simp add: numeral_eq_Suc)

lemma splitn_4_3_iff:
  "splitn 4 d s = [a, b, c] \<longleftrightarrow>
     s = a @ d # b @ d # c \<and> d \<notin> set a \<and> d \<notin> set b \<and> d \<notin> set c"
  using splitn_iff [of 3 d s "[a, b]" c] by (auto simp: numeral_eq_Suc)

lemma known_segments_wf:
  "segment_wf seg_iam" "segment_wf seg_forgeguard" "segment_wf seg_user" "segment_wf seg_group"
  "segment_wf seg_policy" "segment_wf seg_machine"
  by code_simp+

lemma namespace_wf_segment: "namespace_wf n \<Longrightarrow> segment_wf (ns_segment n)"
  using known_segments_wf by (cases n) auto

lemma ns_eq_iff: "namespace_wf a \<Longrightarrow> namespace_wf b \<Longrightarrow> ns_eq a b \<longleftrightarrow> a = b"
  by (cases a; cases b)
    (auto simp: ns_eq_def ns_str_def known_segments reserved_namespaces_def segment.expand)

lemma namespace_parse_Inr_iff:
  "namespace_parse s = Inr n \<longleftrightarrow> namespace_wf n \<and> \<not> ns_is_reserved n \<and> ns_str n = s"
  by (cases n) (auto simp: namespace_parse_def ns_str_def segment_try_new_Inr_iff)

lemma segment_newtypes_Inr_iff:
  "action_parse s = Inr a \<longleftrightarrow> segment_wf (act_segment a) \<and> act_str a = s"
  "entity_parse s = Inr e \<longleftrightarrow> segment_wf (ent_segment e) \<and> ent_str e = s"
  "resource_id_parse s = Inr i \<longleftrightarrow> segment_wf (rid_segment i) \<and> rid_str i = s"
  by (cases a, auto simp: action_parse_def act_str_def segment_try_new_Inr_iff)
    (cases e, auto simp: entity_parse_def ent_str_def segment_try_new_Inr_iff,
     cases i, auto simp: resource_id_parse_def rid_str_def segment_try_new_Inr_iff)

lemma qualified_action_parse_Inr_iff:
  "qualified_action_parse s = Inr q \<longleftrightarrow>
     qualified_action_wf q \<and> \<not> ns_is_reserved (qa_namespace q) \<and> qualified_action_display q = s"
proof
  assume q: "qualified_action_parse s = Inr q"
  then obtain a b c where abc: "splitn 4 CHR '':'' s = [a, b, c]"
    unfolding qualified_action_parse_def by (auto split: list.splits)
  then have s: "s = a @ CHR '':'' # b @ CHR '':'' # c" by (simp add: splitn_4_3_iff)
  show "qualified_action_wf q \<and> \<not> ns_is_reserved (qa_namespace q) \<and> qualified_action_display q = s"
    using q unfolding qualified_action_parse_def abc
    by (auto simp: s namespace_parse_Inr_iff segment_newtypes_Inr_iff qualified_action_wf_def
        qualified_action_display_def)
next
  assume q: "qualified_action_wf q \<and> \<not> ns_is_reserved (qa_namespace q) \<and> qualified_action_display q = s"
  have "CHR '':'' \<notin> set (ns_str (qa_namespace q))" "CHR '':'' \<notin> set (ent_str (qa_entity q))"
      "CHR '':'' \<notin> set (act_str (qa_action q))"
    using q valid_segment_excludes(1) namespace_wf_segment
    by (auto simp: qualified_action_wf_def ns_str_def ent_str_def act_str_def)
  then have abc: "splitn 4 CHR '':'' s =
      [ns_str (qa_namespace q), ent_str (qa_entity q), act_str (qa_action q)]"
    using q by (auto simp: splitn_4_3_iff qualified_action_display_def)
  have "namespace_parse (ns_str (qa_namespace q)) = Inr (qa_namespace q)"
      "action_parse (act_str (qa_action q)) = Inr (qa_action q)"
      "entity_parse (ent_str (qa_entity q)) = Inr (qa_entity q)"
    using q by (simp_all add: namespace_parse_Inr_iff segment_newtypes_Inr_iff qualified_action_wf_def)
  then show "qualified_action_parse s = Inr q"
    unfolding qualified_action_parse_def abc by simp
qed

fun fgrn_segment_wf :: "fgrn_segment \<Rightarrow> bool" where
  "fgrn_segment_wf (SegValue x) \<longleftrightarrow> segment_wf x"
| "fgrn_segment_wf SegWildcard \<longleftrightarrow> True"

definition vp_fgrn_wf :: "vp_fgrn \<Rightarrow> bool" where
  "vp_fgrn_wf f \<longleftrightarrow>
     pred_option fgrn_segment_wf (vp_project f) \<and> pred_option fgrn_segment_wf (vp_tenant f) \<and>
     fgrn_segment_wf (vp_namespace f) \<and> fgrn_segment_wf (vp_rtype f) \<and> fgrn_segment_wf (vp_rid f) \<and>
     vp_raw f = vp_raw (vp_fgrn_new (vp_project f) (vp_tenant f) (vp_namespace f) (vp_rtype f) (vp_rid f))"

lemma fgrn_segment_parse_Inr_iff:
  "fgrn_segment_parse s = Inr x \<longleftrightarrow> fgrn_segment_wf x \<and> fgrn_segment_str x = s"
proof -
  have "\<not> valid_segment ''*''" by code_simp
  then show ?thesis
    by (cases x) (auto simp: fgrn_segment_parse_def segment_try_new_Inr_iff)
qed

lemma parse_optional_segment_Inr_iff:
  "parse_optional_segment s = Inr x \<longleftrightarrow> pred_option fgrn_segment_wf x \<and> optional_segment_str x = s"
proof -
  have "\<not> (fgrn_segment_wf v \<and> fgrn_segment_str v = ''-'')" for v
  proof -
    have "\<not> valid_segment ''-''" by code_simp
    then show ?thesis by (cases v) auto
  qed
  then show ?thesis
    by (cases x) (auto simp: parse_optional_segment_def optional_segment_str_def fgrn_segment_parse_Inr_iff)
qed

lemma fgrn_segment_str_no_colon:
  "fgrn_segment_wf x \<Longrightarrow> CHR '':'' \<notin> set (fgrn_segment_str x)"
  "pred_option fgrn_segment_wf y \<Longrightarrow> CHR '':'' \<notin> set (optional_segment_str y)"
proof -
  show one: "fgrn_segment_wf x \<Longrightarrow> CHR '':'' \<notin> set (fgrn_segment_str x)" for x
    using valid_segment_excludes(1) by (cases x) auto
  show "pred_option fgrn_segment_wf y \<Longrightarrow> CHR '':'' \<notin> set (optional_segment_str y)"
    using one by (cases y) (auto simp: optional_segment_str_def)
qed

lemma vp_fgrn_parse_Inr_iff: "vp_fgrn_parse s = Inr f \<longleftrightarrow> vp_fgrn_wf f \<and> vp_raw f = s"
proof
  assume f: "vp_fgrn_parse s = Inr f"
  then obtain a b c d e g where parts: "splitn 6 CHR '':'' s = [a, b, c, d, e, g]"
    unfolding vp_fgrn_parse_def by (auto split: list.splits)
  then have s: "s = a @ CHR '':'' # b @ CHR '':'' # c @ CHR '':'' # d @ CHR '':'' # e @ CHR '':'' # g"
    by (simp add: splitn_6_iff)
  show "vp_fgrn_wf f \<and> vp_raw f = s"
    using f unfolding vp_fgrn_parse_def parts
    by (auto simp: s fgrn_segment_parse_Inr_iff parse_optional_segment_Inr_iff vp_fgrn_wf_def
        vp_fgrn_new_def split: if_splits)
next
  assume f: "vp_fgrn_wf f \<and> vp_raw f = s"
  define P T N R I where defs: "P = optional_segment_str (vp_project f)" "T = optional_segment_str (vp_tenant f)"
    "N = fgrn_segment_str (vp_namespace f)" "R = fgrn_segment_str (vp_rtype f)" "I = fgrn_segment_str (vp_rid f)"
  have raw: "s = ''fgrn:'' @ P @ '':'' @ T @ '':'' @ N @ '':'' @ R @ '':'' @ I"
    using f by (auto simp: vp_fgrn_wf_def vp_fgrn_new_def defs)
  have "splitn 6 CHR '':'' s = [''fgrn'', P, T, N, R, I]"
    using f fgrn_segment_str_no_colon
    by (auto simp: splitn_6_iff raw defs vp_fgrn_wf_def)
  moreover have "parse_optional_segment P = Inr (vp_project f)" "parse_optional_segment T = Inr (vp_tenant f)"
      "fgrn_segment_parse N = Inr (vp_namespace f)" "fgrn_segment_parse R = Inr (vp_rtype f)"
      "fgrn_segment_parse I = Inr (vp_rid f)"
    using f by (simp_all add: fgrn_segment_parse_Inr_iff parse_optional_segment_Inr_iff vp_fgrn_wf_def defs)
  ultimately show "vp_fgrn_parse s = Inr f"
    using f by (cases f) (simp add: vp_fgrn_parse_def)
qed

lemma vp_fgrn_raw_inj: "vp_fgrn_wf f \<Longrightarrow> vp_fgrn_wf g \<Longrightarrow> vp_raw f = vp_raw g \<Longrightarrow> f = g"
  using vp_fgrn_parse_Inr_iff by (metis sum.inject(2))

lemma vp_builders_wf:
  assumes "segment_wf project" "segment_wf tenant" "segment_wf u"
  shows "vp_fgrn_wf (vp_user project tenant u)" "vp_fgrn_wf (vp_machine project tenant u)"
    "vp_fgrn_wf (vp_group project tenant u)" "vp_fgrn_wf (vp_policy project u)"
    "namespace_wf n \<Longrightarrow> segment_wf (ent_segment e) \<Longrightarrow> segment_wf (rid_segment i) \<Longrightarrow>
       vp_fgrn_wf (vp_resource project tenant n e i)"
  using assms known_segments_wf namespace_wf_segment
  by (auto simp: vp_fgrn_wf_def vp_user_def vp_machine_def vp_group_def vp_policy_def vp_resource_def
      vp_fgrn_new_def)

lemma vp_matches_refl: "vp_matches f f"
proof -
  have "fgrn_segment_matches x x" for x by (cases x) auto
  moreover have "optional_matches y y" for y by (cases "(y, y)" rule: optional_matches.cases) auto
  ultimately show ?thesis by (simp add: vp_matches_def)
qed

section \<open>Properties of action and resource names\<close>

text \<open>
  Parsing of qualified actions \<open>namespace:entity:action\<close> is the inverse of printing on the
  actions customers can name: a string parses to an action exactly when the action is well formed,
  its namespace is not reserved, and the string is its printed form.
\<close>

theorem qualified_action_round_trip:
  "qualified_action_parse s = Inr q \<longleftrightarrow>
     qualified_action_wf q \<and> \<not> ns_is_reserved (qa_namespace q) \<and> s = qualified_action_display q"
  using qualified_action_parse_Inr_iff by auto

text \<open>
  The entity ids handed to Verified Permissions separate principals and resources: two principal
  references of a project get the same id only if they are the same principal of the same tenant,
  and the id of a resource in a customer namespace is never the id of a principal or a group.
\<close>

theorem vp_entity_ids_separate:
  assumes "segment_wf project" "segment_wf tenant" "segment_wf tenant'"
    and "segment_wf (prf_user_id p)" "segment_wf (prf_user_id p')" "segment_wf g"
    and "namespace_parse ns = Inr n" "entity_parse en = Inr e" "resource_id_parse ri = Inr i"
  shows "(vp_raw (prf_to_fgrn p project tenant) = vp_raw (prf_to_fgrn p' project tenant') \<longleftrightarrow>
            p = p' \<and> tenant = tenant') \<and>
         vp_raw (vp_resource project tenant n e i) \<noteq> vp_raw (prf_to_fgrn p project tenant') \<and>
         vp_raw (vp_resource project tenant n e i) \<noteq> vp_raw (vp_group project tenant' g)"
proof -
  have wf: "vp_fgrn_wf (prf_to_fgrn p project tenant)" "vp_fgrn_wf (prf_to_fgrn p' project tenant')"
      "vp_fgrn_wf (prf_to_fgrn p project tenant')" "vp_fgrn_wf (vp_group project tenant' g)"
    using assms vp_builders_wf by (auto simp: prf_to_fgrn_def split: principal_ref_kind.splits)
  have wfr: "vp_fgrn_wf (vp_resource project tenant n e i)"
    using assms vp_builders_wf(5) by (simp add: namespace_parse_Inr_iff segment_newtypes_Inr_iff)
  have "prf_to_fgrn p project tenant = prf_to_fgrn p' project tenant' \<longleftrightarrow> p = p' \<and> tenant = tenant'"
    by (cases p; cases p'; cases "prf_kind p"; cases "prf_kind p'")
      (auto simp: prf_to_fgrn_def vp_user_def vp_machine_def vp_fgrn_new_def known_segments)
  then have "vp_raw (prf_to_fgrn p project tenant) = vp_raw (prf_to_fgrn p' project tenant') \<longleftrightarrow>
      p = p' \<and> tenant = tenant'"
    using vp_fgrn_raw_inj [OF wf(1,2)] by auto
  moreover have "ns_segment n \<noteq> seg_iam"
    using assms(7) by (cases n) (auto simp: namespace_parse_Inr_iff known_segments reserved_namespaces_def)
  then have "vp_namespace (vp_resource project tenant n e i) \<noteq> vp_namespace (prf_to_fgrn p project tenant')"
      "vp_namespace (vp_resource project tenant n e i) \<noteq> vp_namespace (vp_group project tenant' g)"
    by (auto simp: vp_resource_def prf_to_fgrn_def vp_user_def vp_machine_def vp_group_def vp_fgrn_new_def
        split: principal_ref_kind.splits)
  ultimately show ?thesis
    using vp_fgrn_raw_inj [OF wfr wf(3)] vp_fgrn_raw_inj [OF wfr wf(4)] by metis
qed

theorem vp_entity_ids_separate_witness:
  "vp_raw (prf_to_fgrn (principal_ref_new (Segment ''u'')) (Segment ''app'') (Segment ''t1'')) \<noteq>
     vp_raw (prf_to_fgrn (principal_ref_machine (Segment ''u'')) (Segment ''app'') (Segment ''t1''))"
proof -
  have "segment_wf (Segment ''app'')" "segment_wf (Segment ''t1'')" "segment_wf (Segment ''t1'')"
    "segment_wf (prf_user_id (principal_ref_new (Segment ''u'')))"
    "segment_wf (prf_user_id (principal_ref_machine (Segment ''u'')))" "segment_wf (Segment ''g'')"
    "namespace_parse ''todo'' = Inr (UserNs (Segment ''todo''))" "entity_parse ''list'' = Inr (Entity (Segment ''list''))"
    "resource_id_parse ''1'' = Inr (ResourceId (Segment ''1''))"
    by code_simp+
  from vp_entity_ids_separate [OF this]
  show ?thesis by (simp add: principal_ref_new_def principal_ref_machine_def)
qed

text \<open>
  The hyphen-joined action id sent to Verified Permissions does not identify the action:
  hyphens are legal inside each part, so two different customer actions can share one id.
\<close>

theorem vp_action_id_collision:
  "\<exists>a b. qualified_action_parse ''billing-eu:invoice:read'' = Inr a \<and>
     qualified_action_parse ''billing:eu-invoice:read'' = Inr b \<and>
     a \<noteq> b \<and> vp_action_id a = vp_action_id b"
proof -
  let ?a = "\<lparr>qa_namespace = UserNs (Segment ''billing-eu''), qa_action = Action (Segment ''read''),
    qa_entity = Entity (Segment ''invoice'')\<rparr>"
  let ?b = "\<lparr>qa_namespace = UserNs (Segment ''billing''), qa_action = Action (Segment ''read''),
    qa_entity = Entity (Segment ''eu-invoice'')\<rparr>"
  have "qualified_action_parse ''billing-eu:invoice:read'' = Inr ?a"
    "qualified_action_parse ''billing:eu-invoice:read'' = Inr ?b" by code_simp+
  moreover have "?a \<noteq> ?b \<and> vp_action_id ?a = vp_action_id ?b" by code_simp
  ultimately show ?thesis by blast
qed

end
