(* ===== verification/Feature_Flags.thy ===== *)
theory Feature_Flags
  imports Actions "HOL-Library.Word"
begin

text \<open>
  Feature flags (\<open>crates/core/src/features/mod.rs\<close>, \<open>percentage.rs\<close>): names, definitions with
  targeted overrides and percentage rollout, and their evaluation for a user. The number type of a
  flag value is a parameter, since no code computes with it; the 64-bit hash \<open>xxh64\<close> of the
  \<open>xxhash_rust\<close> crate is an argument of the functions that use it.
\<close>

section \<open>Percentages\<close>

datatype percentage = Percentage (pct_value: "8 word")

definition percentage_try_new :: "8 word \<Rightarrow> (core_error, percentage) result" where
  "percentage_try_new v =
     (if v > 100 then Inl (InvalidPercentage (unat v)) else Inr (Percentage v))"

abbreviation percentage_wf :: "percentage \<Rightarrow> bool" where
  "percentage_wf p \<equiv> pct_value p \<le> 100"

lemma percentage_try_new_Inr_iff:
  "percentage_try_new v = Inr p \<longleftrightarrow> percentage_wf p \<and> pct_value p = v"
  by (cases p) (auto simp: percentage_try_new_def)

section \<open>Flag names\<close>

datatype flag_name = GlobalFlag segment | ScopedFlag namespace segment

definition flag_name_parse :: "string \<Rightarrow> (core_error, flag_name) result" where
  "flag_name_parse s =
     (if s = [] then Inl (Parse ''flag_name'' s ''cannot be empty'')
      else (case split_once CHR '':'' s of
          Some (ns, name) \<Rightarrow>
            and_then (namespace_parse ns) (\<lambda>n.
            and_then (segment_try_new name) (\<lambda>x. Inr (ScopedFlag n x)))
        | None \<Rightarrow> and_then (segment_try_new s) (\<lambda>x. Inr (GlobalFlag x))))"

fun is_in_namespace :: "flag_name \<Rightarrow> namespace \<Rightarrow> bool" where
  "is_in_namespace (GlobalFlag _) n = False"
| "is_in_namespace (ScopedFlag m _) n = ns_eq m n"

fun flag_name_display :: "flag_name \<Rightarrow> string" where
  "flag_name_display (GlobalFlag x) = seg_str x"
| "flag_name_display (ScopedFlag n x) = ns_str n @ '':'' @ seg_str x"

fun flag_name_wf :: "flag_name \<Rightarrow> bool" where
  "flag_name_wf (GlobalFlag x) \<longleftrightarrow> segment_wf x"
| "flag_name_wf (ScopedFlag n x) \<longleftrightarrow> namespace_wf n \<and> \<not> ns_is_reserved n \<and> segment_wf x"

lemma flag_name_parse_Inr_iff:
  "flag_name_parse s = Inr f \<longleftrightarrow> flag_name_wf f \<and> flag_name_display f = s"
proof (cases "split_once CHR '':'' s")
  case None
  then have "CHR '':'' \<notin> set s" by (simp add: split_once_None_iff)
  then show ?thesis
    using None by (cases f) (auto simp: flag_name_parse_def segment_try_new_Inr_iff valid_segment_def)
next
  case (Some p)
  then obtain a b where ab: "split_once CHR '':'' s = Some (a, b)" by (cases p) auto
  then have s: "s = a @ CHR '':'' # b" "CHR '':'' \<notin> set a" by (simp_all add: split_once_Some_iff)
  have ok: "flag_name_parse s = Inr f \<longleftrightarrow>
      (\<exists>n x. namespace_parse a = Inr n \<and> segment_try_new b = Inr x \<and> f = ScopedFlag n x)"
    using ab s by (auto simp: flag_name_parse_def)
  show ?thesis
  proof (cases f)
    case (GlobalFlag x)
    then show ?thesis using ok s valid_segment_excludes(1) [of "seg_str x"] by auto
  next
    case (ScopedFlag n x)
    have "CHR '':'' \<notin> set (ns_str n)" if "namespace_wf n"
      using valid_segment_excludes(1) [OF namespace_wf_segment [OF that]] by (simp add: ns_str_def)
    then have "namespace_wf n \<Longrightarrow> ns_str n @ '':'' @ seg_str x = s \<longleftrightarrow> ns_str n = a \<and> seg_str x = b"
      using s sep_append_eq_iff [of "CHR '':''" "ns_str n" a "seg_str x" b] by auto
    then show ?thesis
      using ok ScopedFlag by (auto simp: namespace_parse_Inr_iff segment_try_new_Inr_iff)
  qed
qed

lemma flag_name_display_inj:
  "flag_name_wf f \<Longrightarrow> flag_name_wf g \<Longrightarrow> flag_name_display f = flag_name_display g \<Longrightarrow> f = g"
  using flag_name_parse_Inr_iff by (metis sum.inject(2))

section \<open>Definitions\<close>

datatype 'n flag_value = FlagBool bool | FlagString string | FlagNumber 'n

datatype flag_type = TBoolean | TString | TNumber

record 'n flag_override =
  ov_tenant :: "tenant_id option"
  ov_user :: "user_id option"
  ov_group :: "group_name option"
  ov_value :: "'n flag_value"

record 'n flag_definition =
  fd_type :: flag_type
  fd_default :: "'n flag_value"
  fd_enabled :: bool
  fd_overrides :: "'n flag_override list"
  fd_rollout :: "percentage option"
  fd_variant :: "'n flag_value option"

type_synonym 'n flag_config = "(flag_name, 'n flag_definition) hash_map"

datatype resolution_reason =
    KillSwitch
  | OverrideMatched "string option" "string option" "string option"
  | Rollout "64 word" "64 word"
  | RolloutExcluded "64 word" "64 word"
  | DefaultValue

record 'n resolved_flag =
  rf_value :: "'n flag_value"
  rf_reason :: resolution_reason

definition flag_enabled :: "(string, 'n flag_value) hash_map \<Rightarrow> string \<Rightarrow> bool" where
  "flag_enabled flags flag = (case map_of flags flag of Some (FlagBool True) \<Rightarrow> True | _ \<Rightarrow> False)"

section \<open>Evaluation\<close>

text \<open>The bytes fed to the hasher, and the bucket \<open>finish() % 100\<close>.\<close>

definition bucket_input :: "string \<Rightarrow> tenant_id option \<Rightarrow> user_id \<Rightarrow> string" where
  "bucket_input flag tenant u =
     flag @ [CHR 0xFF] @ (case tenant of Some t \<Rightarrow> seg_str t | None \<Rightarrow> []) @ [CHR 0xFF] @ seg_str u"

definition deterministic_bucket ::
  "(string \<Rightarrow> 64 word) \<Rightarrow> string \<Rightarrow> tenant_id option \<Rightarrow> user_id \<Rightarrow> 8 word" where
  "deterministic_bucket xxh64 flag tenant u = ucast (xxh64 (bucket_input flag tenant u) mod 100)"

definition override_matches ::
  "'n flag_override \<Rightarrow> tenant_id option \<Rightarrow> user_id \<Rightarrow> group_name list \<Rightarrow> bool" where
  "override_matches ov tenant u groups \<longleftrightarrow>
     (case ov_user ov of None \<Rightarrow> True | Some x \<Rightarrow> x = u) \<and>
     (case (ov_tenant ov, tenant) of
        (Some t, Some tid) \<Rightarrow> t = tid
      | (Some _, None) \<Rightarrow> False
      | (None, _) \<Rightarrow> True) \<and>
     (case ov_group ov of None \<Rightarrow> True | Some g \<Rightarrow> g \<in> set groups)"

definition resolve_single_flag_detailed ::
  "(string \<Rightarrow> 64 word) \<Rightarrow> flag_name \<Rightarrow> 'n flag_definition \<Rightarrow> tenant_id option \<Rightarrow> user_id
    \<Rightarrow> group_name list \<Rightarrow> 'n resolved_flag" where
  "resolve_single_flag_detailed xxh64 name flag tenant u groups =
     (if \<not> fd_enabled flag then \<lparr>rf_value = fd_default flag, rf_reason = KillSwitch\<rparr>
      else (case find (\<lambda>ov. override_matches ov tenant u groups) (fd_overrides flag) of
          Some ov \<Rightarrow>
            \<lparr>rf_value = ov_value ov,
             rf_reason = OverrideMatched (map_option seg_str (ov_tenant ov))
               (map_option seg_str (ov_user ov)) (map_option seg_str (ov_group ov))\<rparr>
        | None \<Rightarrow> (case fd_rollout flag of
              Some pct \<Rightarrow>
                (let bucket = deterministic_bucket xxh64 (flag_name_display name) tenant u in
                 if bucket < pct_value pct then
                   \<lparr>rf_value = (case fd_variant flag of Some v \<Rightarrow> v | None \<Rightarrow> FlagBool True),
                    rf_reason = Rollout (ucast bucket) (ucast (pct_value pct))\<rparr>
                 else
                   \<lparr>rf_value = fd_default flag,
                    rf_reason = RolloutExcluded (ucast bucket) (ucast (pct_value pct))\<rparr>)
            | None \<Rightarrow> \<lparr>rf_value = fd_default flag, rf_reason = DefaultValue\<rparr>)))"

definition resolve_single_flag ::
  "(string \<Rightarrow> 64 word) \<Rightarrow> flag_name \<Rightarrow> 'n flag_definition \<Rightarrow> tenant_id option \<Rightarrow> user_id
    \<Rightarrow> group_name list \<Rightarrow> 'n flag_value" where
  "resolve_single_flag xxh64 name flag tenant u groups =
     (if \<not> fd_enabled flag then fd_default flag
      else (case find (\<lambda>ov. override_matches ov tenant u groups) (fd_overrides flag) of
          Some ov \<Rightarrow> ov_value ov
        | None \<Rightarrow> (case fd_rollout flag of
              Some pct \<Rightarrow>
                if deterministic_bucket xxh64 (flag_name_display name) tenant u < pct_value pct then
                  (case fd_variant flag of Some v \<Rightarrow> v | None \<Rightarrow> FlagBool True)
                else fd_default flag
            | None \<Rightarrow> fd_default flag)))"

definition evaluate_flags ::
  "(string \<Rightarrow> 64 word) \<Rightarrow> 'n flag_config \<Rightarrow> tenant_id option \<Rightarrow> user_id \<Rightarrow> group_name list
    \<Rightarrow> (string, 'n flag_value) hash_map" where
  "evaluate_flags xxh64 config tenant u groups =
     foldl (\<lambda>flags (name, def).
       hm_insert (flag_name_display name) (resolve_single_flag xxh64 name def tenant u groups) flags)
       [] config"

definition evaluate_flags_detailed ::
  "(string \<Rightarrow> 64 word) \<Rightarrow> 'n flag_config \<Rightarrow> tenant_id option \<Rightarrow> user_id \<Rightarrow> group_name list
    \<Rightarrow> (string, 'n resolved_flag) hash_map" where
  "evaluate_flags_detailed xxh64 config tenant u groups =
     foldl (\<lambda>flags (name, def).
       hm_insert (flag_name_display name) (resolve_single_flag_detailed xxh64 name def tenant u groups) flags)
       [] config"

section \<open>Lemmas\<close>

lemma bucket_bounds: "unat (deterministic_bucket xxh64 flag tenant u) < 100"
proof -
  let ?h = "xxh64 (bucket_input flag tenant u)"
  have "unat (?h mod 100) < 100" by (simp add: unat_mod)
  then show ?thesis
    unfolding deterministic_bucket_def by (simp add: unsigned_ucast_eq take_bit_eq_mod)
qed

lemma detailed_value:
  "rf_value (resolve_single_flag_detailed xxh64 name flag tenant u groups) =
     resolve_single_flag xxh64 name flag tenant u groups"
  by (auto simp: resolve_single_flag_detailed_def resolve_single_flag_def Let_def split: option.splits)

lemma hm_insert_map:
  "hm_insert k (h v) (map (\<lambda>(k, v). (k, h v)) m) = map (\<lambda>(k, v). (k, h v)) (hm_insert k v m)"
  by (induction k v m rule: hm_insert.induct) auto

lemma foldl_hm_insert_map:
  assumes "\<And>k v. g k v = h (g' k v)"
  shows "foldl (\<lambda>m (k, v). hm_insert (f k) (g k v) m) (map (\<lambda>(k, v). (k, h v)) init) xs =
     map (\<lambda>(k, v). (k, h v)) (foldl (\<lambda>m (k, v). hm_insert (f k) (g' k v) m) init xs)"
proof (induction xs arbitrary: init)
  case (Cons x xs)
  obtain k v where x: "x = (k, v)" by fastforce
  show ?case using Cons [of "hm_insert (f k) (g' k v) init"] by (simp only: foldl_Cons x prod.case assms hm_insert_map)
qed simp

lemma lookup_foldl_hm_insert:
  assumes "distinct (map (\<lambda>x. f (fst x)) xs)" "(k, v) \<in> set xs"
  shows "map_of (foldl (\<lambda>m (k, v). hm_insert (f k) (g k v) m) m0 xs) (f k) = Some (g k v)"
  using assms
proof (induction xs arbitrary: m0)
  case (Cons x xs)
  have keep: "map_of (foldl (\<lambda>m (k, v). hm_insert (f k) (g k v) m) m xs) q = map_of m q"
    if "q \<notin> (\<lambda>x. f (fst x)) ` set xs" for m q
    using that by (induction xs arbitrary: m) (auto simp: hm_insert_lookup split_beta)
  show ?case
  proof (cases "(k, v) \<in> set xs")
    case True
    then show ?thesis using Cons by simp
  next
    case False
    then have "x = (k, v)" using Cons.prems(2) by auto
    then show ?thesis using Cons.prems(1) keep [of "f k"] by (simp add: hm_insert_lookup)
  qed
qed simp


lemma bucket_input_inj:
  assumes "flag_name_wf f" "flag_name_wf g" "pred_option segment_wf t" "pred_option segment_wf t'"
    and "segment_wf u" "segment_wf u'"
    and "bucket_input (flag_name_display f) t u = bucket_input (flag_name_display g) t' u'"
  shows "f = g \<and> t = t' \<and> u = u'"
proof -
  have seg: "CHR 0xFF \<notin> set (seg_str x)" if "segment_wf x" for x
    using valid_segment_char [OF that, of "CHR 0xFF"] by (auto simp: segment_char_def byte_class_defs)
  then have fl: "CHR 0xFF \<notin> set (flag_name_display h)" if "flag_name_wf h" for h
    using that namespace_wf_segment by (cases h) (auto simp: ns_str_def)
  have tn: "CHR 0xFF \<notin> set (case y of Some x \<Rightarrow> seg_str x | None \<Rightarrow> [])" if "pred_option segment_wf y" for y
    using that seg by (cases y) auto
  have "flag_name_display f = flag_name_display g"
      "(case t of Some x \<Rightarrow> seg_str x | None \<Rightarrow> []) = (case t' of Some x \<Rightarrow> seg_str x | None \<Rightarrow> [])"
      "seg_str u = seg_str u'"
    using assms(7) fl [OF assms(1)] fl [OF assms(2)] tn [OF assms(3)] tn [OF assms(4)]
    unfolding bucket_input_def append_Cons append_Nil
    by (simp_all add: sep_append_eq_iff)
  then show ?thesis
    using assms flag_name_display_inj
    by (auto simp: segment.expand valid_segment_def split: option.splits)
qed


section \<open>Properties of flag evaluation\<close>

text \<open>
  The plain and the explained evaluation of a flag configuration agree: dropping the reasons from
  the map the debug endpoint reports gives the map the request path uses.
\<close>

theorem evaluate_flags_agrees_with_detailed:
  "evaluate_flags xxh64 config tenant u groups =
     map (\<lambda>(name, r). (name, rf_value r)) (evaluate_flags_detailed xxh64 config tenant u groups)"
  using foldl_hm_insert_map [where f = flag_name_display and h = rf_value and init = "[]" and xs = config
      and g = "\<lambda>name def. resolve_single_flag xxh64 name def tenant u groups"
      and g' = "\<lambda>name def. resolve_single_flag_detailed xxh64 name def tenant u groups"]
  by (simp add: evaluate_flags_def evaluate_flags_detailed_def detailed_value)

text \<open>
  Every configured flag is reported under its own name: in a configuration with well-formed,
  distinct names no flag hides another, and the value found under a flag's printed name is the value
  resolved for that flag.
\<close>

theorem evaluate_flags_lookup:
  assumes "hm_wf config" "\<forall>name \<in> fst ` set config. flag_name_wf name" "(name, def) \<in> set config"
  shows "map_of (evaluate_flags xxh64 config tenant u groups) (flag_name_display name) =
           Some (resolve_single_flag xxh64 name def tenant u groups)"
proof -
  have "inj_on flag_name_display (fst ` set config)"
    using assms(2) flag_name_display_inj by (auto simp: inj_on_def)
  then have "distinct (map flag_name_display (map fst config))"
    using assms(1) by (simp add: distinct_map comp_inj_on)
  then have "distinct (map (\<lambda>x. flag_name_display (fst x)) config)" by (simp add: comp_def)
  from lookup_foldl_hm_insert [OF this assms(3)] show ?thesis by (simp add: evaluate_flags_def)
qed

definition ex_flag :: "nat flag_definition" where
  "ex_flag = \<lparr>fd_type = TBoolean, fd_default = FlagBool False, fd_enabled = True,
     fd_overrides = [\<lparr>ov_tenant = Some (Segment ''acme''), ov_user = None, ov_group = None,
                      ov_value = FlagBool True\<rparr>],
     fd_rollout = Some (Percentage 50), fd_variant = None\<rparr>"

definition ex_flag_config :: "nat flag_config" where
  "ex_flag_config = [(GlobalFlag (Segment ''maintenance-mode''), ex_flag),
     (ScopedFlag (UserNs (Segment ''todo'')) (Segment ''ai''), ex_flag)]"

theorem evaluate_flags_lookup_witness:
  "map_of (evaluate_flags (\<lambda>_. 7) ex_flag_config None (Segment ''u'') []) ''todo:ai'' = Some (FlagBool True)"
proof -
  have c: "hm_wf ex_flag_config" "\<forall>name \<in> fst ` set ex_flag_config. flag_name_wf name"
    by code_simp+
  have "(ScopedFlag (UserNs (Segment ''todo'')) (Segment ''ai''), ex_flag) \<in> set ex_flag_config"
    by (simp add: ex_flag_config_def)
  from evaluate_flags_lookup [OF c this, of "\<lambda>_. 7" None "Segment ''u''" "[]"]
  show ?thesis
    by (simp add: ns_str_def resolve_single_flag_def ex_flag_def override_matches_def
        deterministic_bucket_def)
qed

text \<open>
  C39. Percentage rollout is monotone and has the right end points. For a flag whose rollout is
  reached, raising the percentage never takes the rollout variant away from a user; a percentage of
  0 gives it to no one and a percentage of 100 gives it to everyone, because the bucket of the user
  is one of 0 to 99.
\<close>

theorem rollout_monotone:
  assumes "percentage_wf p" "percentage_wf q" "pct_value p \<le> pct_value q"
    and "rf_reason (resolve_single_flag_detailed xxh64 name (flag\<lparr>fd_rollout := Some p\<rparr>) tenant u groups) =
           Rollout b t"
  shows "(\<exists>t'. resolve_single_flag_detailed xxh64 name (flag\<lparr>fd_rollout := Some q\<rparr>) tenant u groups =
            \<lparr>rf_value = (case fd_variant flag of Some v \<Rightarrow> v | None \<Rightarrow> FlagBool True), rf_reason = Rollout b t'\<rparr>) \<and>
         pct_value p \<noteq> 0 \<and>
         (\<forall>u' b' t'. rf_reason (resolve_single_flag_detailed xxh64 name
            (flag\<lparr>fd_rollout := Some (Percentage 100)\<rparr>) tenant u' groups) \<noteq> RolloutExcluded b' t')"
proof -
  let ?b = "deterministic_bucket xxh64 (flag_name_display name) tenant u"
  have hit: "fd_enabled flag" "find (\<lambda>ov. override_matches ov tenant u groups) (fd_overrides flag) = None"
      "?b < pct_value p" "b = ucast ?b"
    using assms(4)
    by (auto simp: resolve_single_flag_detailed_def Let_def split: if_splits option.splits)
  have "?b < pct_value q" using hit(3) assms(3) by (rule order.strict_trans2)
  then have one: "resolve_single_flag_detailed xxh64 name (flag\<lparr>fd_rollout := Some q\<rparr>) tenant u groups =
      \<lparr>rf_value = (case fd_variant flag of Some v \<Rightarrow> v | None \<Rightarrow> FlagBool True),
       rf_reason = Rollout b (ucast (pct_value q))\<rparr>"
    using hit by (simp add: resolve_single_flag_detailed_def Let_def)
  have two: "pct_value p \<noteq> 0" using hit(3) by auto
  have "deterministic_bucket xxh64 (flag_name_display name) tenant u' < 100" for u'
    using bucket_bounds [of xxh64 "flag_name_display name" tenant u'] by (simp add: word_less_nat_alt)
  then have "rf_reason (resolve_single_flag_detailed xxh64 name (flag\<lparr>fd_rollout := Some (Percentage 100)\<rparr>)
      tenant u' groups) \<noteq> RolloutExcluded b' t'" for u' b' t'
    by (auto simp: resolve_single_flag_detailed_def Let_def split: option.splits)
  with one two show ?thesis by blast
qed

theorem rollout_monotone_witness:
  "rf_value (resolve_single_flag_detailed (\<lambda>_. 7) (GlobalFlag (Segment ''ai''))
     (ex_flag\<lparr>fd_rollout := Some (Percentage 20)\<rparr>) None (Segment ''u'') []) = FlagBool True"
proof -
  have "percentage_wf (Percentage 10)" "percentage_wf (Percentage 20)"
    "pct_value (Percentage 10) \<le> pct_value (Percentage 20)"
    by simp_all
  moreover have reason: "rf_reason (resolve_single_flag_detailed (\<lambda>_. 7) (GlobalFlag (Segment ''ai''))
     (ex_flag\<lparr>fd_rollout := Some (Percentage 10)\<rparr>) None (Segment ''u'') []) = Rollout 7 10"
    by (simp add: resolve_single_flag_detailed_def ex_flag_def override_matches_def deterministic_bucket_def)
  ultimately obtain t' where
    "resolve_single_flag_detailed (\<lambda>_. 7) (GlobalFlag (Segment ''ai''))
       (ex_flag\<lparr>fd_rollout := Some (Percentage 20)\<rparr>) None (Segment ''u'') [] =
     \<lparr>rf_value = (case fd_variant ex_flag of Some v \<Rightarrow> v | None \<Rightarrow> FlagBool True), rf_reason = Rollout 7 t'\<rparr>"
    using rollout_monotone [OF _ _ _ reason, of "Percentage 20"] by blast
  then show ?thesis by (simp add: ex_flag_def)
qed

text \<open>
  The bytes hashed for a rollout bucket determine flag, tenant and user: the \<open>0xFF\<close> separators
  cannot occur in names, so two different flag, tenant and user combinations never share a hash input.
\<close>

theorem bucket_input_injective:
  assumes "flag_name_wf f" "flag_name_wf g" "pred_option segment_wf t" "pred_option segment_wf t'"
    and "segment_wf u" "segment_wf u'"
  shows "bucket_input (flag_name_display f) t u = bucket_input (flag_name_display g) t' u' \<longleftrightarrow>
           f = g \<and> t = t' \<and> u = u'"
  using bucket_input_inj [OF assms] by auto

theorem bucket_input_injective_witness:
  "bucket_input (flag_name_display (GlobalFlag (Segment ''ai''))) None (Segment ''u'') \<noteq>
     bucket_input (flag_name_display (GlobalFlag (Segment ''ai''))) (Some (Segment ''u'')) (Segment ''u'')"
proof -
  have "flag_name_wf (GlobalFlag (Segment ''ai''))" "segment_wf (Segment ''u'')" by code_simp+
  then show ?thesis
    using bucket_input_injective [of "GlobalFlag (Segment ''ai'')" "GlobalFlag (Segment ''ai'')" None
        "Some (Segment ''u'')" "Segment ''u''" "Segment ''u''"] by simp
qed

end
