(* ===== verification/Rust_Text.thy ===== *)
theory Rust_Text
  imports Prelude "HOL-Library.Word"
begin

text \<open>
  Character-level operations of Rust's \<open>str\<close> that do not act byte by byte: the characters of a UTF-8
  string, \<open>trim\<close>, the char boundaries that slicing checks, and the parsing and printing of \<open>u64\<close>.
\<close>

section \<open>Characters of a UTF-8 string\<close>

text \<open>The length of the encoding a lead byte announces; at least one, so decoding always advances.\<close>

definition utf8_len :: "char \<Rightarrow> nat" where
  "utf8_len c =
     (if byte c < 0xC0 then 1 else if byte c < 0xE0 then 2 else if byte c < 0xF0 then 3 else 4)"

lemma utf8_len_pos [simp]: "0 < utf8_len c"
  by (simp add: utf8_len_def)

function utf8_chars :: "string \<Rightarrow> string list" where
  "utf8_chars [] = []"
| "utf8_chars (c # cs) = take (utf8_len c) (c # cs) # utf8_chars (drop (utf8_len c) (c # cs))"
  by pat_completeness auto
termination
  by (relation "measure length") (auto simp: utf8_len_def)

declare utf8_chars.simps(2) [simp del]

lemma concat_utf8_chars [simp]: "concat (utf8_chars s) = s"
  by (induction s rule: utf8_chars.induct) (simp_all add: utf8_chars.simps)

definition is_ascii :: "string \<Rightarrow> bool" where
  "is_ascii s = list_all (\<lambda>c. byte c < 0x80) s"

lemma is_ascii_simps [simp]:
  "is_ascii []" "is_ascii (c # s) \<longleftrightarrow> byte c < 0x80 \<and> is_ascii s" "is_ascii (s @ t) \<longleftrightarrow> is_ascii s \<and> is_ascii t"
  by (auto simp: is_ascii_def)

lemma utf8_chars_ascii: "is_ascii s \<Longrightarrow> utf8_chars s = map (\<lambda>c. [c]) s"
  by (induction s) (simp_all add: utf8_chars.simps utf8_len_def)

section \<open>Trimming\<close>

text \<open>The characters with the Unicode property \<open>White_Space\<close>, in UTF-8.\<close>

definition is_whitespace :: "string \<Rightarrow> bool" where
  "is_whitespace ch =
     (case map byte ch of
        [a] \<Rightarrow> a = 0x20 \<or> (0x09 \<le> a \<and> a \<le> 0x0D)
      | [a, b] \<Rightarrow> a = 0xC2 \<and> (b = 0x85 \<or> b = 0xA0)
      | [a, b, c] \<Rightarrow>
          (a = 0xE1 \<and> b = 0x9A \<and> c = 0x80) \<or>
          (a = 0xE2 \<and> b = 0x80 \<and> ((0x80 \<le> c \<and> c \<le> 0x8A) \<or> c = 0xA8 \<or> c = 0xA9 \<or> c = 0xAF)) \<or>
          (a = 0xE2 \<and> b = 0x81 \<and> c = 0x9F) \<or> (a = 0xE3 \<and> b = 0x80 \<and> c = 0x80)
      | _ \<Rightarrow> False)"

definition trim :: "string \<Rightarrow> string" where
  "trim s = concat (rev (dropWhile is_whitespace (rev (dropWhile is_whitespace (utf8_chars s)))))"

lemma set_concat_dropWhile: "set (concat (dropWhile P xs)) \<subseteq> set (concat xs)"
  by (induction xs) auto

lemma set_trim: "set (trim s) \<subseteq> set s"
proof -
  have "set (trim s) \<subseteq> set (concat (dropWhile is_whitespace (utf8_chars s)))"
    using set_concat_dropWhile [of is_whitespace "rev (dropWhile is_whitespace (utf8_chars s))"]
    by (simp add: trim_def)
  also have "\<dots> \<subseteq> set (concat (utf8_chars s))" by (rule set_concat_dropWhile)
  finally show ?thesis by simp
qed

lemma is_ascii_trim: "is_ascii s \<Longrightarrow> is_ascii (trim s)"
  using set_trim [of s] by (auto simp: is_ascii_def list_all_iff)

text \<open>A string with no white space at either end is its own trim.\<close>

lemma trim_id:
  assumes "is_ascii s" "s = [] \<or> \<not> is_whitespace [hd s] \<and> \<not> is_whitespace [last s]"
  shows "trim s = s"
proof (cases s)
  case Nil
  then show ?thesis by (simp add: trim_def)
next
  case (Cons c cs)
  then have "dropWhile is_whitespace (map (\<lambda>c. [c]) s) = map (\<lambda>c. [c]) s"
    using assms(2) by simp
  moreover have "dropWhile is_whitespace (rev (map (\<lambda>c. [c]) s)) = rev (map (\<lambda>c. [c]) s)"
  proof -
    obtain ys y where y: "s = ys @ [y]" using Cons by (metis list.distinct(1) rev_exhaust)
    then have "\<not> is_whitespace [y]" using assms(2) by auto
    then show ?thesis by (simp add: y)
  qed
  ultimately show ?thesis by (simp add: trim_def utf8_chars_ascii [OF assms(1)] rev_map concat_map_singleton)
qed

section \<open>Slicing\<close>

text \<open>\<open>&s[..n]\<close> panics when \<open>n\<close> is past the end or inside a character (\<open>is_char_boundary\<close>).\<close>

definition is_char_boundary :: "string \<Rightarrow> nat \<Rightarrow> bool" where
  "is_char_boundary s n =
     (if n = 0 \<or> n = length s then True
      else if n > length s then False
      else \<not> (0x80 \<le> byte (s ! n) \<and> byte (s ! n) < 0xC0))"

definition slice_to :: "string \<Rightarrow> nat \<Rightarrow> string option" where
  "slice_to s n = (if is_char_boundary s n then Some (take n s) else None)"

lemma slice_to_ascii: "is_ascii s \<Longrightarrow> n \<le> length s \<Longrightarrow> slice_to s n = Some (take n s)"
  by (cases "n < length s") (auto simp: slice_to_def is_char_boundary_def is_ascii_def list_all_length dest: leD)

section \<open>Unsigned integers\<close>

type_synonym u64 = "64 word"

definition show_u64 :: "u64 \<Rightarrow> string" where
  "show_u64 w = show_nat (unat w)"

definition parse_u64 :: "string \<Rightarrow> u64 option" where
  "parse_u64 s =
     (let d = (case s of c # r \<Rightarrow> if c = CHR ''+'' then r else s | [] \<Rightarrow> []) in
      if d = [] \<or> \<not> list_all is_ascii_digit d \<or> read_nat d \<ge> 2 ^ 64 then None
      else Some (of_nat (read_nat d)))"

lemma show_nat_not_Nil [simp]: "show_nat n \<noteq> []"
  by (subst show_nat.simps) simp

lemma parse_show_u64 [simp]: "parse_u64 (show_u64 w) = Some w"
proof -
  have digits: "list_all is_ascii_digit (show_nat (unat w))"
    by (simp add: list_all_iff show_nat_digits)
  obtain c r where cr: "show_nat (unat w) = c # r" by (meson neq_Nil_conv show_nat_not_Nil)
  then have "is_ascii_digit c" using show_nat_digits [of c "unat w"] by simp
  then have "c \<noteq> CHR ''+''" by (auto simp: is_ascii_digit_def byte_def)
  then have "(case show_nat (unat w) of c # r \<Rightarrow> if c = CHR ''+'' then r else show_nat (unat w) | [] \<Rightarrow> []) =
      show_nat (unat w)" by (simp add: cr)
  moreover have "unat w < 2 ^ 64" using unsigned_less [of w, where 'a = nat] by simp
  ultimately show ?thesis using digits by (simp add: parse_u64_def show_u64_def read_show_nat Let_def)
qed

lemma show_u64_inj [simp]: "show_u64 a = show_u64 b \<longleftrightarrow> a = b"
  by (metis option.inject parse_show_u64)

lemma is_ascii_show_u64: "is_ascii (show_u64 w)"
  by (auto simp: is_ascii_def list_all_iff show_u64_def is_ascii_digit_def byte_def dest!: show_nat_digits)

end
