(* ===== verification/Json.thy ===== *)
theory Json
  imports Prelude
begin

text \<open>
  The JSON values of \<open>serde_json\<close> as the code uses them: objects keep the order of their keys (the
  build enables \<open>preserve_order\<close>), equality treats objects as maps. The number type is a parameter;
  no modelled code computes with numbers.
\<close>

datatype 'n json =
    JNull
  | JBool bool
  | JNum 'n
  | JStr string
  | JArr "'n json list"
  | JObj "(string \<times> 'n json) list"

text \<open>\<open>Value::get\<close> and the index operator \<open>value["key"]\<close>, which yields null where there is no such key.\<close>

fun json_get :: "'n json \<Rightarrow> string \<Rightarrow> 'n json option" where
  "json_get (JObj m) k = map_of m k"
| "json_get _ k = None"

definition json_index :: "'n json \<Rightarrow> string \<Rightarrow> 'n json" where
  "json_index v k = (case json_get v k of Some x \<Rightarrow> x | None \<Rightarrow> JNull)"

fun json_as_str :: "'n json \<Rightarrow> string option" where
  "json_as_str (JStr s) = Some s"
| "json_as_str _ = None"

fun json_is_object :: "'n json \<Rightarrow> bool" where
  "json_is_object (JObj _) = True"
| "json_is_object _ = False"

text \<open>\<open>Map::remove\<close>, which moves the last entry into the place of the removed one.\<close>

definition obj_remove :: "string \<Rightarrow> (string \<times> 'n json) list \<Rightarrow> (string \<times> 'n json) list" where
  "obj_remove k m =
     (if k \<notin> fst ` set m then m
      else if fst (last m) = k then butlast m
      else map (\<lambda>e. if fst e = k then last m else e) (butlast m))"

text \<open>\<open>PartialEq for Value\<close>: objects are equal as maps.\<close>

lemma json_size_member:
  "x \<in> set a \<Longrightarrow> size x < size (JArr a)"
  "(k, x) \<in> set m \<Longrightarrow> size x < size (JObj m)"
proof -
  show "x \<in> set a \<Longrightarrow> size x < size (JArr a)" by (induction a) auto
  show "(k, x) \<in> set m \<Longrightarrow> size x < size (JObj m)" by (induction m) auto
qed

function (sequential) json_eq :: "'n json \<Rightarrow> 'n json \<Rightarrow> bool" where
  "json_eq JNull JNull \<longleftrightarrow> True"
| "json_eq (JBool a) (JBool b) \<longleftrightarrow> a = b"
| "json_eq (JNum a) (JNum b) \<longleftrightarrow> a = b"
| "json_eq (JStr a) (JStr b) \<longleftrightarrow> a = b"
| "json_eq (JArr a) (JArr b) \<longleftrightarrow>
     length a = length b \<and> (\<forall>(x, y) \<in> set (zip a b). json_eq x y)"
| "json_eq (JObj a) (JObj b) \<longleftrightarrow>
     length a = length b \<and>
     (\<forall>(k, x) \<in> set a. case map_of b k of None \<Rightarrow> False | Some y \<Rightarrow> json_eq x y)"
| "json_eq _ _ \<longleftrightarrow> False"
  by pat_completeness auto
termination
  by (relation "measure (\<lambda>(v, w). size v)")
    (auto simp del: json.size dest!: set_zip_leftD intro: json_size_member)

text \<open>Objects have distinct keys at every level.\<close>

function (sequential) json_wf :: "'n json \<Rightarrow> bool" where
  "json_wf (JArr a) \<longleftrightarrow> (\<forall>x \<in> set a. json_wf x)"
| "json_wf (JObj m) \<longleftrightarrow> hm_wf m \<and> (\<forall>(k, x) \<in> set m. json_wf x)"
| "json_wf _ \<longleftrightarrow> True"
  by pat_completeness auto
termination
  by (relation "measure size") (auto simp del: json.size intro: json_size_member)

lemma json_eq_refl: "json_wf v \<Longrightarrow> json_eq v v"
proof (induction v rule: json_wf.induct)
  case (2 m)
  then have "json_eq x x" if "(k, x) \<in> set m" for k x using that by fastforce
  moreover have "map_of m k = Some x" if "(k, x) \<in> set m" for k x
    using 2 that by (simp add: map_of_is_SomeI)
  ultimately show ?case by fastforce
qed (auto simp: zip_same)

end
