(* ===== verification/Org_Lifecycle.thy ===== *)
theory Org_Lifecycle
  imports Names
begin

text \<open>
  The organization entity and its status machine (\<open>crates/core/src/org.rs\<close>). A timestamp is the
  number of time units since the epoch; the code only stores and copies it.
\<close>

datatype org_status = Draft | Active | Suspended | Deleting | Deleted

definition can_transition_to :: "org_status \<Rightarrow> org_status \<Rightarrow> bool" where
  "can_transition_to s t =
     (case (s, t) of
        (Draft, Active) \<Rightarrow> True
      | (Active, Suspended) \<Rightarrow> True
      | (Suspended, Active) \<Rightarrow> True
      | (Active, Deleting) \<Rightarrow> True
      | (Suspended, Deleting) \<Rightarrow> True
      | (Deleting, Deleted) \<Rightarrow> True
      | _ \<Rightarrow> False)"

fun org_status_str :: "org_status \<Rightarrow> string" where
  "org_status_str Draft = ''draft''"
| "org_status_str Active = ''active''"
| "org_status_str Suspended = ''suspended''"
| "org_status_str Deleting = ''deleting''"
| "org_status_str Deleted = ''deleted''"

definition org_status_from_str :: "string \<Rightarrow> (core_error, org_status) result" where
  "org_status_from_str s =
     (if s = ''draft'' then Inr Draft
      else if s = ''active'' then Inr Active
      else if s = ''suspended'' then Inr Suspended
      else if s = ''deleting'' then Inr Deleting
      else if s = ''deleted'' then Inr Deleted
      else Inl (Parse ''org_status'' s ''expected one of: draft, active, suspended, deleting, deleted''))"

type_synonym timestamp = int

record organization =
  o_id :: organization_id
  o_name :: string
  o_status :: org_status
  o_cognito_pool_id :: "string option"
  o_cognito_jwks_url :: "string option"
  o_policy_store_id :: "string option"
  o_created_at :: timestamp
  o_updated_at :: timestamp

definition organization_new :: "organization_id \<Rightarrow> string \<Rightarrow> org_status \<Rightarrow> timestamp \<Rightarrow> organization" where
  "organization_new i name status now =
     \<lparr>o_id = i, o_name = name, o_status = status, o_cognito_pool_id = None, o_cognito_jwks_url = None,
      o_policy_store_id = None, o_created_at = now, o_updated_at = now\<rparr>"

definition with_aws_resources ::
  "organization \<Rightarrow> string option \<Rightarrow> string option \<Rightarrow> string option \<Rightarrow> organization" where
  "with_aws_resources org pool jwks store =
     org\<lparr>o_cognito_pool_id := pool, o_cognito_jwks_url := jwks, o_policy_store_id := store\<rparr>"

definition with_updated_at :: "organization \<Rightarrow> timestamp \<Rightarrow> organization" where
  "with_updated_at org t = org\<lparr>o_updated_at := t\<rparr>"

definition arrow :: string where
  "arrow = [CHR 0xE2, CHR 0x86, CHR 0x92]"

definition transition_to :: "organization \<Rightarrow> org_status \<Rightarrow> timestamp \<Rightarrow> (core_error, organization) result" where
  "transition_to org target now =
     (if \<not> can_transition_to (o_status org) target then
        Inl (Parse ''org_status''
          (org_status_str (o_status org) @ '' '' @ arrow @ '' '' @ org_status_str target)
          ''invalid status transition'')
      else Inr (org\<lparr>o_status := target, o_updated_at := now\<rparr>))"

definition update_name :: "organization \<Rightarrow> string \<Rightarrow> timestamp \<Rightarrow> organization" where
  "update_name org name now = org\<lparr>o_name := name, o_updated_at := now\<rparr>"

section \<open>Lifecycle\<close>

text \<open>The moves of an organization: any successful transition or a rename.\<close>

inductive org_step :: "organization \<Rightarrow> organization \<Rightarrow> bool" where
  transition: "transition_to org target now = Inr org' \<Longrightarrow> org_step org org'"
| rename: "org_step org (update_name org name now)"

inductive_cases org_stepE: "org_step org org'"

text \<open>How far an organization is towards deletion.\<close>

fun deletion_stage :: "org_status \<Rightarrow> nat" where
  "deletion_stage Draft = 0"
| "deletion_stage Active = 1"
| "deletion_stage Suspended = 1"
| "deletion_stage Deleting = 2"
| "deletion_stage Deleted = 3"

lemma can_transition_stage:
  "can_transition_to s t \<Longrightarrow> deletion_stage s \<le> deletion_stage t"
  "can_transition_to s t \<Longrightarrow> 2 \<le> deletion_stage s \<Longrightarrow> s = Deleting \<and> t = Deleted"
  by (auto simp: can_transition_to_def split: org_status.splits)

lemma org_step_stage: "org_step a b \<Longrightarrow> deletion_stage (o_status a) \<le> deletion_stage (o_status b)"
  by (auto elim!: org_stepE simp: transition_to_def update_name_def can_transition_stage(1)
      split: if_splits)

lemma org_steps_stage:
  "org_step\<^sup>*\<^sup>* a b \<Longrightarrow> deletion_stage (o_status a) \<le> deletion_stage (o_status b)"
  by (induction rule: rtranclp_induct) (auto dest: org_step_stage)

lemma org_steps_identity: "org_step\<^sup>*\<^sup>* a b \<Longrightarrow> o_id b = o_id a \<and> o_created_at b = o_created_at a"
  by (induction rule: rtranclp_induct)
    (auto elim!: org_stepE simp: transition_to_def update_name_def split: if_splits)

lemma org_status_round_trip: "org_status_from_str s = Inr x \<longleftrightarrow> s = org_status_str x"
  by (cases x) (auto simp: org_status_from_str_def)

text \<open>
  C40. Deletion is irreversible: along any sequence of successful transitions and renames, an
  organization that is being deleted or is deleted never becomes a draft, active or suspended
  again, one that is deleted stays deleted, none returns to draft once it has left it, and the id
  and creation time never change.
\<close>

theorem org_deletion_irreversible:
  assumes "org_step\<^sup>*\<^sup>* org org'"
  shows "(o_status org \<in> {Deleting, Deleted} \<longrightarrow> o_status org' \<in> {Deleting, Deleted}) \<and>
         (o_status org = Deleted \<longrightarrow> o_status org' = Deleted) \<and>
         (o_status org \<noteq> Draft \<longrightarrow> o_status org' \<noteq> Draft) \<and>
         o_id org' = o_id org \<and> o_created_at org' = o_created_at org"
  using org_steps_stage [OF assms] org_steps_identity [OF assms]
  by (cases "o_status org"; cases "o_status org'") auto

theorem org_deletion_irreversible_witness:
  "o_status (update_name (organization_new (Segment ''acme'') ''Acme'' Deleting 0) ''Acme Inc'' 1)
     \<in> {Deleting, Deleted}"
  using org_deletion_irreversible [OF r_into_rtranclp [of org_step, OF org_step.rename],
      of "organization_new (Segment ''acme'') ''Acme'' Deleting 0" "''Acme Inc''" 1]
  by (simp add: organization_new_def)

end
