(* ===== verification/Authn_Core.thy ===== *)
theory Authn_Core
  imports Rust_Text Actions Json Org_Lifecycle
begin

text \<open>
  Identities, credentials and their resolution (\<open>crates/authn-core\<close>: \<open>identity.rs\<close>, \<open>credential.rs\<close>,
  \<open>error.rs\<close>, \<open>resolver.rs\<close>, \<open>chain.rs\<close>, \<open>static_api_key.rs\<close>), the header names
  (\<open>crates/core/src/headers.rs\<close>) and the extraction of a credential from request headers
  (\<open>crates/http/src/credential.rs\<close>). The locale \<open>identity_resolver\<close> is the contract of the
  \<open>IdentityResolver\<close> trait.
\<close>

section \<open>Header names\<close>

type_synonym headers = "(string \<times> string) list"

definition X_FG_PREFIX :: string where "X_FG_PREFIX = ''x-fg-''"
definition X_FG_USER_ID :: string where "X_FG_USER_ID = ''x-fg-user-id''"
definition X_FG_TENANT_ID :: string where "X_FG_TENANT_ID = ''x-fg-tenant-id''"
definition X_FG_GROUPS :: string where "X_FG_GROUPS = ''x-fg-groups''"
definition X_FG_AUTH_PROVIDER :: string where "X_FG_AUTH_PROVIDER = ''x-fg-auth-provider''"
definition X_FG_PRINCIPAL :: string where "X_FG_PRINCIPAL = ''x-fg-principal''"
definition X_FG_FEATURES :: string where "X_FG_FEATURES = ''x-fg-features''"
definition X_FG_CLIENT_IP :: string where "X_FG_CLIENT_IP = ''x-fg-client-ip''"
definition X_FG_ORG_ID :: string where "X_FG_ORG_ID = ''x-fg-org-id''"
definition X_FG_TRACE_ID :: string where "X_FG_TRACE_ID = ''x-fg-trace-id''"
definition X_FG_TIMESTAMP :: string where "X_FG_TIMESTAMP = ''x-fg-timestamp''"
definition X_FG_KEY_ID :: string where "X_FG_KEY_ID = ''x-fg-key-id''"
definition X_FG_SIGNATURE :: string where "X_FG_SIGNATURE = ''x-fg-signature''"
definition X_FG_SCOPE_PATH :: string where "X_FG_SCOPE_PATH = ''x-fg-scope-path''"
definition X_FG_ENTITLEMENTS :: string where "X_FG_ENTITLEMENTS = ''x-fg-entitlements''"
definition X_FG_REVISION :: string where "X_FG_REVISION = ''x-fg-revision''"

lemmas header_names =
  X_FG_PREFIX_def X_FG_USER_ID_def X_FG_TENANT_ID_def X_FG_GROUPS_def X_FG_AUTH_PROVIDER_def
  X_FG_PRINCIPAL_def X_FG_FEATURES_def X_FG_CLIENT_IP_def X_FG_ORG_ID_def X_FG_TRACE_ID_def
  X_FG_TIMESTAMP_def X_FG_KEY_ID_def X_FG_SIGNATURE_def X_FG_SCOPE_PATH_def X_FG_ENTITLEMENTS_def
  X_FG_REVISION_def

text \<open>The header lookup of \<open>credential.rs\<close> and of the resolvers: names compare without case.\<close>

definition find_header_ci :: "headers \<Rightarrow> string \<Rightarrow> string option" where
  "find_header_ci hs name = map_option snd (find (\<lambda>(k, _). eq_ignore_ascii_case k name) hs)"

section \<open>Identities\<close>

record 'n identity =
  id_user_id :: user_id
  id_tenant_id :: "tenant_id option"
  id_groups :: "group_name list"
  id_expiry :: "timestamp option"
  id_resolver :: string
  id_extra :: "'n json option"
  id_principal_kind :: principal_ref_kind

definition identity_is_expired :: "'n identity \<Rightarrow> timestamp \<Rightarrow> bool" where
  "identity_is_expired i now = (case id_expiry i of None \<Rightarrow> False | Some e \<Rightarrow> e < now)"

record 'n identity_builder =
  ib_user_id :: user_id
  ib_tenant_id :: "tenant_id option"
  ib_groups :: "group_name list"
  ib_expiry :: "timestamp option"
  ib_resolver :: string
  ib_extra :: "'n json option"
  ib_principal_kind :: principal_ref_kind

definition identity_builder_new :: "user_id \<Rightarrow> 'n identity_builder" where
  "identity_builder_new u =
     \<lparr>ib_user_id = u, ib_tenant_id = None, ib_groups = [], ib_expiry = None, ib_resolver = ''test'',
      ib_extra = None, ib_principal_kind = User\<rparr>"

definition identity_build :: "'n identity_builder \<Rightarrow> 'n identity" where
  "identity_build b =
     \<lparr>id_user_id = ib_user_id b, id_tenant_id = ib_tenant_id b, id_groups = ib_groups b,
      id_expiry = ib_expiry b, id_resolver = ib_resolver b, id_extra = ib_extra b,
      id_principal_kind = ib_principal_kind b\<rparr>"

section \<open>Credentials and errors\<close>

datatype credential =
    Bearer string
  | ApiKey string
  | SignedRequest (sr_key_id: string) (sr_timestamp: u64) (sr_signature: string) (sr_trace_id: string)
      (sr_identity_headers: headers)

fun credential_type_name :: "credential \<Rightarrow> string" where
  "credential_type_name (Bearer _) = ''bearer''"
| "credential_type_name (ApiKey _) = ''api-key''"
| "credential_type_name (SignedRequest _ _ _ _ _) = ''signed-request''"

text \<open>
  The errors of the crate. \<open>InvalidId\<close> is \<open>InvalidCredential\<close> or \<open>MalformedToken\<close> with a message that
  wraps an error of the core crate; the constructor keeps that error instead of the message.
\<close>

datatype authn_error =
    NoResolver string
  | TokenExpired
  | InvalidIssuer string string
  | InvalidAudience
  | MissingClaim string
  | MalformedToken string
  | InvalidCredential string
  | InvalidId string core_error
  | SignatureInvalid
  | TimestampDrift u64
  | InvalidKeyId
  | MissingOrgId

section \<open>Resolvers\<close>

record 'n resolver =
  rs_name :: string
  rs_can_resolve :: "credential \<Rightarrow> bool"
  rs_resolve :: "credential \<Rightarrow> (authn_error, 'n identity) result"

text \<open>
  What a resolver promises: it rejects a credential it does not claim to resolve, and an identity it
  returns is stamped with its name.
\<close>

locale identity_resolver =
  fixes r :: "'n resolver"
  assumes resolve_claims: "rs_resolve r c = Inr i \<Longrightarrow> rs_can_resolve r c"
    and resolve_stamps: "rs_resolve r c = Inr i \<Longrightarrow> id_resolver i = rs_name r"
begin

lemma unclaimed_rejected: "\<not> rs_can_resolve r c \<Longrightarrow> \<exists>e. rs_resolve r c = Inl e"
  using resolve_claims by (cases "rs_resolve r c") auto

end

fun chain_resolve :: "'n resolver list \<Rightarrow> credential \<Rightarrow> (authn_error, 'n identity) result" where
  "chain_resolve [] c = Inl (NoResolver (credential_type_name c))"
| "chain_resolve (r # rs) c = (if \<not> rs_can_resolve r c then chain_resolve rs c else rs_resolve r c)"

text \<open>The first resolver that claims the credential decides; later ones are not consulted.\<close>

lemma chain_resolve_first:
  "chain_resolve rs c =
     (case find (\<lambda>r. rs_can_resolve r c) rs of
        None \<Rightarrow> Inl (NoResolver (credential_type_name c))
      | Some r \<Rightarrow> rs_resolve r c)"
  by (induction rs) auto

lemma chain_resolve_stamped:
  assumes "\<forall>r \<in> set rs. identity_resolver r" "chain_resolve rs c = Inr i"
  shows "\<exists>r \<in> set rs. rs_can_resolve r c \<and> rs_resolve r c = Inr i \<and> id_resolver i = rs_name r"
  using assms identity_resolver.resolve_stamps
  by (fastforce simp: chain_resolve_first find_Some_iff split: option.splits)

section \<open>Static API keys\<close>

record api_key_entry =
  ak_user_id :: user_id
  ak_tenant_id :: "tenant_id option"
  ak_groups :: "group_name list"

fun api_key_resolve ::
    "(string, api_key_entry) hash_map \<Rightarrow> credential \<Rightarrow> (authn_error, 'n identity) result" where
  "api_key_resolve keys (ApiKey key) =
     (case map_of keys key of
        Some entry \<Rightarrow> Inr \<lparr>id_user_id = ak_user_id entry, id_tenant_id = ak_tenant_id entry,
          id_groups = ak_groups entry, id_expiry = None, id_resolver = ''static_api_key'',
          id_extra = None, id_principal_kind = User\<rparr>
      | None \<Rightarrow> Inl (InvalidCredential ''unknown API key''))"
| "api_key_resolve keys (Bearer _) = Inl (InvalidCredential ''expected ApiKey credential'')"
| "api_key_resolve keys (SignedRequest _ _ _ _ _) = Inl (InvalidCredential ''expected ApiKey credential'')"

definition static_api_key_resolver :: "(string, api_key_entry) hash_map \<Rightarrow> 'n resolver" where
  "static_api_key_resolver keys =
     \<lparr>rs_name = ''static_api_key'',
      rs_can_resolve = (\<lambda>c. case c of ApiKey _ \<Rightarrow> True | _ \<Rightarrow> False),
      rs_resolve = api_key_resolve keys\<rparr>"

interpretation api_key: identity_resolver "static_api_key_resolver keys" for keys
proof unfold_locales
  fix c and i :: "'n identity"
  assume "rs_resolve (static_api_key_resolver keys) c = Inr i"
  then show "rs_can_resolve (static_api_key_resolver keys :: 'n resolver) c"
    and "id_resolver i = rs_name (static_api_key_resolver keys :: 'n resolver)"
    by (cases c; auto simp: static_api_key_resolver_def split: option.splits)+
qed

section \<open>Extraction of a credential\<close>

definition SIGNED_REQUEST_HEADERS :: "string list" where
  "SIGNED_REQUEST_HEADERS = [X_FG_SIGNATURE, X_FG_TIMESTAMP, X_FG_KEY_ID, X_FG_TRACE_ID]"

definition is_protocol_header :: "string \<Rightarrow> bool" where
  "is_protocol_header name = list_ex (\<lambda>h. eq_ignore_ascii_case h name) SIGNED_REQUEST_HEADERS"

text \<open>
  The \<open>Authorization\<close> header. The slice \<open>trimmed[..7]\<close> panics, the outer \<open>None\<close>, when byte 7 is inside
  a character; when the prefix is the ASCII text \<open>bearer\<close>, the slice from 7 on is at a boundary.
\<close>

definition bearer_credential :: "headers \<Rightarrow> credential option option" where
  "bearer_credential hs =
     (case find_header_ci hs ''authorization'' of
        None \<Rightarrow> Some None
      | Some auth \<Rightarrow>
          (let trimmed = trim auth in
           if length trimmed > 7 then
             (case slice_to trimmed 7 of
                None \<Rightarrow> None
              | Some pre \<Rightarrow>
                  (let token = trim (drop 7 trimmed) in
                   if eq_ignore_ascii_case pre ''bearer '' \<and> token \<noteq> [] then Some (Some (Bearer token))
                   else Some None))
           else Some None))"

definition api_key_credential :: "headers \<Rightarrow> credential option" where
  "api_key_credential hs =
     (case find_header_ci hs ''x-api-key'' of
        None \<Rightarrow> None
      | Some key \<Rightarrow> (let trimmed = trim key in if trimmed \<noteq> [] then Some (ApiKey trimmed) else None))"

definition identity_headers_of :: "headers \<Rightarrow> headers" where
  "identity_headers_of hs =
     filter (\<lambda>(k, _). starts_with (to_ascii_lowercase k) X_FG_PREFIX \<and> \<not> is_protocol_header k) hs"

definition signed_credential :: "headers \<Rightarrow> credential option" where
  "signed_credential hs =
     Option.bind (find_header_ci hs X_FG_SIGNATURE) (\<lambda>sig.
     Option.bind (find_header_ci hs X_FG_TIMESTAMP) (\<lambda>ts.
     Option.bind (find_header_ci hs X_FG_KEY_ID) (\<lambda>key_id.
     Option.bind (find_header_ci hs X_FG_TRACE_ID) (\<lambda>trace_id.
     Option.bind (parse_u64 ts) (\<lambda>timestamp.
       Some (SignedRequest key_id timestamp sig trace_id (identity_headers_of hs)))))))"

definition extract_credential :: "headers \<Rightarrow> credential option option" where
  "extract_credential hs =
     (case bearer_credential hs of
        None \<Rightarrow> None
      | Some (Some c) \<Rightarrow> Some (Some c)
      | Some None \<Rightarrow>
          (case api_key_credential hs of
             Some c \<Rightarrow> Some (Some c)
           | None \<Rightarrow> Some (signed_credential hs)))"

text \<open>With ASCII header values, which is all the adapters let through, extraction does not panic.\<close>

lemma extract_credential_total:
  assumes "\<forall>(k, v) \<in> set hs. is_ascii v" shows "\<exists>c. extract_credential hs = Some c"
proof -
  have "\<exists>c. bearer_credential hs = Some c"
  proof (cases "find_header_ci hs ''authorization''")
    case (Some auth)
    then obtain k where "(k, auth) \<in> set hs"
      by (auto simp: find_header_ci_def find_Some_iff) (metis nth_mem)
    then have "is_ascii (trim auth)" using assms is_ascii_trim by fastforce
    then show ?thesis using Some
      by (auto simp: bearer_credential_def Let_def slice_to_ascii)
  qed (simp add: bearer_credential_def)
  then show ?thesis by (auto simp: extract_credential_def split: option.splits)
qed

text \<open>A panicking header: eight bytes, the seventh boundary inside a two-byte character.\<close>

lemma extract_credential_panics:
  "extract_credential [(''authorization'', ''Bearer'' @ [CHR 0xC3, CHR 0xA9])] = None"
  by code_simp

end
