(* ===== verification/Jwt_Authn.thy ===== *)
theory Jwt_Authn
  imports Authn_Core
begin

text \<open>
  Bearer tokens (\<open>crates/authn\<close>: \<open>config.rs\<close>, \<open>jwks.rs\<close>, \<open>claims.rs\<close>, \<open>resolver.rs\<close>; the claims of
  \<open>crates/authn-core/src/jwt_claims.rs\<close>). The JWT library, the construction of RSA keys, the HTTP
  fetch of the key set and the calendar are third-party: parameters of the definitions. The key cache
  is explicit state; one call of \<open>get_key\<close> is one step on it, reading the clock once before and once
  after the fetch.
\<close>

section \<open>Configuration and claims\<close>

record jwt_resolver_config =
  jr_jwks_url :: string
  jr_issuer :: string
  jr_audience :: "string option"
  jr_user_id_claim :: string
  jr_cache_ttl :: nat

definition jwt_resolver_config_new :: "string \<Rightarrow> string \<Rightarrow> jwt_resolver_config" where
  "jwt_resolver_config_new url issuer =
     \<lparr>jr_jwks_url = url, jr_issuer = issuer, jr_audience = None, jr_user_id_claim = ''sub'', jr_cache_ttl = 3600\<rparr>"

record 'n jwt_claims =
  jc_sub :: string
  jc_iss :: string
  jc_aud :: "string option"
  jc_exp :: u64
  jc_iat :: u64
  jc_token_use :: string
  jc_scope :: "string option"
  jc_custom_claims :: "(string, 'n json) hash_map"

datatype jwt_authn_error =
    AuthnCore authn_error
  | JwksFetch string
  | KeyNotFound string
  | JwtSignatureInvalid
  | TokenDecode string

section \<open>The key cache\<close>

record jwk =
  jwk_kty :: string
  jwk_kid :: "string option"
  jwk_n :: "string option"
  jwk_e :: "string option"

type_synonym cached_jwk = "string \<times> string"

record jwks_cache =
  jk_cache :: "(string, cached_jwk) hash_map"
  jk_last_fetch :: "nat option"

definition jwks_cache_new :: jwks_cache where
  "jwks_cache_new = \<lparr>jk_cache = [], jk_last_fetch = None\<rparr>"

definition jwks_is_expired :: "jwt_resolver_config \<Rightarrow> jwks_cache \<Rightarrow> nat \<Rightarrow> bool" where
  "jwks_is_expired cfg st now =
     (case jk_last_fetch st of Some instant \<Rightarrow> now - instant > jr_cache_ttl cfg | None \<Rightarrow> True)"

definition jwks_insert :: "(string, cached_jwk) hash_map \<Rightarrow> jwk \<Rightarrow> (string, cached_jwk) hash_map" where
  "jwks_insert cache key =
     (if jwk_kty key = ''RSA'' then
        (case (jwk_kid key, jwk_n key, jwk_e key) of
           (Some kid, Some n, Some e) \<Rightarrow> hm_insert kid (n, e) cache
         | _ \<Rightarrow> cache)
      else cache)"

definition fetch_jwks ::
    "(string, jwk list) result \<Rightarrow> nat \<Rightarrow> jwks_cache \<Rightarrow> (jwt_authn_error, unit) result \<times> jwks_cache" where
  "fetch_jwks response now st =
     (case response of
        Inl e \<Rightarrow> (Inl (JwksFetch e), st)
      | Inr keys \<Rightarrow> (Inr (), st\<lparr>jk_cache := foldl jwks_insert [] keys, jk_last_fetch := Some now\<rparr>))"

definition build_key :: "(string \<Rightarrow> string \<Rightarrow> (string, 'k) result) \<Rightarrow> cached_jwk \<Rightarrow> (jwt_authn_error, 'k) result" where
  "build_key from_rsa jwk =
     map_err (\<lambda>e. TokenDecode (''failed to build decoding key: '' @ e)) (from_rsa (fst jwk) (snd jwk))"

definition jwks_get_key ::
    "(string \<Rightarrow> string \<Rightarrow> (string, 'k) result) \<Rightarrow> jwt_resolver_config \<Rightarrow> (string, jwk list) result \<Rightarrow> nat \<Rightarrow> nat
      \<Rightarrow> string \<Rightarrow> jwks_cache \<Rightarrow> (jwt_authn_error, 'k) result \<times> jwks_cache" where
  "jwks_get_key from_rsa cfg response now now' kid st =
     (case (if \<not> jwks_is_expired cfg st now then map_of (jk_cache st) kid else None) of
        Some jwk \<Rightarrow> (build_key from_rsa jwk, st)
      | None \<Rightarrow>
          (case fetch_jwks response now' st of
             (Inl e, st') \<Rightarrow> (Inl e, st')
           | (Inr _, st') \<Rightarrow>
               (and_then (ok_or (map_of (jk_cache st') kid) (KeyNotFound kid)) (build_key from_rsa), st')))"

section \<open>Claims to identity\<close>

text \<open>\<open>from_timestamp\<close> is chrono's conversion, which fails outside its calendar range.\<close>

definition extract_user_id :: "'n jwt_claims \<Rightarrow> jwt_resolver_config \<Rightarrow> (jwt_authn_error, user_id) result" where
  "extract_user_id claims cfg =
     and_then
       (if jr_user_id_claim cfg = ''sub'' then Inr (jc_sub claims)
        else ok_or (Option.bind (map_of (jc_custom_claims claims) (jr_user_id_claim cfg)) json_as_str)
          (AuthnCore (MissingClaim (jr_user_id_claim cfg))))
       (\<lambda>raw. map_err (\<lambda>e. AuthnCore (InvalidId ''user_id'' e)) (typed_id_new raw))"

definition build_extra :: "'n jwt_claims \<Rightarrow> 'n json option" where
  "build_extra claims = (if jc_custom_claims claims = [] then None else Some (JObj (jc_custom_claims claims)))"

definition map_claims ::
    "(int \<Rightarrow> timestamp option) \<Rightarrow> 'n jwt_claims \<Rightarrow> jwt_resolver_config \<Rightarrow> (jwt_authn_error, 'n identity) result" where
  "map_claims from_timestamp claims cfg =
     and_then (extract_user_id claims cfg) (\<lambda>u.
     and_then (ok_or (from_timestamp (sint (jc_exp claims)))
         (AuthnCore (MalformedToken (''invalid exp timestamp: '' @ show_u64 (jc_exp claims))))) (\<lambda>expiry.
     Inr \<lparr>id_user_id = u, id_tenant_id = None, id_groups = [], id_expiry = Some expiry,
          id_resolver = ''cognito_jwt'', id_extra = build_extra claims, id_principal_kind = User\<rparr>))"

section \<open>Token verification\<close>

datatype jwt_error_kind =
    KInvalidSignature | KExpiredSignature | KInvalidIssuer | KInvalidAudience | KOther string

record validation =
  va_issuer :: string
  va_audience :: "string option"

record ('k, 'n) jwt_library =
  jl_decode_header :: "string \<Rightarrow> (string, string option) result"
  jl_decode :: "string \<Rightarrow> 'k \<Rightarrow> validation \<Rightarrow> (jwt_error_kind, 'n jwt_claims) result"

text \<open>The validation the code sets up: RS256, the configured issuer, and the audience when configured.\<close>

definition token_validation :: "jwt_resolver_config \<Rightarrow> validation" where
  "token_validation cfg = \<lparr>va_issuer = jr_issuer cfg, va_audience = jr_audience cfg\<rparr>"

fun decode_error :: "jwt_resolver_config \<Rightarrow> jwt_error_kind \<Rightarrow> jwt_authn_error" where
  "decode_error cfg KInvalidSignature = JwtSignatureInvalid"
| "decode_error cfg KExpiredSignature = AuthnCore TokenExpired"
| "decode_error cfg KInvalidIssuer = AuthnCore (InvalidIssuer (jr_issuer cfg) ''unknown'')"
| "decode_error cfg KInvalidAudience = AuthnCore InvalidAudience"
| "decode_error cfg (KOther e) = TokenDecode e"

definition decode_token ::
    "('k, 'n) jwt_library \<Rightarrow> string \<Rightarrow> 'k \<Rightarrow> jwt_resolver_config \<Rightarrow> (jwt_authn_error, 'n jwt_claims) result" where
  "decode_token lib token key cfg = map_err (decode_error cfg) (jl_decode lib token key (token_validation cfg))"

record ('k, 'n) jwt_env =
  je_lib :: "('k, 'n) jwt_library"
  je_from_rsa :: "string \<Rightarrow> string \<Rightarrow> (string, 'k) result"
  je_from_timestamp :: "int \<Rightarrow> timestamp option"
  je_response :: "(string, jwk list) result"
  je_now :: nat
  je_fetched_at :: nat

definition verify_token ::
    "('k, 'n) jwt_env \<Rightarrow> jwt_resolver_config \<Rightarrow> string \<Rightarrow> jwks_cache
      \<Rightarrow> (jwt_authn_error, 'n identity) result \<times> jwks_cache" where
  "verify_token env cfg token st =
     (case and_then (map_err (\<lambda>e. TokenDecode (''invalid JWT header: '' @ e)) (jl_decode_header (je_lib env) token))
         (\<lambda>kid. ok_or kid (TokenDecode (''JWT header missing '' @ quoted ''kid'' @ '' field''))) of
        Inl e \<Rightarrow> (Inl e, st)
      | Inr kid \<Rightarrow>
          (case jwks_get_key (je_from_rsa env) cfg (je_response env) (je_now env) (je_fetched_at env) kid st of
             (Inl e, st') \<Rightarrow> (Inl e, st')
           | (Inr key, st') \<Rightarrow>
               (and_then (decode_token (je_lib env) token key cfg) (\<lambda>claims.
                  map_claims (je_from_timestamp env) claims cfg), st')))"

fun to_authn_error :: "jwt_authn_error \<Rightarrow> authn_error" where
  "to_authn_error (AuthnCore e) = e"
| "to_authn_error (JwksFetch e) = MalformedToken (''JWKS fetch failed: '' @ e)"
| "to_authn_error (KeyNotFound k) = MalformedToken (''key not found in JWKS: '' @ k)"
| "to_authn_error JwtSignatureInvalid = MalformedToken ''invalid JWT signature''"
| "to_authn_error (TokenDecode e) = MalformedToken (''token decode error: '' @ e)"

text \<open>The resolver and the state of its cache after the call.\<close>

fun jwt_resolve ::
    "('k, 'n) jwt_env \<Rightarrow> jwt_resolver_config \<Rightarrow> jwks_cache \<Rightarrow> credential
      \<Rightarrow> (authn_error, 'n identity) result \<times> jwks_cache" where
  "jwt_resolve env cfg st (Bearer token) =
     (case verify_token env cfg token st of (r, st') \<Rightarrow> (map_err to_authn_error r, st'))"
| "jwt_resolve env cfg st c =
     (Inl (InvalidCredential (''expected Bearer credential, got '' @ credential_type_name c)), st)"

definition cognito_jwt_resolver :: "('k, 'n) jwt_env \<Rightarrow> jwt_resolver_config \<Rightarrow> jwks_cache \<Rightarrow> 'n resolver" where
  "cognito_jwt_resolver env cfg st =
     \<lparr>rs_name = ''cognito_jwt'',
      rs_can_resolve = (\<lambda>c. case c of Bearer _ \<Rightarrow> True | _ \<Rightarrow> False),
      rs_resolve = (\<lambda>c. fst (jwt_resolve env cfg st c))\<rparr>"

section \<open>Lemmas\<close>

lemma map_claims_Inr:
  assumes "map_claims ft claims cfg = Inr i"
  shows "id_resolver i = ''cognito_jwt''" "id_tenant_id i = None" "id_groups i = []" "id_principal_kind i = User"
    "id_expiry i = ft (sint (jc_exp claims))" "id_expiry i \<noteq> None" "extract_user_id claims cfg = Inr (id_user_id i)"
    "id_extra i = build_extra claims"
  using assms by (auto simp: map_claims_def)

lemma verify_token_Inr:
  assumes "verify_token env cfg token st = (Inr i, st')"
  shows "\<exists>kid key claims. jl_decode_header (je_lib env) token = Inr (Some kid) \<and>
     jwks_get_key (je_from_rsa env) cfg (je_response env) (je_now env) (je_fetched_at env) kid st = (Inr key, st') \<and>
     jl_decode (je_lib env) token key (token_validation cfg) = Inr claims \<and>
     map_claims (je_from_timestamp env) claims cfg = Inr i"
  using assms
  by (auto simp: verify_token_def decode_token_def and_then_def
      split: sum.splits prod.splits)

interpretation jwt: identity_resolver "cognito_jwt_resolver env cfg st" for env cfg st
proof unfold_locales
  fix c i
  assume "rs_resolve (cognito_jwt_resolver env cfg st) c = Inr i"
  then obtain token st' where "c = Bearer token" "verify_token env cfg token st = (Inr i, st')"
    by (cases c) (auto simp: cognito_jwt_resolver_def split: prod.splits)
  then show "rs_can_resolve (cognito_jwt_resolver env cfg st) c"
    and "id_resolver i = rs_name (cognito_jwt_resolver env cfg st)"
    using verify_token_Inr [of env cfg token st i st'] map_claims_Inr(1)
    by (auto simp: cognito_jwt_resolver_def)
qed

text \<open>The cache after a fetch holds exactly the complete RSA keys of the response, the last of each id.\<close>

lemma jwks_insert_lookup:
  "map_of (jwks_insert cache key) kid =
     (if jwk_kty key = ''RSA'' \<and> jwk_kid key = Some kid \<and> jwk_n key \<noteq> None \<and> jwk_e key \<noteq> None
      then Some (the (jwk_n key), the (jwk_e key)) else map_of cache kid)"
  by (auto simp: jwks_insert_def hm_insert_lookup split: option.splits)

lemma jwks_fold_sound:
  assumes "map_of (foldl jwks_insert cache keys) kid = Some (n, e)"
  shows "map_of cache kid = Some (n, e) \<or>
     (\<exists>key \<in> set keys. jwk_kty key = ''RSA'' \<and> jwk_kid key = Some kid \<and> jwk_n key = Some n \<and> jwk_e key = Some e)"
  using assms
  by (induction keys arbitrary: cache) (fastforce simp: jwks_insert_lookup split: if_splits)+

section \<open>Runs of the cache\<close>

text \<open>
  The states of the cache over time, with the successful fetches so far, latest first, and the clock.
  A call happens no earlier than the previous one, and a fetch completes no earlier than it starts.
\<close>

definition jwks_next :: "jwt_resolver_config \<Rightarrow> (string, jwk list) result \<Rightarrow> nat \<Rightarrow> nat \<Rightarrow> string \<Rightarrow> jwks_cache \<Rightarrow> jwks_cache" where
  "jwks_next cfg response now now' kid st =
     (if \<not> jwks_is_expired cfg st now \<and> hm_contains (jk_cache st) kid then st
      else snd (fetch_jwks response now' st))"

lemma jwks_get_key_next: "snd (jwks_get_key from_rsa cfg response now now' kid st) = jwks_next cfg response now now' kid st"
  by (auto simp: jwks_get_key_def jwks_next_def fetch_jwks_def hm_contains_def split: option.splits sum.splits)

inductive jwks_run :: "jwt_resolver_config \<Rightarrow> (nat \<times> jwk list) list \<Rightarrow> jwks_cache \<Rightarrow> nat \<Rightarrow> bool" for cfg where
  run_new: "jwks_run cfg [] jwks_cache_new 0"
| run_same: "jwks_run cfg hist st clock \<Longrightarrow> clock \<le> now \<Longrightarrow> now \<le> now' \<Longrightarrow>
    jwks_next cfg response now now' kid st = st \<Longrightarrow> jwks_run cfg hist st now'"
| run_fetch: "jwks_run cfg hist st clock \<Longrightarrow> clock \<le> now \<Longrightarrow> now \<le> now' \<Longrightarrow>
    jwks_next cfg (Inr keys) now now' kid st = st' \<Longrightarrow> st' \<noteq> st \<Longrightarrow>
    jwks_run cfg ((now', keys) # hist) st' now'"

definition cache_of :: "(nat \<times> jwk list) list \<Rightarrow> jwks_cache" where
  "cache_of hist = (case hist of [] \<Rightarrow> jwks_cache_new
     | (t, keys) # _ \<Rightarrow> \<lparr>jk_cache = foldl jwks_insert [] keys, jk_last_fetch = Some t\<rparr>)"

lemma jwks_run_cache: "jwks_run cfg hist st clock \<Longrightarrow> st = cache_of hist"
proof (induction rule: jwks_run.induct)
  case (run_fetch hist st clock now now' keys kid st')
  then show ?case by (auto simp: jwks_next_def fetch_jwks_def cache_of_def split: if_splits)
qed (simp_all add: cache_of_def)

text \<open>A key that is returned was published under its id, in a key set that is not older than the limit.\<close>

lemma jwks_get_key_fresh:
  assumes "jwks_run cfg hist st clock" "jwks_get_key from_rsa cfg response now now' kid st = (Inr key, st')"
  shows "\<exists>t keys jwk n e. (hist \<noteq> [] \<and> (t, keys) = hd hist \<and> now - t \<le> jr_cache_ttl cfg \<or> response = Inr keys \<and> t = now') \<and>
     jwk \<in> set keys \<and> jwk_kty jwk = ''RSA'' \<and> jwk_kid jwk = Some kid \<and> jwk_n jwk = Some n \<and> jwk_e jwk = Some e \<and>
     from_rsa n e = Inr key"
proof -
  have sound: "\<exists>jwk \<in> set keys. jwk_kty jwk = ''RSA'' \<and> jwk_kid jwk = Some kid \<and> jwk_n jwk = Some n \<and> jwk_e jwk = Some e"
    if "map_of (foldl jwks_insert [] keys) kid = Some (n, e)" for keys n e
    using jwks_fold_sound [OF that] by simp
  consider (hit) n e where "\<not> jwks_is_expired cfg st now" "map_of (jk_cache st) kid = Some (n, e)" "from_rsa n e = Inr key"
    | (fetch) keys n e where "response = Inr keys" "map_of (foldl jwks_insert [] keys) kid = Some (n, e)"
      "from_rsa n e = Inr key"
    using assms(2)
    by (auto simp: jwks_get_key_def fetch_jwks_def build_key_def split: option.splits sum.splits if_splits)
  then show ?thesis
  proof cases
    case hit
    obtain t keys h where h: "hist = (t, keys) # h"
      using hit(2) jwks_run_cache [OF assms(1)] by (cases hist) (auto simp: cache_of_def jwks_cache_new_def)
    then have st: "jk_cache st = foldl jwks_insert [] keys" "jk_last_fetch st = Some t"
      using jwks_run_cache [OF assms(1)] by (auto simp: cache_of_def)
    then have "now - t \<le> jr_cache_ttl cfg" using hit(1) by (simp add: jwks_is_expired_def)
    moreover have "hist \<noteq> [] \<and> (t, keys) = hd hist" using h by simp
    moreover note sound [of keys n e]
    ultimately show ?thesis using hit(2,3) st(1) by metis
  next
    case fetch
    then show ?thesis using sound [OF fetch(2)] by blast
  qed
qed

section \<open>Properties\<close>

text \<open>
  C24. A bearer token yields an identity only through a key the identity provider published. In every run
  of the key cache, if the resolver returns an identity then the token's key id names an RSA key of the
  key set fetched last, at most the cache lifetime ago, or of one fetched during the call; the JWT library
  decoded the token under that key with the configured issuer and audience; and the identity is the user
  of the configured claim, with the token's expiry, no tenant and no groups.
\<close>

theorem jwt_resolve_sound:
  assumes "jwks_run cfg hist st clock" "jwt_resolve env cfg st c = (Inr i, st')"
  shows "\<exists>token kid t keys jwk n e key claims. c = Bearer token \<and>
     jl_decode_header (je_lib env) token = Inr (Some kid) \<and>
     (hist \<noteq> [] \<and> (t, keys) = hd hist \<and> je_now env - t \<le> jr_cache_ttl cfg \<or> je_response env = Inr keys \<and> t = je_fetched_at env) \<and>
     jwk \<in> set keys \<and> jwk_kty jwk = ''RSA'' \<and> jwk_kid jwk = Some kid \<and> jwk_n jwk = Some n \<and> jwk_e jwk = Some e \<and>
     je_from_rsa env n e = Inr key \<and>
     jl_decode (je_lib env) token key \<lparr>va_issuer = jr_issuer cfg, va_audience = jr_audience cfg\<rparr> = Inr claims \<and>
     extract_user_id claims cfg = Inr (id_user_id i) \<and> id_expiry i = je_from_timestamp env (sint (jc_exp claims)) \<and>
     id_tenant_id i = None \<and> id_groups i = []"
proof -
  obtain token where c: "c = Bearer token" "verify_token env cfg token st = (Inr i, st')"
    using assms(2) by (cases c) (auto split: prod.splits)
  obtain kid key claims where v: "jl_decode_header (je_lib env) token = Inr (Some kid)"
      "jwks_get_key (je_from_rsa env) cfg (je_response env) (je_now env) (je_fetched_at env) kid st = (Inr key, st')"
      "jl_decode (je_lib env) token key (token_validation cfg) = Inr claims"
      "map_claims (je_from_timestamp env) claims cfg = Inr i"
    using verify_token_Inr [OF c(2)] by blast
  note i = map_claims_Inr [OF v(4)]
  from jwks_get_key_fresh [OF assms(1) v(2)] show ?thesis
    using c(1) v(1) v(3) [unfolded token_validation_def] i(2,3,5,7) by blast
qed

definition ex_claims :: "nat jwt_claims" where
  "ex_claims = \<lparr>jc_sub = ''alice'', jc_iss = ''idp'', jc_aud = None, jc_exp = 9, jc_iat = 1, jc_token_use = ''access'',
     jc_scope = None, jc_custom_claims = []\<rparr>"

definition ex_jwt_env :: "(string, nat) jwt_env" where
  "ex_jwt_env = \<lparr>je_lib = \<lparr>jl_decode_header = (\<lambda>_. Inr (Some ''k1'')), jl_decode = (\<lambda>_ _ _. Inr ex_claims)\<rparr>,
     je_from_rsa = (\<lambda>n _. Inr n), je_from_timestamp = Some,
     je_response = Inr [\<lparr>jwk_kty = ''RSA'', jwk_kid = Some ''k1'', jwk_n = Some ''n'', jwk_e = Some ''e''\<rparr>],
     je_now = 5, je_fetched_at = 6\<rparr>"

theorem jwt_resolve_sound_witness:
  "\<exists>i st. jwt_resolve ex_jwt_env (jwt_resolver_config_new ''u'' ''idp'') jwks_cache_new (Bearer ''tok'') = (Inr i, st) \<and>
     id_groups i = []"
proof -
  let ?r = "jwt_resolve ex_jwt_env (jwt_resolver_config_new ''u'' ''idp'') jwks_cache_new (Bearer ''tok'')"
  have "is_ok (fst ?r)" by code_simp
  then obtain i st where r: "?r = (Inr i, st)" by (cases ?r) (auto simp: is_ok_iff)
  from jwt_resolve_sound [OF run_new r] r show ?thesis by blast
qed

end
