(* ===== verification/Http_Routing.thy ===== *)
theory Http_Routing
  imports Rust_Text Feature_Flags
begin

text \<open>
  HTTP methods (\<open>crates/http/src/method.rs\<close>), the route matcher (\<open>route.rs\<close>) and the public-route
  matcher (\<open>public.rs\<close>). The radix tries are the third-party crate \<open>matchit\<close>: a parameter \<open>mi\<close> with
  the operations the code calls; \<open>matchit_laws\<close> states what its documentation promises. Which
  non-ASCII characters are alphanumeric is the parameter \<open>uni\<close> of \<open>normalize_pattern\<close>.
\<close>

section \<open>Methods\<close>

datatype http_method = Get | Post | Put | Patch | Delete | AnyMethod

definition http_method_matches :: "http_method \<Rightarrow> http_method \<Rightarrow> bool" where
  "http_method_matches a b \<longleftrightarrow>
     (case (a, b) of
        (AnyMethod, _) \<Rightarrow> True
      | (_, AnyMethod) \<Rightarrow> True
      | (Get, Get) \<Rightarrow> True
      | (Post, Post) \<Rightarrow> True
      | (Put, Put) \<Rightarrow> True
      | (Patch, Patch) \<Rightarrow> True
      | (Delete, Delete) \<Rightarrow> True
      | _ \<Rightarrow> False)"

text \<open>
  \<open>Error\<close> of \<open>crates/http\<close>. \<open>Error::Config\<close> carries a formatted message; it has one constructor per
  message here, with the values the message interpolates.
\<close>

datatype 'e http_error =
    UnknownMethod string
  | InvalidDefaultResourceId string core_error
  | RouteInsert http_method string 'e
  | PublicRouteInsert http_method string 'e
  | RouteNotFound
  | InvalidQuery string
  | HttpCore core_error

definition http_method_from_str :: "string \<Rightarrow> ('e http_error, http_method) result" where
  "http_method_from_str s =
     (let u = to_ascii_uppercase s in
      if u = ''GET'' then Inr Get
      else if u = ''POST'' then Inr Post
      else if u = ''PUT'' then Inr Put
      else if u = ''PATCH'' then Inr Patch
      else if u = ''DELETE'' then Inr Delete
      else if u = ''ANY'' \<or> u = ''*'' then Inr AnyMethod
      else Inl (UnknownMethod s))"

fun http_method_display :: "http_method \<Rightarrow> string" where
  "http_method_display Get = ''GET''"
| "http_method_display Post = ''POST''"
| "http_method_display Put = ''PUT''"
| "http_method_display Patch = ''PATCH''"
| "http_method_display Delete = ''DELETE''"
| "http_method_display AnyMethod = ''ANY''"

lemma http_method_parse_display [simp]: "http_method_from_str (http_method_display m) = Inr m"
proof -
  have "to_ascii_uppercase (http_method_display m) = http_method_display m" by (cases m; simp; code_simp)
  then show ?thesis by (cases m) (simp_all add: http_method_from_str_def)
qed

lemma http_method_matches_iff:
  "http_method_matches a b \<longleftrightarrow> a = b \<or> a = AnyMethod \<or> b = AnyMethod"
  by (cases a; cases b) (simp_all add: http_method_matches_def)

section \<open>Paths and patterns\<close>

definition normalize_path :: "string \<Rightarrow> string" where
  "normalize_path path =
     (if length path > 1 \<and> ends_with path ''/'' then take (length path - 1) path else path)"

definition is_alphanumeric :: "(string \<Rightarrow> bool) \<Rightarrow> string \<Rightarrow> bool" where
  "is_alphanumeric uni ch =
     (case ch of [c] \<Rightarrow> (if byte c < 0x80 then is_ascii_alphanumeric c else uni ch) | _ \<Rightarrow> uni ch)"

function normalize_chars :: "(string \<Rightarrow> bool) \<Rightarrow> string list \<Rightarrow> string" where
  "normalize_chars uni [] = []"
| "normalize_chars uni (ch # chars) =
     (if ch = '':'' then
        (let name = takeWhile (\<lambda>next. is_alphanumeric uni next \<or> next = ''_'') chars;
             rest = dropWhile (\<lambda>next. is_alphanumeric uni next \<or> next = ''_'') chars in
         (if name = [] then '':'' else ''{'' @ concat name @ ''}'') @ normalize_chars uni rest)
      else ch @ normalize_chars uni chars)"
  by pat_completeness auto
termination
  by (relation "measure (\<lambda>(uni, chars). length chars)") (auto simp: le_imp_less_Suc length_dropWhile_le)

definition normalize_pattern :: "(string \<Rightarrow> bool) \<Rightarrow> string \<Rightarrow> string" where
  "normalize_pattern uni pattern = normalize_chars uni (utf8_chars pattern)"

lemma normalize_chars_no_colon: "'':'' \<notin> set chars \<Longrightarrow> normalize_chars uni chars = concat chars"
  by (induction chars) auto

lemma colon_utf8_chars: "'':'' \<in> set (utf8_chars s) \<Longrightarrow> CHR '':'' \<in> set s"
  by (metis concat_utf8_chars in_set_conv_decomp set_concat UN_iff list.set_intros(1))

text \<open>A pattern without colons, in particular one that already uses braces, is left alone.\<close>

lemma normalize_pattern_no_colon: "CHR '':'' \<notin> set s \<Longrightarrow> normalize_pattern uni s = s"
  using normalize_chars_no_colon [of "utf8_chars s" uni] colon_utf8_chars
  by (auto simp: normalize_pattern_def)

section \<open>The trie library\<close>

record ('r, 'v, 'e) matchit =
  mi_new :: 'r
  mi_insert :: "'r \<Rightarrow> string \<Rightarrow> 'v \<Rightarrow> ('e, 'r) result"
  mi_at :: "'r \<Rightarrow> string \<Rightarrow> ('v \<times> (string \<times> string) list) option"

text \<open>
  What \<open>matchit\<close> documents: \<open>contents\<close> are the patterns inserted so far with their values, \<open>pmatch\<close>
  says whether a pattern matches a path and with which parameters. A lookup returns an inserted
  value whose pattern matches, with its parameters, and fails only when no inserted pattern matches.
\<close>

definition matchit_laws ::
    "('r, 'v, 'e) matchit \<Rightarrow> (string \<Rightarrow> string \<Rightarrow> (string \<times> string) list option)
      \<Rightarrow> ('r \<Rightarrow> (string \<times> 'v) list) \<Rightarrow> bool" where
  "matchit_laws mi pmatch contents \<longleftrightarrow>
     contents (mi_new mi) = [] \<and>
     (\<forall>r p v r'. mi_insert mi r p v = Inr r' \<longrightarrow> contents r' = contents r @ [(p, v)]) \<and>
     (\<forall>r path v ps. mi_at mi r path = Some (v, ps) \<longrightarrow>
        (\<exists>p. (p, v) \<in> set (contents r) \<and> pmatch p path = Some ps)) \<and>
     (\<forall>r path. mi_at mi r path = None \<longrightarrow> (\<forall>(p, v) \<in> set (contents r). pmatch p path = None))"

lemma matchit_lawsD:
  assumes "matchit_laws mi pmatch contents"
  shows "contents (mi_new mi) = []"
    "mi_insert mi r p v = Inr r' \<Longrightarrow> contents r' = contents r @ [(p, v)]"
    "mi_at mi r path = Some (v, ps) \<Longrightarrow> \<exists>p. (p, v) \<in> set (contents r) \<and> pmatch p path = Some ps"
    "mi_at mi r path = None \<Longrightarrow> (p, v) \<in> set (contents r) \<Longrightarrow> pmatch p path = None"
  using assms unfolding matchit_laws_def by blast+

section \<open>One trie per method\<close>

text \<open>The state both matchers have: a trie per concrete method and one for \<open>Any\<close>.\<close>

record 'r method_router =
  mr_routers :: "(http_method, 'r) hash_map"
  mr_any :: 'r

definition method_router_insert ::
    "('r, 'v, 'e) matchit \<Rightarrow> (string \<Rightarrow> bool) \<Rightarrow> 'r method_router \<Rightarrow> http_method \<Rightarrow> string \<Rightarrow> 'v
      \<Rightarrow> ('e, 'r method_router) result" where
  "method_router_insert mi uni R m path_pattern v =
     (let pattern = normalize_pattern uni (normalize_path path_pattern) in
      if m = AnyMethod then
        and_then (mi_insert mi (mr_any R) pattern v) (\<lambda>r. Inr (R\<lparr>mr_any := r\<rparr>))
      else
        (let router = (case map_of (mr_routers R) m of Some r \<Rightarrow> r | None \<Rightarrow> mi_new mi) in
         and_then (mi_insert mi router pattern v) (\<lambda>r.
           Inr (R\<lparr>mr_routers := hm_insert m r (mr_routers R)\<rparr>))))"

definition method_router_at ::
    "('r, 'v, 'e) matchit \<Rightarrow> 'r method_router \<Rightarrow> http_method \<Rightarrow> string \<Rightarrow> ('v \<times> (string \<times> string) list) option" where
  "method_router_at mi R m normalized =
     (case map_of (mr_routers R) m of
        Some router \<Rightarrow>
          (case mi_at mi router normalized of
             Some matched \<Rightarrow> Some matched
           | None \<Rightarrow> mi_at mi (mr_any R) normalized)
      | None \<Rightarrow> mi_at mi (mr_any R) normalized)"

section \<open>Routes\<close>

record route_mapping =
  rm_method :: http_method
  rm_path_pattern :: string
  rm_action :: qualified_action
  rm_resource_param :: "string option"
  rm_feature_gate :: "flag_name option"
  rm_resource_entity_type :: "string option"
  rm_default_resource_id :: "resource_id option"
  rm_resource_org_source :: resource_org_source

definition route_mapping_new ::
    "http_method \<Rightarrow> string \<Rightarrow> qualified_action \<Rightarrow> string option \<Rightarrow> flag_name option \<Rightarrow> route_mapping" where
  "route_mapping_new m path_pattern a resource_param feature_gate =
     \<lparr>rm_method = m, rm_path_pattern = path_pattern, rm_action = a, rm_resource_param = resource_param,
      rm_feature_gate = feature_gate, rm_resource_entity_type = None, rm_default_resource_id = None,
      rm_resource_org_source = RequestTenant\<rparr>"

definition with_resource_entity_type :: "route_mapping \<Rightarrow> string \<Rightarrow> route_mapping" where
  "with_resource_entity_type r t = r\<lparr>rm_resource_entity_type := Some t\<rparr>"

definition with_default_resource_id :: "route_mapping \<Rightarrow> string \<Rightarrow> ('e http_error, route_mapping) result" where
  "with_default_resource_id r i =
     and_then (map_err (InvalidDefaultResourceId i) (resource_id_parse i)) (\<lambda>rid.
       Inr (r\<lparr>rm_default_resource_id := Some rid\<rparr>))"

definition with_org_resource :: "route_mapping \<Rightarrow> route_mapping" where
  "with_org_resource r = r\<lparr>rm_resource_org_source := OwnId\<rparr>"

record matched_route =
  mt_action :: qualified_action
  mt_resource :: "resource_ref option"
  mt_path_params :: "(string, string) hash_map"
  mt_feature_gate :: "flag_name option"

record route_value =
  rv_action :: qualified_action
  rv_resource_param :: "string option"
  rv_feature_gate :: "flag_name option"
  rv_resource_entity_type :: "string option"
  rv_default_resource_id :: "resource_id option"
  rv_resource_org_source :: resource_org_source

definition route_value_of :: "route_mapping \<Rightarrow> route_value" where
  "route_value_of r =
     \<lparr>rv_action = rm_action r, rv_resource_param = rm_resource_param r, rv_feature_gate = rm_feature_gate r,
      rv_resource_entity_type = rm_resource_entity_type r, rv_default_resource_id = rm_default_resource_id r,
      rv_resource_org_source = rm_resource_org_source r\<rparr>"

fun route_matcher_insert ::
    "('r, route_value, 'e) matchit \<Rightarrow> (string \<Rightarrow> bool) \<Rightarrow> 'r method_router \<Rightarrow> route_mapping list
      \<Rightarrow> ('e http_error, 'r method_router) result" where
  "route_matcher_insert mi uni R [] = Inr R"
| "route_matcher_insert mi uni R (route # routes) =
     and_then (map_err (RouteInsert (rm_method route) (rm_path_pattern route))
         (method_router_insert mi uni R (rm_method route) (rm_path_pattern route) (route_value_of route)))
       (\<lambda>R'. route_matcher_insert mi uni R' routes)"

definition route_matcher_new ::
    "('r, route_value, 'e) matchit \<Rightarrow> (string \<Rightarrow> bool) \<Rightarrow> route_mapping list
      \<Rightarrow> ('e http_error, 'r method_router) result" where
  "route_matcher_new mi uni routes =
     route_matcher_insert mi uni \<lparr>mr_routers = [], mr_any = mi_new mi\<rparr> routes"

definition resolved_resource_id :: "route_value \<Rightarrow> (string, string) hash_map \<Rightarrow> resource_id option" where
  "resolved_resource_id value params =
     (case Option.bind (rv_resource_param value) (\<lambda>param_name.
        Option.bind (map_of params param_name) (\<lambda>id_str. to_ok (resource_id_parse id_str))) of
        Some rid \<Rightarrow> Some rid
      | None \<Rightarrow> rv_default_resource_id value)"

definition build_matched_route :: "route_value \<times> (string \<times> string) list \<Rightarrow> matched_route" where
  "build_matched_route matched =
     (let value = fst matched;
          params = foldl (\<lambda>m (k, v). hm_insert k v m) [] (snd matched);
          resource = map_option (\<lambda>rid.
            (let base = (case rv_resource_entity_type value of
                Some t \<Rightarrow> resource_ref_with_entity_type (rv_action value) rid t
              | None \<Rightarrow> resource_ref_from_route (rv_action value) rid) in
             case rv_resource_org_source value of
               OwnId \<Rightarrow> scoped_by_own_id base
             | RequestTenant \<Rightarrow> base)) (resolved_resource_id value params) in
      \<lparr>mt_action = rv_action value, mt_resource = resource, mt_path_params = params,
       mt_feature_gate = rv_feature_gate value\<rparr>)"

definition match_request ::
    "('r, route_value, 'e) matchit \<Rightarrow> 'r method_router \<Rightarrow> string \<Rightarrow> string \<Rightarrow> matched_route option" where
  "match_request mi R method_str path =
     (case (http_method_from_str method_str :: ('e http_error, http_method) result) of
        Inl _ \<Rightarrow> None
      | Inr m \<Rightarrow> map_option build_matched_route (method_router_at mi R m (normalize_path path)))"

section \<open>Public routes\<close>

datatype public_auth_mode = ModeAnonymous | ModeOpportunistic

record public_route =
  pr_method :: http_method
  pr_path_pattern :: string
  pr_auth_mode :: public_auth_mode

datatype public_match = NotPublic | Anonymous | Opportunistic

fun is_public :: "public_match \<Rightarrow> bool" where
  "is_public Anonymous = True"
| "is_public Opportunistic = True"
| "is_public NotPublic = False"

fun public_matcher_insert ::
    "('r, public_auth_mode, 'e) matchit \<Rightarrow> (string \<Rightarrow> bool) \<Rightarrow> 'r method_router \<Rightarrow> public_route list
      \<Rightarrow> ('e http_error, 'r method_router) result" where
  "public_matcher_insert mi uni R [] = Inr R"
| "public_matcher_insert mi uni R (route # routes) =
     and_then (map_err (PublicRouteInsert (pr_method route) (pr_path_pattern route))
         (method_router_insert mi uni R (pr_method route) (pr_path_pattern route) (pr_auth_mode route)))
       (\<lambda>R'. public_matcher_insert mi uni R' routes)"

definition public_matcher_new ::
    "('r, public_auth_mode, 'e) matchit \<Rightarrow> (string \<Rightarrow> bool) \<Rightarrow> public_route list
      \<Rightarrow> ('e http_error, 'r method_router) result" where
  "public_matcher_new mi uni routes =
     public_matcher_insert mi uni \<lparr>mr_routers = [], mr_any = mi_new mi\<rparr> routes"

fun public_match_of :: "public_auth_mode \<Rightarrow> public_match" where
  "public_match_of ModeAnonymous = Anonymous"
| "public_match_of ModeOpportunistic = Opportunistic"

definition public_check ::
    "('r, public_auth_mode, 'e) matchit \<Rightarrow> 'r method_router \<Rightarrow> string \<Rightarrow> string \<Rightarrow> public_match" where
  "public_check mi R method_str path =
     (case (http_method_from_str method_str :: ('e http_error, http_method) result) of
        Inl _ \<Rightarrow> NotPublic
      | Inr m \<Rightarrow>
          (case method_router_at mi R m (normalize_path path) of
             Some (mode, _) \<Rightarrow> public_match_of mode
           | None \<Rightarrow> NotPublic))"

section \<open>What a lookup finds\<close>

text \<open>
  The contents of a pair of tries against the list of what was inserted: entries are a method, a
  path pattern and a value.
\<close>

type_synonym 'v entry = "http_method \<times> string \<times> 'v"

definition entry_pattern :: "(string \<Rightarrow> bool) \<Rightarrow> 'v entry \<Rightarrow> string" where
  "entry_pattern uni e = normalize_pattern uni (normalize_path (fst (snd e)))"

definition entries_for :: "(string \<Rightarrow> bool) \<Rightarrow> http_method \<Rightarrow> 'v entry list \<Rightarrow> (string \<times> 'v) list" where
  "entries_for uni m es = map (\<lambda>e. (entry_pattern uni e, snd (snd e))) (filter (\<lambda>e. fst e = m) es)"

definition router_holds ::
    "('r \<Rightarrow> (string \<times> 'v) list) \<Rightarrow> (string \<Rightarrow> bool) \<Rightarrow> 'r method_router \<Rightarrow> 'v entry list \<Rightarrow> bool" where
  "router_holds contents uni R es \<longleftrightarrow>
     contents (mr_any R) = entries_for uni AnyMethod es \<and> map_of (mr_routers R) AnyMethod = None \<and>
     (\<forall>m. m \<noteq> AnyMethod \<longrightarrow>
        (case map_of (mr_routers R) m of None \<Rightarrow> [] | Some r \<Rightarrow> contents r) = entries_for uni m es)"

lemma router_holdsD:
  assumes "router_holds contents uni R es"
  shows "contents (mr_any R) = entries_for uni AnyMethod es"
    "map_of (mr_routers R) m = Some r \<Longrightarrow> m \<noteq> AnyMethod"
    "map_of (mr_routers R) m = Some r \<Longrightarrow> contents r = entries_for uni m es"
    "map_of (mr_routers R) m = None \<Longrightarrow> m \<noteq> AnyMethod \<Longrightarrow> entries_for uni m es = []"
proof -
  note R = assms [unfolded router_holds_def]
  show "contents (mr_any R) = entries_for uni AnyMethod es" using R by blast
  show ne: "map_of (mr_routers R) m = Some r \<Longrightarrow> m \<noteq> AnyMethod" using R by auto
  show "map_of (mr_routers R) m = Some r \<Longrightarrow> contents r = entries_for uni m es"
    using R [THEN conjunct2, THEN conjunct2, rule_format, of m] ne by simp
  show "map_of (mr_routers R) m = None \<Longrightarrow> m \<noteq> AnyMethod \<Longrightarrow> entries_for uni m es = []"
    using R [THEN conjunct2, THEN conjunct2, rule_format, of m] by simp
qed

lemma entries_for_snoc:
  "entries_for uni m (es @ [e]) =
     entries_for uni m es @ (if fst e = m then [(entry_pattern uni e, snd (snd e))] else [])"
  by (simp add: entries_for_def)

lemma router_holds_insert:
  assumes laws: "matchit_laws mi pmatch contents" and R: "router_holds contents uni R es"
    and ins: "method_router_insert mi uni R m p v = Inr R'"
  shows "router_holds contents uni R' (es @ [(m, p, v)])"
proof (cases "m = AnyMethod")
  case True
  then show ?thesis using R ins matchit_lawsD(2) [OF laws]
    by (auto simp: router_holds_def method_router_insert_def entries_for_snoc entry_pattern_def)
next
  case False
  let ?r = "case map_of (mr_routers R) m of Some r \<Rightarrow> r | None \<Rightarrow> mi_new mi"
  obtain r' where r': "mi_insert mi ?r (normalize_pattern uni (normalize_path p)) v = Inr r'"
      and R': "R' = R\<lparr>mr_routers := hm_insert m r' (mr_routers R)\<rparr>"
    using ins False by (auto simp: method_router_insert_def Let_def)
  have "contents ?r = entries_for uni m es"
    using router_holdsD(3,4) [OF R, of m] False matchit_lawsD(1) [OF laws]
    by (cases "map_of (mr_routers R) m") simp_all
  then have "contents r' = entries_for uni m (es @ [(m, p, v)])"
    using matchit_lawsD(2) [OF laws r'] by (simp add: entries_for_snoc entry_pattern_def)
  then show ?thesis using R False
    by (auto simp: router_holds_def R' hm_insert_lookup entries_for_snoc)
qed

lemma method_router_at_sound:
  assumes "matchit_laws mi pmatch contents" "router_holds contents uni R es"
    "method_router_at mi R m path = Some (v, ps)"
  shows "\<exists>e \<in> set es. snd (snd e) = v \<and> pmatch (entry_pattern uni e) path = Some ps \<and>
     (fst e = m \<or> fst e = AnyMethod \<and> (\<forall>e' \<in> set es. fst e' = m \<longrightarrow> m = AnyMethod \<or> pmatch (entry_pattern uni e') path = None))"
proof -
  note R = router_holdsD [OF assms(2)]
  consider (specific) router where "map_of (mr_routers R) m = Some router"
      "mi_at mi router path = Some (v, ps)"
    | (any) "mi_at mi (mr_any R) path = Some (v, ps)"
      "\<And>router. map_of (mr_routers R) m = Some router \<Longrightarrow> mi_at mi router path = None"
    using assms(3) by (auto simp: method_router_at_def split: option.splits)
  then show ?thesis
  proof cases
    case specific
    then show ?thesis using matchit_lawsD(3) [OF assms(1) specific(2)] R(3) [OF specific(1)]
      by (auto simp: entries_for_def)
  next
    case any
    have none: "pmatch (entry_pattern uni e') path = None"
      if e': "e' \<in> set es" "fst e' = m" "m \<noteq> AnyMethod" for e'
    proof -
      have "(entry_pattern uni e', snd (snd e')) \<in> set (entries_for uni m es)"
        using e' by (auto simp: entries_for_def)
      then obtain router where "map_of (mr_routers R) m = Some router"
          "(entry_pattern uni e', snd (snd e')) \<in> set (contents router)"
        using R(3,4) [of m] e'(3) by (cases "map_of (mr_routers R) m") auto
      then show ?thesis using any(2) matchit_lawsD(4) [OF assms(1)] by blast
    qed
    obtain p where "(p, v) \<in> set (entries_for uni AnyMethod es)" "pmatch p path = Some ps"
      using matchit_lawsD(3) [OF assms(1) any(1)] R(1) by auto
    then show ?thesis using none by (auto simp: entries_for_def)
  qed
qed

lemma method_router_at_None:
  assumes "matchit_laws mi pmatch contents" "router_holds contents uni R es"
    "method_router_at mi R m path = None" "e \<in> set es" "http_method_matches (fst e) m" "m \<noteq> AnyMethod"
  shows "pmatch (entry_pattern uni e) path = None"
proof -
  have any: "mi_at mi (mr_any R) path = None"
    and spec: "\<And>router. map_of (mr_routers R) m = Some router \<Longrightarrow> mi_at mi router path = None"
    using assms(3) by (auto simp: method_router_at_def split: option.splits)
  note R = router_holdsD [OF assms(2)]
  have e: "(entry_pattern uni e, snd (snd e)) \<in> set (entries_for uni (fst e) es)"
    using assms(4) by (auto simp: entries_for_def)
  consider "fst e = AnyMethod" | "fst e = m" using assms(5,6) by (auto simp: http_method_matches_iff)
  then show ?thesis
  proof cases
    case 1
    then show ?thesis using e R(1) matchit_lawsD(4) [OF assms(1) any] by metis
  next
    case 2
    then obtain router where "map_of (mr_routers R) m = Some router"
      using e R(4) [of m] assms(6) by (cases "map_of (mr_routers R) m") auto
    then show ?thesis using e 2 R(3) spec matchit_lawsD(4) [OF assms(1)] by metis
  qed
qed

definition route_entry :: "route_mapping \<Rightarrow> route_value entry" where
  "route_entry r = (rm_method r, rm_path_pattern r, route_value_of r)"

definition public_entry :: "public_route \<Rightarrow> public_auth_mode entry" where
  "public_entry r = (pr_method r, pr_path_pattern r, pr_auth_mode r)"

lemma router_holds_empty:
  "matchit_laws mi pmatch contents \<Longrightarrow> router_holds contents uni \<lparr>mr_routers = [], mr_any = mi_new mi\<rparr> []"
  using matchit_lawsD(1) by (auto simp: router_holds_def entries_for_def)

lemma route_matcher_insert_holds:
  assumes laws: "matchit_laws mi pmatch contents"
  shows "router_holds contents uni R es \<Longrightarrow> route_matcher_insert mi uni R routes = Inr R' \<Longrightarrow>
    router_holds contents uni R' (es @ map route_entry routes)"
proof (induction routes arbitrary: R es)
  case (Cons r routes)
  obtain R1 where R1: "method_router_insert mi uni R (rm_method r) (rm_path_pattern r) (route_value_of r) = Inr R1"
      "route_matcher_insert mi uni R1 routes = Inr R'"
    using Cons.prems(2) by (auto simp: map_err_def split: sum.splits)
  then have "router_holds contents uni R1 (es @ [route_entry r])"
    using router_holds_insert [OF laws Cons.prems(1)] by (simp add: route_entry_def)
  from Cons.IH [OF this R1(2)] show ?case by simp
qed simp

lemma public_matcher_insert_holds:
  assumes laws: "matchit_laws mi pmatch contents"
  shows "router_holds contents uni R es \<Longrightarrow> public_matcher_insert mi uni R routes = Inr R' \<Longrightarrow>
    router_holds contents uni R' (es @ map public_entry routes)"
proof (induction routes arbitrary: R es)
  case (Cons r routes)
  obtain R1 where R1: "method_router_insert mi uni R (pr_method r) (pr_path_pattern r) (pr_auth_mode r) = Inr R1"
      "public_matcher_insert mi uni R1 routes = Inr R'"
    using Cons.prems(2) by (auto simp: map_err_def split: sum.splits)
  then have "router_holds contents uni R1 (es @ [public_entry r])"
    using router_holds_insert [OF laws Cons.prems(1)] by (simp add: public_entry_def)
  from Cons.IH [OF this R1(2)] show ?case by simp
qed simp

lemma route_matcher_holds:
  assumes "matchit_laws mi pmatch contents" "route_matcher_new mi uni routes = Inr R"
  shows "router_holds contents uni R (map route_entry routes)"
  using route_matcher_insert_holds [OF assms(1) router_holds_empty [OF assms(1)]] assms(2)
  by (simp add: route_matcher_new_def)

lemma public_matcher_holds:
  assumes "matchit_laws mi pmatch contents" "public_matcher_new mi uni routes = Inr R"
  shows "router_holds contents uni R (map public_entry routes)"
  using public_matcher_insert_holds [OF assms(1) router_holds_empty [OF assms(1)]] assms(2)
  by (simp add: public_matcher_new_def)

section \<open>Properties\<close>

text \<open>An instance of the trie interface for the witnesses: exact matching on a list.\<close>

definition exact_matchit :: "((string \<times> 'v) list, 'v, unit) matchit" where
  "exact_matchit =
     \<lparr>mi_new = [],
      mi_insert = (\<lambda>r p v. if p \<in> set (map fst r) then Inl () else Inr (r @ [(p, v)])),
      mi_at = (\<lambda>r path. map_option (\<lambda>v. (v, [])) (map_of r path))\<rparr>"

definition exact_pmatch :: "string \<Rightarrow> string \<Rightarrow> (string \<times> string) list option" where
  "exact_pmatch p path = (if p = path then Some [] else None)"

lemma exact_matchit_laws: "matchit_laws exact_matchit exact_pmatch (\<lambda>r. r)"
  by (auto simp: matchit_laws_def exact_matchit_def exact_pmatch_def map_of_eq_None_iff dest: map_of_SomeD
      split: if_splits intro: rev_image_eqI)

text \<open>
  C23. The route matcher finds a route exactly when a configured route applies. A match comes from a
  configured route of the request's method or of \<open>Any\<close> whose normalised pattern matches the
  normalised path, and carries that route's action and feature gate; an \<open>Any\<close> route is chosen only
  when no route of the request's own method matches. If nothing is found for a concrete method, no
  route of that method or of \<open>Any\<close> matches.
\<close>

theorem match_request_correct:
  assumes "matchit_laws mi pmatch contents" "route_matcher_new mi uni routes = Inr R"
    "http_method_from_str method_str = (Inr m :: ('e http_error, http_method) result)" "m \<noteq> AnyMethod"
  shows "case match_request (mi :: ('r, route_value, 'e) matchit) R method_str path of
      Some mt \<Rightarrow>
        (\<exists>r \<in> set routes. \<exists>ps. mt_action mt = rm_action r \<and> mt_feature_gate mt = rm_feature_gate r \<and>
           pmatch (entry_pattern uni (route_entry r)) (normalize_path path) = Some ps \<and>
           (rm_method r = m \<or>
            rm_method r = AnyMethod \<and>
              (\<forall>r' \<in> set routes. rm_method r' = m \<longrightarrow>
                 pmatch (entry_pattern uni (route_entry r')) (normalize_path path) = None)))
    | None \<Rightarrow>
        (\<forall>r \<in> set routes. http_method_matches (rm_method r) m \<longrightarrow>
           pmatch (entry_pattern uni (route_entry r)) (normalize_path path) = None)"
proof -
  note holds = route_matcher_holds [OF assms(1,2)]
  show ?thesis
  proof (cases "method_router_at mi R m (normalize_path path)")
    case None
    then show ?thesis using method_router_at_None [OF assms(1) holds None] assms(3,4)
      by (simp add: match_request_def route_entry_def)
  next
    case (Some x)
    then obtain v ps where x: "x = (v, ps)" by (cases x) auto
    from method_router_at_sound [OF assms(1) holds Some [unfolded x]] obtain r where r: "r \<in> set routes"
        "route_value_of r = v" "pmatch (entry_pattern uni (route_entry r)) (normalize_path path) = Some ps"
        "rm_method r = m \<or> rm_method r = AnyMethod \<and> (\<forall>r' \<in> set routes. rm_method r' = m \<longrightarrow>
           m = AnyMethod \<or> pmatch (entry_pattern uni (route_entry r')) (normalize_path path) = None)"
      by (auto simp: route_entry_def)
    have "mt_action (build_matched_route x) = rm_action r" "mt_feature_gate (build_matched_route x) = rm_feature_gate r"
      using r(2) by (auto simp: x build_matched_route_def route_value_of_def Let_def)
    then show ?thesis using r assms(3,4) Some by (auto simp: match_request_def)
  qed
qed

definition ex_action :: qualified_action where
  "ex_action = \<lparr>qa_namespace = UserNs (Segment ''todo''), qa_action = Action (Segment ''read''),
     qa_entity = Entity (Segment ''list'')\<rparr>"

definition ex_routes :: "route_mapping list" where
  "ex_routes = [route_mapping_new Get ''/lists/'' ex_action None None]"

theorem match_request_correct_witness:
  "\<exists>R mt. route_matcher_new exact_matchit (\<lambda>_. False) ex_routes = Inr R \<and>
     match_request exact_matchit R ''get'' ''/lists'' = Some mt \<and> mt_action mt = ex_action"
proof -
  have new: "route_matcher_new exact_matchit (\<lambda>_. False) ex_routes =
      Inr \<lparr>mr_routers = [(Get, [(''/lists'', route_value_of (hd ex_routes))])], mr_any = []\<rparr>"
    by code_simp
  have get: "http_method_from_str ''get'' = (Inr Get :: (unit http_error, http_method) result)" by code_simp
  let ?R = "\<lparr>mr_routers = [(Get, [(''/lists'', route_value_of (hd ex_routes))])], mr_any = []\<rparr>"
  have some: "\<exists>mt. match_request exact_matchit ?R ''get'' ''/lists'' = Some mt"
    by (simp add: match_request_def get method_router_at_def exact_matchit_def normalize_path_def ends_with_def)
  then show ?thesis
    using match_request_correct [OF exact_matchit_laws new get, of "''/lists''"] new
    by (auto simp: ex_routes_def route_mapping_new_def)
qed

end
