(* ===== verification/Signing.thy ===== *)
theory Signing
  imports Authn_Core Feature_Flags
begin

text \<open>
  Request signing (\<open>crates/authn-core/src/signing.rs\<close>, \<open>signing_key_store.rs\<close>), the resolver that
  verifies signed requests (\<open>crates/authn/src/ed25519_resolver.rs\<close>), the identity headers a proxy
  injects (\<open>crates/http/src/headers.rs\<close>) and the signing client of the developer tool
  (\<open>xtask/src/signing.rs\<close>, \<open>control_plane/curl.rs\<close>). Ed25519 and base64 are third-party crates: the
  parameter \<open>cr\<close>, with the laws of \<open>crypto_laws\<close>.
\<close>

section \<open>Cryptography\<close>

record ('sk, 'vk, 'sig) crypto =
  ed_public :: "'sk \<Rightarrow> 'vk"
  ed_sign :: "'sk \<Rightarrow> string \<Rightarrow> 'sig"
  ed_verify :: "'vk \<Rightarrow> string \<Rightarrow> 'sig \<Rightarrow> bool"
  sig_to_bytes :: "'sig \<Rightarrow> string"
  sig_from_bytes :: "string \<Rightarrow> 'sig"
  b64_encode :: "string \<Rightarrow> string"
  b64_decode :: "string \<Rightarrow> (string, string) result"

text \<open>
  A signature made with a key verifies under its public key; a signature is 64 bytes and is read back
  from them; base64 decoding inverts encoding.
\<close>

definition crypto_laws :: "('sk, 'vk, 'sig) crypto \<Rightarrow> bool" where
  "crypto_laws cr \<longleftrightarrow>
     (\<forall>k m. ed_verify cr (ed_public cr k) m (ed_sign cr k m)) \<and>
     (\<forall>s. length (sig_to_bytes cr s) = 64 \<and> sig_from_bytes cr (sig_to_bytes cr s) = s) \<and>
     (\<forall>b. b64_decode cr (b64_encode cr b) = Inr b)"

section \<open>Key ids, timestamps and the canonical payload\<close>

datatype key_id = KeyId (key_id_str: string)

definition key_id_try_from :: "string \<Rightarrow> (authn_error, key_id) result" where
  "key_id_try_from s = (if s = [] then Inl InvalidKeyId else Inr (KeyId s))"

definition canonical_line :: "string \<times> string \<Rightarrow> string" where
  "canonical_line h = fst h @ '':'' @ snd h @ nl"

definition canonical_payload :: "string \<Rightarrow> u64 \<Rightarrow> headers \<Rightarrow> string" where
  "canonical_payload trace_id timestamp hs =
     ''forgeguard-sig-v1'' @ nl @
     ''trace-id:'' @ trace_id @ nl @
     ''timestamp:'' @ show_u64 timestamp @ nl @
     concat (map canonical_line (sort_key fst hs))"

record 'sig signed_payload =
  sp_key_id :: key_id
  sp_signature :: 'sig
  sp_timestamp :: u64
  sp_trace_id :: string

definition sign :: "('sk, 'vk, 'sig) crypto \<Rightarrow> 'sk \<Rightarrow> key_id \<Rightarrow> string \<Rightarrow> u64 \<Rightarrow> string \<Rightarrow> 'sig signed_payload" where
  "sign cr key kid payload timestamp trace_id =
     \<lparr>sp_key_id = kid, sp_signature = ed_sign cr key payload, sp_timestamp = timestamp, sp_trace_id = trace_id\<rparr>"

definition signature_header_value :: "('sk, 'vk, 'sig) crypto \<Rightarrow> 'sig signed_payload \<Rightarrow> string" where
  "signature_header_value cr p = ''v1:'' @ b64_encode cr (sig_to_bytes cr (sp_signature p))"

definition timestamp_header_value :: "'sig signed_payload \<Rightarrow> string" where
  "timestamp_header_value p = show_u64 (sp_timestamp p)"

definition key_id_header_value :: "'sig signed_payload \<Rightarrow> string" where
  "key_id_header_value p = key_id_str (sp_key_id p)"

definition sig_verify :: "('sk, 'vk, 'sig) crypto \<Rightarrow> 'vk \<Rightarrow> string \<Rightarrow> 'sig \<Rightarrow> (authn_error, unit) result" where
  "sig_verify cr key payload sig = (if ed_verify cr key payload sig then Inr () else Inl SignatureInvalid)"

definition parse_signature_header :: "('sk, 'vk, 'sig) crypto \<Rightarrow> string \<Rightarrow> (authn_error, 'sig) result" where
  "parse_signature_header cr value =
     and_then (ok_or (strip_prefix ''v1:'' value)
         (InvalidCredential (''signature header must start with '' @ quoted ''v1:''))) (\<lambda>b64.
     and_then (map_err (\<lambda>e. InvalidCredential (''invalid base64 in signature: '' @ e)) (b64_decode cr b64)) (\<lambda>bytes.
     if length bytes \<noteq> 64 then Inl (InvalidCredential ''signature must be 64 bytes'')
     else Inr (sig_from_bytes cr bytes)))"

text \<open>The drift check: \<open>abs_diff\<close> of two \<open>u64\<close> against the limit in milliseconds.\<close>

definition u64_abs_diff :: "u64 \<Rightarrow> u64 \<Rightarrow> u64" where
  "u64_abs_diff a b = (if b \<le> a then a - b else b - a)"

definition timestamp_check :: "nat \<Rightarrow> u64 \<Rightarrow> u64 \<Rightarrow> (authn_error, unit) result" where
  "timestamp_check max_drift_ms request_ts now =
     (let drift_ms = of_nat max_drift_ms; diff = u64_abs_diff request_ts now in
      if drift_ms < diff then Inl (TimestampDrift diff) else Inr ())"

definition DEFAULT_MAX_DRIFT :: nat where "DEFAULT_MAX_DRIFT = 300 * 1000"

section \<open>Key stores\<close>

type_synonym 'vk key_store = "string \<Rightarrow> string \<Rightarrow> (authn_error, 'vk) result"

definition in_memory_get_key :: "(string \<times> string, 'vk) hash_map \<Rightarrow> 'vk key_store" where
  "in_memory_get_key keys org_id key_id =
     ok_or (map_of keys (org_id, key_id))
       (InvalidCredential (''no active key '' @ quoted key_id @ '' for org '' @ quoted org_id))"

section \<open>The signed-request resolver\<close>

definition signed_org_id :: "headers \<Rightarrow> (authn_error, string) result" where
  "signed_org_id hs = ok_or (find_header_ci hs X_FG_ORG_ID) MissingOrgId"

definition verify_signed_request ::
    "('sk, 'vk, 'sig) crypto \<Rightarrow> 'vk key_store \<Rightarrow> nat \<Rightarrow> u64 \<Rightarrow> string \<Rightarrow> u64 \<Rightarrow> string \<Rightarrow> string \<Rightarrow> headers
      \<Rightarrow> (authn_error, 'n identity) result" where
  "verify_signed_request cr get_key max_drift_ms now key_id timestamp signature trace_id hs =
     and_then (signed_org_id hs) (\<lambda>org_id.
     and_then (get_key org_id key_id) (\<lambda>public_key.
     and_then (parse_signature_header cr signature) (\<lambda>parsed_sig.
     and_then (sig_verify cr public_key (canonical_payload trace_id timestamp hs) parsed_sig) (\<lambda>_.
     and_then (timestamp_check max_drift_ms timestamp now) (\<lambda>_.
     and_then (map_err (InvalidId ''key_id'') (typed_id_new key_id)) (\<lambda>u.
     and_then (map_err (InvalidId ''org_id'') (typed_id_new org_id)) (\<lambda>t.
     Inr \<lparr>id_user_id = u, id_tenant_id = Some t, id_groups = [], id_expiry = None,
          id_resolver = ''ed25519'', id_extra = None, id_principal_kind = Machine\<rparr>)))))))"

fun ed25519_resolve ::
    "('sk, 'vk, 'sig) crypto \<Rightarrow> 'vk key_store \<Rightarrow> nat \<Rightarrow> u64 \<Rightarrow> credential \<Rightarrow> (authn_error, 'n identity) result" where
  "ed25519_resolve cr get_key drift now (SignedRequest key_id timestamp signature trace_id hs) =
     verify_signed_request cr get_key drift now key_id timestamp signature trace_id hs"
| "ed25519_resolve cr get_key drift now c =
     Inl (InvalidCredential (''expected SignedRequest credential, got '' @ credential_type_name c))"

definition ed25519_resolver ::
    "('sk, 'vk, 'sig) crypto \<Rightarrow> 'vk key_store \<Rightarrow> nat \<Rightarrow> u64 \<Rightarrow> 'n resolver" where
  "ed25519_resolver cr get_key drift now =
     \<lparr>rs_name = ''ed25519'',
      rs_can_resolve = (\<lambda>c. case c of SignedRequest _ _ _ _ _ \<Rightarrow> True | _ \<Rightarrow> False),
      rs_resolve = ed25519_resolve cr get_key drift now\<rparr>"

interpretation ed25519: identity_resolver "ed25519_resolver cr get_key drift now" for cr get_key drift now
proof unfold_locales
  fix c and i :: "'n identity"
  assume "rs_resolve (ed25519_resolver cr get_key drift now) c = Inr i"
  then show "rs_can_resolve (ed25519_resolver cr get_key drift now :: 'n resolver) c"
    and "id_resolver i = rs_name (ed25519_resolver cr get_key drift now :: 'n resolver)"
    by (cases c; auto simp: ed25519_resolver_def verify_signed_request_def split: if_splits)+
qed

section \<open>Injected identity headers\<close>

type_synonym ip_addr = string

record identity_projection =
  ipj_user_id :: string
  ipj_tenant_id :: "string option"
  ipj_groups :: "string list"
  ipj_auth_provider :: string
  ipj_principal_fgrn :: "string option"
  ipj_features_json :: "string option"
  ipj_client_ip :: "ip_addr option"

text \<open>\<open>to_json\<close> is \<open>serde_json::to_string\<close>.\<close>

definition identity_projection_new ::
    "((string, 'n flag_value) hash_map \<Rightarrow> string option) \<Rightarrow> 'n identity \<Rightarrow> (string, 'n flag_value) hash_map option
      \<Rightarrow> ip_addr option \<Rightarrow> identity_projection" where
  "identity_projection_new to_json i resolved_flags client_ip =
     \<lparr>ipj_user_id = seg_str (id_user_id i), ipj_tenant_id = map_option seg_str (id_tenant_id i),
      ipj_groups = map seg_str (id_groups i), ipj_auth_provider = id_resolver i,
      ipj_principal_fgrn = None,
      ipj_features_json = Option.bind resolved_flags (\<lambda>flags. if flags = [] then None else to_json flags),
      ipj_client_ip = client_ip\<rparr>"

definition inject_headers :: "identity_projection \<Rightarrow> headers" where
  "inject_headers p =
     [(X_FG_USER_ID, ipj_user_id p)] @
     (case ipj_tenant_id p of Some t \<Rightarrow> [(X_FG_TENANT_ID, t)] | None \<Rightarrow> []) @
     (if ipj_groups p \<noteq> [] then [(X_FG_GROUPS, join '','' (ipj_groups p))] else []) @
     [(X_FG_AUTH_PROVIDER, ipj_auth_provider p)] @
     (case ipj_principal_fgrn p of Some f \<Rightarrow> [(X_FG_PRINCIPAL, f)] | None \<Rightarrow> []) @
     (case ipj_features_json p of Some f \<Rightarrow> [(X_FG_FEATURES, f)] | None \<Rightarrow> []) @
     (case ipj_client_ip p of Some ip \<Rightarrow> [(X_FG_CLIENT_IP, ip)] | None \<Rightarrow> [])"

definition inject_client_ip :: "ip_addr \<Rightarrow> string \<times> string" where
  "inject_client_ip ip = (X_FG_CLIENT_IP, ip)"

definition signing_tail :: "('sk, 'vk, 'sig) crypto \<Rightarrow> 'sig signed_payload \<Rightarrow> headers" where
  "signing_tail cr sp =
     [(X_FG_TRACE_ID, sp_trace_id sp), (X_FG_TIMESTAMP, timestamp_header_value sp),
      (X_FG_KEY_ID, key_id_header_value sp), (X_FG_SIGNATURE, signature_header_value cr sp)]"

definition inject_signed_headers ::
    "('sk, 'vk, 'sig) crypto \<Rightarrow> identity_projection \<Rightarrow> ('sk \<times> key_id) option \<Rightarrow> string \<Rightarrow> u64 \<Rightarrow> headers" where
  "inject_signed_headers cr p signing trace_id now =
     (let hs = inject_headers p in
      case signing of
        None \<Rightarrow> hs
      | Some (key, kid) \<Rightarrow>
          hs @ signing_tail cr (sign cr key kid (canonical_payload trace_id now hs) now trace_id))"

section \<open>The signing client\<close>

text \<open>The copy of the payload format that \<open>xtask\<close> keeps, and the headers its \<open>curl\<close> command sends.\<close>

definition xtask_canonical_payload :: "string \<Rightarrow> u64 \<Rightarrow> headers \<Rightarrow> string" where
  "xtask_canonical_payload trace_id timestamp hs =
     foldl (\<lambda>buf (name, value). buf @ name @ '':'' @ value @ nl)
       (''forgeguard-sig-v1'' @ nl @ ''trace-id:'' @ trace_id @ nl @ ''timestamp:'' @ show_u64 timestamp @ nl)
       (sort_key fst hs)"

definition curl_headers ::
    "('sk, 'vk, 'sig) crypto \<Rightarrow> 'sk \<Rightarrow> string \<Rightarrow> string \<Rightarrow> string \<Rightarrow> u64 \<Rightarrow> (authn_error, headers) result" where
  "curl_headers cr signing_key key_id org_id trace_id timestamp =
     and_then (key_id_try_from key_id) (\<lambda>kid.
       (let identity_headers = [(''x-fg-org-id'', org_id)];
            sp = sign cr signing_key kid (xtask_canonical_payload trace_id timestamp identity_headers)
              timestamp trace_id in
        Inr [(''x-fg-signature'', signature_header_value cr sp),
             (''x-fg-timestamp'', timestamp_header_value sp),
             (''x-fg-key-id'', key_id_header_value sp),
             (''x-fg-trace-id'', sp_trace_id sp),
             (''x-fg-org-id'', org_id)]))"

lemma xtask_canonical_payload_eq: "xtask_canonical_payload t ts hs = canonical_payload t ts hs"
proof -
  have "foldl (\<lambda>buf (name, value). buf @ name @ '':'' @ value @ nl) b xs = b @ concat (map canonical_line xs)" for b xs
    by (induction xs arbitrary: b) (auto simp: canonical_line_def)
  then show ?thesis by (simp add: xtask_canonical_payload_def canonical_payload_def)
qed

section \<open>The payload determines what was signed\<close>

definition wire_header :: "string \<times> string \<Rightarrow> bool" where
  "wire_header h \<longleftrightarrow> CHR '':'' \<notin> set (fst h) \<and> CHR 0x0A \<notin> set (fst h) \<and> CHR 0x0A \<notin> set (snd h)"

lemma nl_sep_eq_iff:
  "CHR 0x0A \<notin> set a \<Longrightarrow> CHR 0x0A \<notin> set b \<Longrightarrow> a @ nl @ x = b @ nl @ y \<longleftrightarrow> a = b \<and> x = y"
  by (simp add: nl_def sep_append_eq_iff)

lemma canonical_line_append_eq_iff:
  assumes "wire_header h" "wire_header h'"
  shows "canonical_line h @ x = canonical_line h' @ y \<longleftrightarrow> h = h' \<and> x = y"
  using assms sep_append_eq_iff [of "CHR '':''" "fst h" "fst h'" "snd h @ nl @ x" "snd h' @ nl @ y"]
    nl_sep_eq_iff [of "snd h" "snd h'" x y]
  by (auto simp: wire_header_def canonical_line_def prod_eq_iff)

lemma canonical_lines_inj:
  "\<forall>h \<in> set hs. wire_header h \<Longrightarrow> \<forall>h \<in> set hs'. wire_header h \<Longrightarrow>
     concat (map canonical_line hs) = concat (map canonical_line hs') \<Longrightarrow> hs = hs'"
proof (induction hs arbitrary: hs')
  case Nil
  then show ?case by (cases hs') (auto simp: canonical_line_def)
next
  case (Cons h hs)
  from Cons.prems(3) obtain g gs where g: "hs' = g # gs" by (cases hs') (auto simp: canonical_line_def)
  have "h = g \<and> concat (map canonical_line hs) = concat (map canonical_line gs)"
    using Cons.prems canonical_line_append_eq_iff [of h g] by (simp add: g)
  then show ?case using Cons.IH [of gs] Cons.prems(1,2) g by simp
qed

lemma show_u64_no_newline: "CHR 0x0A \<notin> set (show_u64 w)"
  by (auto simp: show_u64_def is_ascii_digit_def byte_def dest!: show_nat_digits)

lemma canonical_payload_determines:
  assumes "CHR 0x0A \<notin> set t" "CHR 0x0A \<notin> set t'" "\<forall>h \<in> set hs. wire_header h" "\<forall>h \<in> set hs'. wire_header h"
    and eq: "canonical_payload t ts hs = canonical_payload t' ts' hs'"
  shows "t = t' \<and> ts = ts' \<and> sort_key fst hs = sort_key fst hs'"
proof -
  let ?c = "\<lambda>hs. concat (map canonical_line (sort_key fst hs))"
  from eq have "t @ nl @ ''timestamp:'' @ show_u64 ts @ nl @ ?c hs = t' @ nl @ ''timestamp:'' @ show_u64 ts' @ nl @ ?c hs'"
    by (simp add: canonical_payload_def)
  then have "t = t'" "show_u64 ts @ nl @ ?c hs = show_u64 ts' @ nl @ ?c hs'"
    using nl_sep_eq_iff [OF assms(1,2)] by auto
  moreover from this(2) have "show_u64 ts = show_u64 ts'" "?c hs = ?c hs'"
    using nl_sep_eq_iff [OF show_u64_no_newline show_u64_no_newline] by blast+
  ultimately show ?thesis using canonical_lines_inj [of "sort_key fst hs" "sort_key fst hs'"] assms(3,4) by simp
qed

section \<open>Round trip\<close>

lemma curl_header_names:
  "eq_ignore_ascii_case ''x-fg-signature'' X_FG_SIGNATURE = True"
  "eq_ignore_ascii_case ''x-fg-signature'' X_FG_TIMESTAMP = False"
  "eq_ignore_ascii_case ''x-fg-signature'' X_FG_KEY_ID = False"
  "eq_ignore_ascii_case ''x-fg-signature'' X_FG_TRACE_ID = False"
  "eq_ignore_ascii_case ''x-fg-signature'' X_FG_ORG_ID = False"
  "eq_ignore_ascii_case ''x-fg-signature'' ''authorization'' = False"
  "eq_ignore_ascii_case ''x-fg-signature'' ''x-api-key'' = False"
  "is_protocol_header ''x-fg-signature'' = True"
  "starts_with (to_ascii_lowercase ''x-fg-signature'') X_FG_PREFIX = True"
  "eq_ignore_ascii_case ''x-fg-timestamp'' X_FG_SIGNATURE = False"
  "eq_ignore_ascii_case ''x-fg-timestamp'' X_FG_TIMESTAMP = True"
  "eq_ignore_ascii_case ''x-fg-timestamp'' X_FG_KEY_ID = False"
  "eq_ignore_ascii_case ''x-fg-timestamp'' X_FG_TRACE_ID = False"
  "eq_ignore_ascii_case ''x-fg-timestamp'' X_FG_ORG_ID = False"
  "eq_ignore_ascii_case ''x-fg-timestamp'' ''authorization'' = False"
  "eq_ignore_ascii_case ''x-fg-timestamp'' ''x-api-key'' = False"
  "is_protocol_header ''x-fg-timestamp'' = True"
  "starts_with (to_ascii_lowercase ''x-fg-timestamp'') X_FG_PREFIX = True"
  "eq_ignore_ascii_case ''x-fg-key-id'' X_FG_SIGNATURE = False"
  "eq_ignore_ascii_case ''x-fg-key-id'' X_FG_TIMESTAMP = False"
  "eq_ignore_ascii_case ''x-fg-key-id'' X_FG_KEY_ID = True"
  "eq_ignore_ascii_case ''x-fg-key-id'' X_FG_TRACE_ID = False"
  "eq_ignore_ascii_case ''x-fg-key-id'' X_FG_ORG_ID = False"
  "eq_ignore_ascii_case ''x-fg-key-id'' ''authorization'' = False"
  "eq_ignore_ascii_case ''x-fg-key-id'' ''x-api-key'' = False"
  "is_protocol_header ''x-fg-key-id'' = True"
  "starts_with (to_ascii_lowercase ''x-fg-key-id'') X_FG_PREFIX = True"
  "eq_ignore_ascii_case ''x-fg-trace-id'' X_FG_SIGNATURE = False"
  "eq_ignore_ascii_case ''x-fg-trace-id'' X_FG_TIMESTAMP = False"
  "eq_ignore_ascii_case ''x-fg-trace-id'' X_FG_KEY_ID = False"
  "eq_ignore_ascii_case ''x-fg-trace-id'' X_FG_TRACE_ID = True"
  "eq_ignore_ascii_case ''x-fg-trace-id'' X_FG_ORG_ID = False"
  "eq_ignore_ascii_case ''x-fg-trace-id'' ''authorization'' = False"
  "eq_ignore_ascii_case ''x-fg-trace-id'' ''x-api-key'' = False"
  "is_protocol_header ''x-fg-trace-id'' = True"
  "starts_with (to_ascii_lowercase ''x-fg-trace-id'') X_FG_PREFIX = True"
  "eq_ignore_ascii_case ''x-fg-org-id'' X_FG_SIGNATURE = False"
  "eq_ignore_ascii_case ''x-fg-org-id'' X_FG_TIMESTAMP = False"
  "eq_ignore_ascii_case ''x-fg-org-id'' X_FG_KEY_ID = False"
  "eq_ignore_ascii_case ''x-fg-org-id'' X_FG_TRACE_ID = False"
  "eq_ignore_ascii_case ''x-fg-org-id'' X_FG_ORG_ID = True"
  "eq_ignore_ascii_case ''x-fg-org-id'' ''authorization'' = False"
  "eq_ignore_ascii_case ''x-fg-org-id'' ''x-api-key'' = False"
  "is_protocol_header ''x-fg-org-id'' = False"
  "starts_with (to_ascii_lowercase ''x-fg-org-id'') X_FG_PREFIX = True"
  by code_simp+

lemma curl_extract:
  assumes "curl_headers cr sk key_id org_id trace_id ts = Inr hs"
  shows "extract_credential hs = Some (Some (SignedRequest key_id ts
    (''v1:'' @ b64_encode cr (sig_to_bytes cr (ed_sign cr sk (canonical_payload trace_id ts [(X_FG_ORG_ID, org_id)]))))
    trace_id [(X_FG_ORG_ID, org_id)]))"
proof -
  let ?sig = "''v1:'' @ b64_encode cr (sig_to_bytes cr (ed_sign cr sk (canonical_payload trace_id ts [(X_FG_ORG_ID, org_id)])))"
  have hs: "hs = [(''x-fg-signature'', ?sig), (''x-fg-timestamp'', show_u64 ts), (''x-fg-key-id'', key_id),
      (''x-fg-trace-id'', trace_id), (''x-fg-org-id'', org_id)]"
    using assms by (auto simp: curl_headers_def key_id_try_from_def sign_def signature_header_value_def
        timestamp_header_value_def key_id_header_value_def xtask_canonical_payload_eq Let_def X_FG_ORG_ID_def
        split: if_splits)
  have "find_header_ci hs X_FG_SIGNATURE = Some ?sig" "find_header_ci hs X_FG_TIMESTAMP = Some (show_u64 ts)"
    "find_header_ci hs X_FG_KEY_ID = Some key_id" "find_header_ci hs X_FG_TRACE_ID = Some trace_id"
    "find_header_ci hs ''authorization'' = None" "find_header_ci hs ''x-api-key'' = None"
    unfolding hs find_header_ci_def by (simp_all only: find.simps prod.case curl_header_names if_True if_False
        option.map snd_conv)
  moreover have "identity_headers_of hs = [(X_FG_ORG_ID, org_id)]"
    unfolding hs identity_headers_of_def by (simp only: filter.simps prod.case curl_header_names simp_thms
        if_True if_False X_FG_ORG_ID_def)
  ultimately show ?thesis
    by (simp add: extract_credential_def bearer_credential_def api_key_credential_def signed_credential_def)
qed

lemma parse_signature_header_sign:
  "crypto_laws cr \<Longrightarrow> parse_signature_header cr (''v1:'' @ b64_encode cr (sig_to_bytes cr s)) = Inr s"
  by (simp add: parse_signature_header_def crypto_laws_def strip_prefix_def starts_with_def)

lemma u64_abs_diff_le_iff:
  assumes "d < 2 ^ 64"
  shows "\<not> of_nat d < u64_abs_diff a b \<longleftrightarrow> unat a \<le> unat b + d \<and> unat b \<le> unat a + d"
  using assms by (auto simp: u64_abs_diff_def word_less_nat_alt word_le_nat_alt unat_sub unat_of_nat)

section \<open>Properties\<close>

text \<open>
  C29. A signature covers the whole request context: if two canonical payloads are the same bytes, then
  trace id and timestamp agree and the headers agree name by name, values in order. Trace ids and
  header values contain no line break and header names no colon or line break, which HTTP guarantees.
\<close>

theorem signed_payload_binds:
  assumes "CHR 0x0A \<notin> set t" "CHR 0x0A \<notin> set t'" "\<forall>h \<in> set hs. wire_header h" "\<forall>h \<in> set hs'. wire_header h"
    "canonical_payload t ts hs = canonical_payload t' ts' hs'"
  shows "t = t' \<and> ts = ts' \<and> (\<forall>n. filter (\<lambda>h. fst h = n) hs = filter (\<lambda>h. fst h = n) hs')"
  using canonical_payload_determines [OF assms] sort_key_stable by metis

theorem signed_payload_binds_witness:
  "filter (\<lambda>h. fst h = ''a'') [(''b'', ''1''), (''a'', ''2'')] = filter (\<lambda>h. fst h = ''a'') [(''a'', ''2''), (''b'', ''1'')]"
proof -
  have "canonical_payload ''t'' 7 [(''b'', ''1''), (''a'', ''2'')] = canonical_payload ''t'' 7 [(''a'', ''2''), (''b'', ''1'')]"
    by (simp add: canonical_payload_def)
  moreover have "\<forall>h \<in> set [(''b'', ''1''), (''a'', ''2'')]. wire_header h" "\<forall>h \<in> set [(''a'', ''2''), (''b'', ''1'')]. wire_header h"
    by (auto simp: wire_header_def)
  moreover have "CHR 0x0A \<notin> set ''t''" by simp
  ultimately show ?thesis using signed_payload_binds by blast
qed

text \<open>
  C2. The signed-request resolver accepts only what the organization's key signed, in time. If it returns
  an identity, the credential is a signed request that names an organization, the key store holds a key
  for that organization and key id, the signature verifies under it for the canonical payload of exactly
  these headers, the timestamp is within the drift of the server's clock in both directions, and the
  identity is the machine with that key id in that organization, without groups.
\<close>

theorem ed25519_resolve_sound:
  assumes "ed25519_resolve cr get_key drift now c = Inr i" "drift < 2 ^ 64"
  shows "\<exists>key_id ts sig trace_id hs org_id public_key parsed t.
     c = SignedRequest key_id ts sig trace_id hs \<and> find_header_ci hs X_FG_ORG_ID = Some org_id \<and>
     get_key org_id key_id = Inr public_key \<and> parse_signature_header cr sig = Inr parsed \<and>
     ed_verify cr public_key (canonical_payload trace_id ts hs) parsed \<and>
     unat ts \<le> unat now + drift \<and> unat now \<le> unat ts + drift \<and>
     seg_str (id_user_id i) = key_id \<and> id_tenant_id i = Some t \<and> seg_str t = org_id \<and>
     id_groups i = [] \<and> id_principal_kind i = Machine"
proof -
  obtain key_id ts sig trace_id hs where c: "c = SignedRequest key_id ts sig trace_id hs"
    using assms(1) by (cases c) auto
  then obtain org_id public_key parsed u t where *: "find_header_ci hs X_FG_ORG_ID = Some org_id"
      "get_key org_id key_id = Inr public_key" "parse_signature_header cr sig = Inr parsed"
      "ed_verify cr public_key (canonical_payload trace_id ts hs) parsed"
      "\<not> of_nat drift < u64_abs_diff ts now" "typed_id_new key_id = Inr u" "typed_id_new org_id = Inr t"
      "i = \<lparr>id_user_id = u, id_tenant_id = Some t, id_groups = [], id_expiry = None,
         id_resolver = ''ed25519'', id_extra = None, id_principal_kind = Machine\<rparr>"
    using assms(1)
    by (auto simp: verify_signed_request_def signed_org_id_def sig_verify_def timestamp_check_def Let_def
        ok_or_def map_err_def split: if_splits option.splits sum.splits)
  moreover have "seg_str u = key_id" "seg_str t = org_id"
    using *(6,7) seg.construct_Inr_iff by (auto simp: typed_id_new_def)
  ultimately show ?thesis using c u64_abs_diff_le_iff [OF assms(2)] by auto
qed

text \<open>
  C33. Requests of the signing client are accepted: the headers that the \<open>curl\<close> command of the developer
  tool sends are extracted as a signed request, and the resolver turns it into the machine identity of
  the key id in the organization, when the key store holds the public key and the clocks agree within
  the drift. The client's own copy of the payload format is thereby compatible with the server's.
\<close>

theorem signed_request_round_trip:
  assumes "crypto_laws cr" "curl_headers cr sk key_id org_id trace_id ts = Inr hs"
    "get_key org_id key_id = Inr (ed_public cr sk)" "valid_segment key_id" "valid_segment org_id"
    "drift < 2 ^ 64" "unat ts \<le> unat now + drift" "unat now \<le> unat ts + drift"
  shows "\<exists>c. extract_credential hs = Some (Some c) \<and>
     chain_resolve [ed25519_resolver cr get_key drift now] c =
       Inr \<lparr>id_user_id = Segment key_id, id_tenant_id = Some (Segment org_id), id_groups = [], id_expiry = None,
            id_resolver = ''ed25519'', id_extra = None, id_principal_kind = Machine\<rparr>"
proof -
  have "typed_id_new key_id = Inr (Segment key_id)" "typed_id_new org_id = Inr (Segment org_id)"
    using assms(4,5) seg.construct_Inr_iff by (auto simp: typed_id_new_def)
  moreover have "find_header_ci [(X_FG_ORG_ID, org_id)] X_FG_ORG_ID = Some org_id"
    by (simp add: find_header_ci_def eq_ignore_ascii_case_def)
  moreover have "parse_signature_header cr (''v1:'' @ b64_encode cr (sig_to_bytes cr x)) = Inr x" for x
    using assms(1) by (rule parse_signature_header_sign)
  moreover have "ed_verify cr (ed_public cr sk) m (ed_sign cr sk m)" for m
    using assms(1) by (simp add: crypto_laws_def)
  moreover have "timestamp_check drift ts now = Inr ()"
    using u64_abs_diff_le_iff [OF assms(6)] assms(7,8) by (simp add: timestamp_check_def Let_def)
  ultimately show ?thesis
    using assms(3) unfolding curl_extract [OF assms(2)] ed25519_resolver_def verify_signed_request_def
    by (simp add: verify_signed_request_def signed_org_id_def sig_verify_def)
qed

text \<open>An instance of the cryptographic interface for the witnesses.\<close>

definition toy_crypto :: "(unit, unit, unit) crypto" where
  "toy_crypto =
     \<lparr>ed_public = (\<lambda>_. ()), ed_sign = (\<lambda>_ _. ()), ed_verify = (\<lambda>_ _ _. True),
      sig_to_bytes = (\<lambda>_. replicate 64 CHR ''A''), sig_from_bytes = (\<lambda>_. ()),
      b64_encode = (\<lambda>b. b), b64_decode = Inr\<rparr>"

lemma toy_crypto_laws: "crypto_laws toy_crypto"
  by (simp add: crypto_laws_def toy_crypto_def)

lemma ex_valid_segments: "valid_segment ''ci-key''" "valid_segment ''acme''"
  by code_simp+

theorem signed_request_round_trip_witness:
  "\<exists>hs c. curl_headers toy_crypto () ''ci-key'' ''acme'' ''t1'' 5000 = Inr hs \<and>
     extract_credential hs = Some (Some c) \<and>
     is_ok (chain_resolve [ed25519_resolver toy_crypto (\<lambda>_ _. Inr ()) DEFAULT_MAX_DRIFT 6000 :: nat resolver] c)"
proof -
  obtain hs where hs: "curl_headers toy_crypto () ''ci-key'' ''acme'' ''t1'' 5000 = Inr hs"
    by (simp add: curl_headers_def key_id_try_from_def Let_def)
  have key: "(\<lambda>_ _. Inr ()) ''acme'' ''ci-key'' = Inr (ed_public toy_crypto ())" by simp
  have "DEFAULT_MAX_DRIFT < 2 ^ 64" "unat (5000 :: u64) \<le> unat (6000 :: u64) + DEFAULT_MAX_DRIFT"
    "unat (6000 :: u64) \<le> unat (5000 :: u64) + DEFAULT_MAX_DRIFT"
    by (simp_all add: DEFAULT_MAX_DRIFT_def)
  from signed_request_round_trip [OF toy_crypto_laws hs key ex_valid_segments this]
  show ?thesis using hs unfolding is_ok_iff by blast
qed

theorem ed25519_resolve_sound_witness:
  "\<exists>c i. (ed25519_resolve toy_crypto (\<lambda>_ _. Inr ()) 10 7 c :: (authn_error, nat identity) result) = Inr i \<and>
     id_groups i = []"
proof -
  let ?c = "SignedRequest ''ci-key'' 5 (''v1:'' @ replicate 64 CHR ''A'') ''t1'' [(X_FG_ORG_ID, ''acme'')]"
  obtain i :: "nat identity" where i: "ed25519_resolve toy_crypto (\<lambda>_ _. Inr ()) 10 7 ?c = Inr i"
  proof -
    have "is_ok (ed25519_resolve toy_crypto (\<lambda>_ _. Inr ()) 10 7 ?c :: (authn_error, nat identity) result)"
      by code_simp
    then show ?thesis using that by (auto simp: is_ok_iff)
  qed
  have "(10 :: nat) < 2 ^ 64" by simp
  from ed25519_resolve_sound [OF i this] i show ?thesis by blast
qed

end
