(* ===== verification/Proxy_Tenant.thy ===== *)
theory Proxy_Tenant
  imports Http_Routing Signing
begin

text \<open>
  The request a protocol adapter hands to the pipeline (\<open>crates/proxy-core/src/request_input.rs\<close>) and
  the extraction of a tenant from it (\<open>tenant.rs\<close>). The locale \<open>tenant_extractor\<close> is the contract of
  the \<open>TenantExtractor\<close> trait.
\<close>

section \<open>Requests\<close>

record request_input =
  ri_method :: http_method
  ri_path :: string
  ri_query_string :: "string option"
  ri_headers :: headers
  ri_client_ip :: "ip_addr option"

datatype proxy_error = InvalidRequest string | InvalidRejectStatus nat

definition request_input_new ::
    "string \<Rightarrow> string \<Rightarrow> headers \<Rightarrow> ip_addr option \<Rightarrow> (proxy_error, request_input) result" where
  "request_input_new method_str path hs client_ip =
     and_then (map_err (\<lambda>_. InvalidRequest (''unrecognized HTTP method: '' @ quoted method_str))
         (http_method_from_str method_str :: (unit http_error, http_method) result)) (\<lambda>m.
       if path = [] then Inl (InvalidRequest ''path cannot be empty'')
       else if \<not> starts_with path ''/'' then
         Inl (InvalidRequest (''path must start with '' @ quoted ''/'' @ '': '' @ quoted path))
       else Inr \<lparr>ri_method = m, ri_path = path, ri_query_string = None, ri_headers = hs, ri_client_ip = client_ip\<rparr>)"

definition with_query_string :: "request_input \<Rightarrow> string \<Rightarrow> request_input" where
  "with_query_string r q = r\<lparr>ri_query_string := Some q\<rparr>"

lemma request_input_new_Inr:
  "request_input_new m p hs ip = Inr r \<Longrightarrow> ri_path r = p \<and> (\<exists>q. p = CHR ''/'' # q) \<and> ri_headers r = hs"
  by (auto simp: request_input_new_def starts_with_iff split: if_splits)

section \<open>Helpers\<close>

definition find_header_exact :: "headers \<Rightarrow> string \<Rightarrow> string option" where
  "find_header_exact hs name = map_option snd (find (\<lambda>(k, _). k = name) hs)"

definition strip_port :: "string \<Rightarrow> string" where
  "strip_port host =
     (case strip_prefix ''['' host of
        Some rest \<Rightarrow>
          (case split_once CHR '']'' rest of
             Some (before, _) \<Rightarrow> take (length before + 2) host
           | None \<Rightarrow> host)
      | None \<Rightarrow> (case split_once CHR '':'' host of Some (h, _) \<Rightarrow> h | None \<Rightarrow> host))"

definition split_first_segment :: "string \<Rightarrow> (string \<times> string) option" where
  "split_first_segment path =
     (case strip_prefix ''/'' path of
        None \<Rightarrow> None
      | Some without_leading \<Rightarrow>
          if without_leading = [] then None
          else
            (case split_once CHR ''/'' without_leading of
               Some (seg, rest) \<Rightarrow>
                 if seg \<noteq> [] then
                   (if rest = [] then Some (seg, ''/'') else Some (seg, drop (length seg + 1) path))
                 else None
             | None \<Rightarrow> Some (without_leading, ''/'')))"

section \<open>Extractors\<close>

type_synonym extractor = "request_input \<Rightarrow> organization_id option"

locale tenant_extractor =
  fixes ext :: extractor
  assumes extract_valid: "ext r = Some org \<Longrightarrow> segment_wf org"
begin

text \<open>A tenant id never contains a character that separates the parts of a name, a path or a host.\<close>

lemma extract_no_separator:
  assumes "ext r = Some org"
  shows "CHR ''/'' \<notin> set (seg_str org)" "CHR '':'' \<notin> set (seg_str org)" "CHR ''.'' \<notin> set (seg_str org)"
  using valid_segment_excludes extract_valid [OF assms] by blast+

end

definition subdomain_extract :: extractor where
  "subdomain_extract r =
     Option.bind (find_header_exact (ri_headers r) ''host'') (\<lambda>h.
     Option.bind (split_once CHR ''.'' (strip_port h)) (\<lambda>(first_label, _).
     to_ok (typed_id_new first_label)))"

definition host_extract :: extractor where
  "host_extract r =
     Option.bind (find_header_exact (ri_headers r) ''host'') (\<lambda>h. to_ok (typed_id_new (strip_port h)))"

definition header_extract :: "string \<Rightarrow> extractor" where
  "header_extract header_name r =
     Option.bind (find_header_exact (ri_headers r) (to_ascii_lowercase header_name)) (\<lambda>v. to_ok (typed_id_new v))"

definition stripped_path :: "string \<Rightarrow> string option" where
  "stripped_path path = map_option snd (split_first_segment path)"

definition path_prefix_extract :: extractor where
  "path_prefix_extract r =
     Option.bind (split_first_segment (ri_path r)) (\<lambda>(seg, _). to_ok (typed_id_new seg))"

fun find_map :: "('a \<Rightarrow> 'b option) \<Rightarrow> 'a list \<Rightarrow> 'b option" where
  "find_map f [] = None"
| "find_map f (x # xs) = (case f x of Some y \<Rightarrow> Some y | None \<Rightarrow> find_map f xs)"

definition chain_extract :: "extractor list \<Rightarrow> extractor" where
  "chain_extract es r = find_map (\<lambda>e. e r) es"

lemma typed_id_new_wf: "typed_id_new s = Inr x \<Longrightarrow> segment_wf x \<and> seg_str x = s"
  using seg.construct_Inr_iff by (auto simp: typed_id_new_def)

interpretation subdomain: tenant_extractor subdomain_extract
  by unfold_locales (auto simp: subdomain_extract_def Option.bind_eq_Some_conv dest: typed_id_new_wf)

interpretation host: tenant_extractor host_extract
  by unfold_locales (auto simp: host_extract_def Option.bind_eq_Some_conv dest: typed_id_new_wf)

interpretation header: tenant_extractor "header_extract name" for name
  by unfold_locales (auto simp: header_extract_def Option.bind_eq_Some_conv dest: typed_id_new_wf)

interpretation path_prefix: tenant_extractor path_prefix_extract
  by unfold_locales (auto simp: path_prefix_extract_def Option.bind_eq_Some_conv dest: typed_id_new_wf)

lemma find_map_Some: "find_map f xs = Some y \<Longrightarrow> \<exists>x \<in> set xs. f x = Some y"
  by (induction xs) (auto split: option.splits)

lemma chain_tenant_extractor:
  assumes "\<forall>e \<in> set es. tenant_extractor e" shows "tenant_extractor (chain_extract es)"
  using assms by unfold_locales (auto simp: chain_extract_def tenant_extractor_def dest!: find_map_Some)

interpretation chain: tenant_extractor "chain_extract [subdomain_extract, header_extract name, path_prefix_extract]" for name
  by (rule chain_tenant_extractor)
    (simp add: subdomain.tenant_extractor_axioms header.tenant_extractor_axioms path_prefix.tenant_extractor_axioms)

section \<open>The path prefix\<close>

text \<open>Splitting off the first segment loses at most a trailing slash, and the rest is again a path.\<close>

lemma split_first_segment_Some:
  assumes "split_first_segment path = Some (seg, rest)"
  shows "seg \<noteq> []" "CHR ''/'' \<notin> set seg" "\<exists>q. rest = CHR ''/'' # q"
    "path = CHR ''/'' # seg @ rest \<or> path = CHR ''/'' # seg \<and> rest = ''/''"
proof -
  from assms obtain p where p: "path = CHR ''/'' # p" "p \<noteq> []"
    by (auto simp: split_first_segment_def split: option.splits if_splits)
  show "seg \<noteq> []" "CHR ''/'' \<notin> set seg" "\<exists>q. rest = CHR ''/'' # q"
    "path = CHR ''/'' # seg @ rest \<or> path = CHR ''/'' # seg \<and> rest = ''/''"
    using assms p
    by (auto simp: split_first_segment_def split_once_Some_iff split_once_None_iff strip_prefix_def starts_with_def
        split: option.splits if_splits prod.splits)
qed

text \<open>Extraction recovers the tenant of a path that was built by prefixing one.\<close>

lemma path_prefix_round_trip:
  assumes "segment_wf org" "rest = CHR ''/'' # q" "ri_path r = CHR ''/'' # seg_str org @ rest"
  shows "path_prefix_extract r = Some org \<and> stripped_path (ri_path r) = Some rest"
proof -
  have o: "seg_str org \<noteq> []" "CHR ''/'' \<notin> set (seg_str org)"
    using assms(1) valid_segment_excludes by (auto simp: valid_segment_def)
  have "typed_id_new (seg_str org) = Inr org"
    using assms(1) seg.construct_Inr_iff by (auto simp: typed_id_new_def)
  then show ?thesis using o assms(2,3)
    by (auto simp: path_prefix_extract_def stripped_path_def split_first_segment_def strip_prefix_def starts_with_def)
qed

end
