(* ===== verification/Policy_Query.thy ===== *)
theory Policy_Query
  imports Http_Routing Signing
begin

text \<open>
  Policy queries and decisions (\<open>crates/authz-core/src\<close>: \<open>context.rs\<close>, \<open>query.rs\<close>, \<open>decision.rs\<close>,
  \<open>engine.rs\<close>, \<open>static_engine.rs\<close>) and the query built for a matched route
  (\<open>crates/http/src/query.rs\<close>). A policy engine is a record of its trait's operations.
\<close>

section \<open>Queries\<close>

record 'n policy_context =
  px_tenant_id :: "tenant_id option"
  px_groups :: "group_name list"
  px_ip_address :: "ip_addr option"
  px_attributes :: "(string, 'n json) hash_map"

definition policy_context_new :: "'n policy_context" where
  "policy_context_new = \<lparr>px_tenant_id = None, px_groups = [], px_ip_address = None, px_attributes = []\<rparr>"

definition with_tenant :: "'n policy_context \<Rightarrow> tenant_id \<Rightarrow> 'n policy_context" where
  "with_tenant c t = c\<lparr>px_tenant_id := Some t\<rparr>"

definition with_groups :: "'n policy_context \<Rightarrow> group_name list \<Rightarrow> 'n policy_context" where
  "with_groups c gs = c\<lparr>px_groups := gs\<rparr>"

definition with_ip_address :: "'n policy_context \<Rightarrow> ip_addr \<Rightarrow> 'n policy_context" where
  "with_ip_address c ip = c\<lparr>px_ip_address := Some ip\<rparr>"

definition with_attribute :: "'n policy_context \<Rightarrow> string \<Rightarrow> 'n json \<Rightarrow> 'n policy_context" where
  "with_attribute c k v = c\<lparr>px_attributes := hm_insert k v (px_attributes c)\<rparr>"

record 'n policy_query =
  pq_principal :: principal_ref
  pq_action :: qualified_action
  pq_resource :: "resource_ref option"
  pq_context :: "'n policy_context"

definition build_query :: "'n identity \<Rightarrow> matched_route \<Rightarrow> ip_addr option \<Rightarrow> 'n policy_query" where
  "build_query i mt client_ip =
     (let prin = (case id_principal_kind i of
            User \<Rightarrow> principal_ref_new (id_user_id i)
          | Machine \<Rightarrow> principal_ref_machine (id_user_id i));
          c0 = with_groups policy_context_new (id_groups i);
          c1 = (case id_tenant_id i of Some t \<Rightarrow> with_tenant c0 t | None \<Rightarrow> c0);
          c2 = (case client_ip of Some ip \<Rightarrow> with_ip_address c1 ip | None \<Rightarrow> c1);
          c3 = (case id_extra i of Some e \<Rightarrow> with_attribute c2 ''extra_claims'' e | None \<Rightarrow> c2) in
      \<lparr>pq_principal = prin, pq_action = mt_action mt, pq_resource = mt_resource mt, pq_context = c3\<rparr>)"

text \<open>The query carries the identity it was built from, field by field.\<close>

lemma build_query_fields:
  "prf_user_id (pq_principal (build_query i mt ip)) = id_user_id i"
  "prf_kind (pq_principal (build_query i mt ip)) = id_principal_kind i"
  "px_tenant_id (pq_context (build_query i mt ip)) = id_tenant_id i"
  "px_groups (pq_context (build_query i mt ip)) = id_groups i"
  "px_ip_address (pq_context (build_query i mt ip)) = ip"
  "map_of (px_attributes (pq_context (build_query i mt ip))) ''extra_claims'' = id_extra i"
  "pq_action (build_query i mt ip) = mt_action mt"
  "pq_resource (build_query i mt ip) = mt_resource mt"
  by (simp_all add: build_query_def Let_def policy_context_new_def with_tenant_def with_groups_def
      with_ip_address_def with_attribute_def principal_ref_new_def principal_ref_machine_def hm_insert_lookup
      split: option.splits principal_ref_kind.splits)

section \<open>Decisions\<close>

datatype deny_reason = NoMatchingPolicy | ExplicitDeny string | EvaluationError string

fun deny_reason_display :: "deny_reason \<Rightarrow> string" where
  "deny_reason_display NoMatchingPolicy = ''no matching policy''"
| "deny_reason_display (ExplicitDeny policy_id) = ''explicitly denied by policy '' @ quoted policy_id"
| "deny_reason_display (EvaluationError msg) = ''evaluation error: '' @ msg"

datatype policy_decision = PAllow | PDeny deny_reason

fun pd_is_denied :: "policy_decision \<Rightarrow> bool" where
  "pd_is_denied PAllow = False"
| "pd_is_denied (PDeny _) = True"

fun policy_decision_display :: "policy_decision \<Rightarrow> string" where
  "policy_decision_display PAllow = ''allowed''"
| "policy_decision_display (PDeny reason) = ''denied: '' @ deny_reason_display reason"

record 'd evaluated_decision =
  ev_decision :: policy_decision
  ev_record :: "'d option"

definition decision_bare :: "policy_decision \<Rightarrow> 'd evaluated_decision" where
  "decision_bare d = \<lparr>ev_decision = d, ev_record = None\<rparr>"

definition decision_with_record :: "policy_decision \<Rightarrow> 'd \<Rightarrow> 'd evaluated_decision" where
  "decision_with_record d r = \<lparr>ev_decision = d, ev_record = Some r\<rparr>"

definition ev_is_denied :: "'d evaluated_decision \<Rightarrow> bool" where
  "ev_is_denied e = pd_is_denied (ev_decision e)"

section \<open>Engines\<close>

record cache_stats =
  cs_hits :: u64
  cs_misses :: u64
  cs_l2_hits :: "u64 option"
  cs_l2_misses :: "u64 option"
  cs_l2_errors :: "u64 option"

definition cache_stats_new :: "u64 \<Rightarrow> u64 \<Rightarrow> cache_stats" where
  "cache_stats_new hits misses =
     \<lparr>cs_hits = hits, cs_misses = misses, cs_l2_hits = None, cs_l2_misses = None, cs_l2_errors = None\<rparr>"

definition with_l2 :: "cache_stats \<Rightarrow> u64 \<Rightarrow> u64 \<Rightarrow> u64 \<Rightarrow> cache_stats" where
  "with_l2 s hits misses errors =
     s\<lparr>cs_l2_hits := Some hits, cs_l2_misses := Some misses, cs_l2_errors := Some errors\<rparr>"

record ('n, 'd, 'e) policy_engine =
  pe_evaluate :: "'n policy_query \<Rightarrow> ('e, 'd evaluated_decision) result"
  pe_cache_stats :: "cache_stats option"

record static_policy_engine =
  se_default_decision :: policy_decision
  se_overrides :: "(string, policy_decision) hash_map"

definition static_engine_new :: "policy_decision \<Rightarrow> static_policy_engine" where
  "static_engine_new d = \<lparr>se_default_decision = d, se_overrides = []\<rparr>"

definition with_override :: "static_policy_engine \<Rightarrow> qualified_action \<Rightarrow> policy_decision \<Rightarrow> static_policy_engine" where
  "with_override e a d = e\<lparr>se_overrides := hm_insert (qualified_action_display a) d (se_overrides e)\<rparr>"

definition static_evaluate :: "static_policy_engine \<Rightarrow> 'n policy_query \<Rightarrow> ('e, 'd evaluated_decision) result" where
  "static_evaluate e q =
     Inr (decision_bare (case map_of (se_overrides e) (qualified_action_display (pq_action q)) of
       Some d \<Rightarrow> d | None \<Rightarrow> se_default_decision e))"

definition static_engine :: "static_policy_engine \<Rightarrow> ('n, 'd, 'e) policy_engine" where
  "static_engine e = \<lparr>pe_evaluate = static_evaluate e, pe_cache_stats = None\<rparr>"

end
