(* ===== verification/Proxy_Pipeline.thy ===== *)
theory Proxy_Pipeline
  imports Proxy_Tenant Policy_Query
begin

text \<open>
  The request pipeline of the proxy (\<open>crates/proxy-core/src\<close>: \<open>pipeline.rs\<close>, \<open>pipeline_config.rs\<close>,
  \<open>pipeline_outcome.rs\<close>, \<open>enforcement.rs\<close>, \<open>membership.rs\<close>) and its flag-debug endpoint
  (\<open>crates/http/src/debug.rs\<close>). The record \<open>env\<close> holds the third-party functions the pipeline calls:
  the tries, the hash of the flag buckets, form decoding, JSON printing. A response body is its JSON
  value. \<open>None\<close> is a panic, which only \<open>extract_credential\<close> can raise.
\<close>

section \<open>Configuration and outcomes\<close>

datatype enforcement_mode = Enforce | Observe

datatype policy_effect = NotEvaluated | Allowed | WouldAllow | WouldDeny

datatype default_policy = Passthrough | DenyByDefault

type_synonym membership_resolver =
  "user_id \<Rightarrow> organization_id \<Rightarrow> (string, group_name list option) result"

record ('r, 'p, 'n) pipeline_config =
  pc_route_matcher :: "'r method_router"
  pc_public_route_matcher :: "'p method_router"
  pc_flag_config :: "'n flag_config"
  pc_project_id :: project_id
  pc_default_policy :: default_policy
  pc_debug_mode :: bool
  pc_auth_providers :: "string list"
  pc_membership_resolver :: "membership_resolver option"

record ('r, 'p, 'x, 'n) pipeline_env =
  en_routes :: "('r, route_value, 'x) matchit"
  en_public :: "('p, public_auth_mode, 'x) matchit"
  en_xxh64 :: "string \<Rightarrow> u64"
  en_num :: "nat \<Rightarrow> 'n"
  en_form_parse :: "string \<Rightarrow> (string \<times> string) list"
  en_debug_json :: "(string, 'n resolved_flag) hash_map \<Rightarrow> string option"

datatype ('n, 'd) pipeline_outcome =
    Health "'n json"
  | Debug string
  | Reject (rj_status: nat) (rj_body: "'n json") (rj_policy_denied: bool) (rj_record: "'d option")
  | Forward (fw_identity: "'n identity option") (fw_flags: "(string, 'n flag_value) hash_map option")
      (fw_matched_route: "matched_route option") (fw_record: "'d option") (fw_effect: policy_effect)

fun is_forward :: "('n, 'd) pipeline_outcome \<Rightarrow> bool" where
  "is_forward (Forward _ _ _ _ _) = True"
| "is_forward _ = False"

definition forward_anonymous :: "('n, 'd) pipeline_outcome" where
  "forward_anonymous = Forward None None None None NotEvaluated"

definition HEALTH_PATH :: string where "HEALTH_PATH = ''/.well-known/forgeguard/health''"
definition FLAGS_DEBUG_PATH :: string where "FLAGS_DEBUG_PATH = ''/.well-known/forgeguard/flags''"

definition reject_json :: "nat \<Rightarrow> string \<Rightarrow> ('n, 'd) pipeline_outcome" where
  "reject_json status error = Reject status (JObj [(''error'', JStr error)]) False None"

definition reject_forbidden_with_action_and_record :: "string \<Rightarrow> 'd option \<Rightarrow> ('n, 'd) pipeline_outcome" where
  "reject_forbidden_with_action_and_record action_str rec =
     Reject 403 (JObj [(''error'', JStr ''Forbidden''), (''action'', JStr action_str)]) True rec"

section \<open>Health and debug endpoints\<close>

definition health_response ::
    "('r, 'p, 'x, 'n) pipeline_env \<Rightarrow> ('r, 'p, 'n) pipeline_config \<Rightarrow> ('n, 'd, 'e) policy_engine
      \<Rightarrow> ('n, 'd) pipeline_outcome" where
  "health_response env cfg engine =
     (let num = (\<lambda>w. JNum (en_num env (unat (w :: u64))));
          opt = (\<lambda>k v. case v of Some w \<Rightarrow> [(k, num w)] | None \<Rightarrow> []) in
      Health (JObj (
        [(''status'', JStr ''ok''), (''providers'', JArr (map JStr (pc_auth_providers cfg))),
         (''flags'', JNum (en_num env (length (pc_flag_config cfg))))] @
        (case pe_cache_stats engine of
           None \<Rightarrow> []
         | Some s \<Rightarrow>
             [(''cache_hits'', num (cs_hits s)), (''cache_misses'', num (cs_misses s))] @
             opt ''l2_cache_hits'' (cs_l2_hits s) @ opt ''l2_cache_misses'' (cs_l2_misses s) @
             opt ''l2_cache_errors'' (cs_l2_errors s)))))"

record flag_debug_query =
  dq_user_id :: user_id
  dq_tenant_id :: "tenant_id option"
  dq_groups :: "group_name list"

text \<open>The last occurrence of a parameter counts.\<close>

definition last_param :: "(string \<times> string) list \<Rightarrow> string \<Rightarrow> string option" where
  "last_param ps k = map_of (rev ps) k"

definition flag_debug_query_parse :: "(string \<times> string) list \<Rightarrow> ('x http_error, flag_debug_query) result" where
  "flag_debug_query_parse ps =
     and_then (ok_or (last_param ps ''user_id'') (InvalidQuery ''missing required parameter: user_id'')) (\<lambda>u_str.
     and_then (map_err (\<lambda>e. InvalidQuery (''invalid user_id: '' @ core_error_display e)) (typed_id_new u_str)) (\<lambda>u.
     and_then (case last_param ps ''tenant_id'' of
         None \<Rightarrow> Inr None
       | Some t \<Rightarrow> and_then (map_err (\<lambda>e. InvalidQuery (''invalid tenant_id: '' @ core_error_display e)) (typed_id_new t)) (\<lambda>x. Inr (Some x))) (\<lambda>t.
     and_then (case last_param ps ''groups'' of
         None \<Rightarrow> Inr []
       | Some raw \<Rightarrow>
           if raw = [] then Inr []
           else collect_results (map (\<lambda>g.
             map_err (\<lambda>e. InvalidQuery (''invalid group name '' @ quoted g @ '': '' @ core_error_display e)) (typed_id_new (trim g)))
             (split_on CHR '','' raw))) (\<lambda>gs.
     Inr \<lparr>dq_user_id = u, dq_tenant_id = t, dq_groups = gs\<rparr>))))"

definition evaluate_debug ::
    "(string \<Rightarrow> u64) \<Rightarrow> 'n flag_config \<Rightarrow> flag_debug_query \<Rightarrow> (string, 'n resolved_flag) hash_map" where
  "evaluate_debug xxh64 cfg q = evaluate_flags_detailed xxh64 cfg (dq_tenant_id q) (dq_user_id q) (dq_groups q)"

definition debug_response ::
    "('r, 'p, 'x, 'n) pipeline_env \<Rightarrow> ('r, 'p, 'n) pipeline_config \<Rightarrow> request_input \<Rightarrow> ('n, 'd) pipeline_outcome" where
  "debug_response env cfg input =
     (let query_str = (case ri_query_string input of Some q \<Rightarrow> q | None \<Rightarrow> []) in
      case (flag_debug_query_parse (en_form_parse env query_str) :: ('x http_error, flag_debug_query) result) of
        Inl e \<Rightarrow> reject_json 400 (case e of InvalidQuery m \<Rightarrow> ''invalid query: '' @ m | _ \<Rightarrow> [])
      | Inr q \<Rightarrow>
          (case en_debug_json env (evaluate_debug (en_xxh64 env) (pc_flag_config cfg) q) of
             Some json \<Rightarrow> Debug json
           | None \<Rightarrow> reject_json 500 ''Internal Server Error''))"

section \<open>Phases\<close>

text \<open>Phases 4 and 5. The left value is an early return of the pipeline.\<close>

definition authenticate ::
    "'n resolver list \<Rightarrow> request_input \<Rightarrow> public_match \<Rightarrow> (('n, 'd) pipeline_outcome, 'n identity option) outcome" where
  "authenticate chain input pm =
     (let require_credential = (pm = NotPublic);
          unauthorized = Some (Inl (reject_json 401 ''Unauthorized'')) in
      if pm = NotPublic \<or> pm = Opportunistic then
        (case extract_credential (ri_headers input) of
           None \<Rightarrow> None
         | Some (Some cred) \<Rightarrow>
             (case chain_resolve chain cred of
                Inr i \<Rightarrow> Some (Inr (Some i))
              | Inl _ \<Rightarrow> if require_credential then unauthorized else Some (Inr None))
         | Some None \<Rightarrow> if require_credential then unauthorized else Some (Inr None))
      else Some (Inr None))"

text \<open>Phase 5b.\<close>

definition enriched_identity :: "'n identity \<Rightarrow> organization_id \<Rightarrow> group_name list \<Rightarrow> 'n identity" where
  "enriched_identity i org groups =
     \<lparr>id_user_id = id_user_id i, id_tenant_id = Some (tenant_of_organization org), id_groups = groups,
      id_expiry = id_expiry i, id_resolver = id_resolver i, id_extra = id_extra i,
      id_principal_kind = id_principal_kind i\<rparr>"

definition enrich_membership ::
    "('r, 'p, 'n) pipeline_config \<Rightarrow> request_input \<Rightarrow> public_match \<Rightarrow> 'n identity option
      \<Rightarrow> (('n, 'd) pipeline_outcome, 'n identity option) result" where
  "enrich_membership cfg input pm identity_opt =
     (case (pc_membership_resolver cfg, identity_opt) of
        (Some resolve, Some i) \<Rightarrow>
          if id_tenant_id i \<noteq> None then Inr identity_opt
          else
            (case find_header_ci (ri_headers input) X_FG_ORG_ID of
               None \<Rightarrow>
                 if pm = NotPublic then Inl (reject_json 400 ''Missing X-Fg-Org-Id header'')
                 else Inr identity_opt
             | Some org_str \<Rightarrow>
                 (case typed_id_new org_str of
                    Inl _ \<Rightarrow> Inl (reject_json 400 ''Invalid X-Fg-Org-Id header'')
                  | Inr org \<Rightarrow>
                      (case resolve (id_user_id i) org of
                         Inr (Some groups) \<Rightarrow> Inr (Some (enriched_identity i org groups))
                       | Inr None \<Rightarrow> Inl (reject_json 403 ''Not a member of this organization'')
                       | Inl _ \<Rightarrow> Inl (reject_json 500 ''Internal Server Error''))))
      | _ \<Rightarrow> Inr identity_opt)"

text \<open>Phase 9: the decision on a matched route, an early return on an enforced denial.\<close>

definition evaluate_policy ::
    "('n, 'd, 'e) policy_engine \<Rightarrow> enforcement_mode \<Rightarrow> request_input \<Rightarrow> matched_route \<Rightarrow> 'n identity
      \<Rightarrow> (('n, 'd) pipeline_outcome, 'd option \<times> policy_effect) result" where
  "evaluate_policy engine mode input mt i =
     (case (case pe_evaluate engine (build_query i mt (ri_client_ip input)) of
              Inr evaluated \<Rightarrow> (\<not> ev_is_denied evaluated, ev_record evaluated)
            | Inl _ \<Rightarrow> (False, None)) of
        (allowed, decision_record) \<Rightarrow>
          (case (mode, allowed) of
             (Enforce, True) \<Rightarrow> Inr (decision_record, Allowed)
           | (Observe, True) \<Rightarrow> Inr (decision_record, WouldAllow)
           | (Observe, False) \<Rightarrow> Inr (decision_record, WouldDeny)
           | (Enforce, False) \<Rightarrow>
               Inl (reject_forbidden_with_action_and_record (qualified_action_display (mt_action mt)) decision_record)))"

definition gate_enabled :: "(string, 'n flag_value) hash_map option \<Rightarrow> flag_name \<Rightarrow> bool" where
  "gate_enabled flags gate =
     (case flags of None \<Rightarrow> False | Some f \<Rightarrow> flag_enabled f (flag_name_display gate))"

text \<open>Phases 6 to 10, with the identity the earlier phases left.\<close>

definition route_and_decide ::
    "('r, 'p, 'x, 'n) pipeline_env \<Rightarrow> ('r, 'p, 'n) pipeline_config \<Rightarrow> ('n, 'd, 'e) policy_engine \<Rightarrow> enforcement_mode
      \<Rightarrow> request_input \<Rightarrow> public_match \<Rightarrow> 'n identity option \<Rightarrow> ('n, 'd) pipeline_outcome" where
  "route_and_decide env cfg engine mode input pm identity_opt =
     (let flags = map_option (\<lambda>i.
            evaluate_flags (en_xxh64 env) (pc_flag_config cfg) (id_tenant_id i) (id_user_id i) (id_groups i)) identity_opt in
      case match_request (en_routes env) (pc_route_matcher cfg) (http_method_display (ri_method input)) (ri_path input) of
        Some mt \<Rightarrow>
          if (case mt_feature_gate mt of Some gate \<Rightarrow> \<not> gate_enabled flags gate | None \<Rightarrow> False)
          then reject_json 404 ''Not Found''
          else
            (case identity_opt of
               None \<Rightarrow> Forward None flags (Some mt) None NotEvaluated
             | Some i \<Rightarrow>
                 (case evaluate_policy engine mode input mt i of
                    Inl out \<Rightarrow> out
                  | Inr (decision_record, effect) \<Rightarrow> Forward (Some i) flags (Some mt) decision_record effect))
      | None \<Rightarrow>
          if is_public pm then Forward identity_opt flags None None NotEvaluated
          else
            (case pc_default_policy cfg of
               DenyByDefault \<Rightarrow>
                 Reject 403 (JObj [(''error'', JStr ''Forbidden''), (''reason'', JStr ''no matching route'')]) False None
             | Passthrough \<Rightarrow> Forward identity_opt flags None None NotEvaluated))"

definition pipeline_public_match ::
    "('r, 'p, 'x, 'n) pipeline_env \<Rightarrow> ('r, 'p, 'n) pipeline_config \<Rightarrow> request_input \<Rightarrow> public_match" where
  "pipeline_public_match env cfg input =
     public_check (en_public env) (pc_public_route_matcher cfg) (http_method_display (ri_method input)) (ri_path input)"

text \<open>Phases 1 to 5b: an early return, or the identity for the rest.\<close>

definition pipeline_front ::
    "('r, 'p, 'x, 'n) pipeline_env \<Rightarrow> ('r, 'p, 'n) pipeline_config \<Rightarrow> request_input \<Rightarrow> 'n resolver list
      \<Rightarrow> ('n, 'd, 'e) policy_engine \<Rightarrow> (('n, 'd) pipeline_outcome, 'n identity option) outcome" where
  "pipeline_front env cfg input chain engine =
     (if ri_path input = HEALTH_PATH then Some (Inl (health_response env cfg engine))
      else if pc_debug_mode cfg \<and> ri_path input = FLAGS_DEBUG_PATH then Some (Inl (debug_response env cfg input))
      else
        (let pm = pipeline_public_match env cfg input in
         outcome_then (authenticate chain input pm) (\<lambda>base. Some (enrich_membership cfg input pm base))))"

definition evaluate_pipeline ::
    "('r, 'p, 'x, 'n) pipeline_env \<Rightarrow> ('r, 'p, 'n) pipeline_config \<Rightarrow> request_input \<Rightarrow> 'n resolver list
      \<Rightarrow> ('n, 'd, 'e) policy_engine \<Rightarrow> enforcement_mode \<Rightarrow> ('n, 'd) pipeline_outcome option" where
  "evaluate_pipeline env cfg input chain engine mode =
     map_option (\<lambda>r. case r of
         Inl out \<Rightarrow> out
       | Inr identity_opt \<Rightarrow>
           route_and_decide env cfg engine mode input (pipeline_public_match env cfg input) identity_opt)
       (pipeline_front env cfg input chain engine)"

section \<open>The pipeline in one step\<close>

lemma pipeline_front_late:
  assumes "pipeline_front env cfg input chain engine = Some r" "r \<noteq> Inl (health_response env cfg engine)"
    "r \<noteq> Inl (debug_response env cfg input)"
  shows "outcome_then (authenticate chain input (pipeline_public_match env cfg input))
    (\<lambda>base. Some (enrich_membership cfg input (pipeline_public_match env cfg input) base)) = Some r"
  using assms by (simp add: pipeline_front_def Let_def split: if_splits)

lemma outcome_then_SomeE:
  assumes "outcome_then m f = Some r"
  obtains (early) e where "m = Some (Inl e)" "r = Inl e" | (later) x where "m = Some (Inr x)" "f x = Some r"
  using assms by (auto simp: outcome_then_def split: option.splits sum.splits)

lemma reject_not_forward [simp]:
  "\<not> is_forward (reject_json s e)" "\<not> is_forward (health_response env cfg engine)" "\<not> is_forward (debug_response env cfg input)"
  "\<not> is_forward (reject_forbidden_with_action_and_record a r)"
  by (auto simp: reject_json_def health_response_def debug_response_def reject_forbidden_with_action_and_record_def Let_def
      split: sum.splits option.splits)

lemma authenticate_Inl_not_forward: "authenticate chain input pm = Some (Inl out) \<Longrightarrow> \<not> is_forward out"
  by (auto simp: authenticate_def Let_def split: if_splits option.splits sum.splits)

lemma authenticate_NotPublic:
  assumes "authenticate chain input NotPublic = Some (Inr base)"
  shows "\<exists>c i. extract_credential (ri_headers input) = Some (Some c) \<and> chain_resolve chain c = Inr i \<and> base = Some i"
  using assms by (auto simp: authenticate_def Let_def split: option.splits sum.splits)

lemma enrich_membership_Inl_not_forward: "enrich_membership cfg input pm base = Inl out \<Longrightarrow> \<not> is_forward out"
  by (auto simp: enrich_membership_def split: if_splits option.splits sum.splits)

lemma pipeline_front_early:
  assumes "pipeline_front env cfg input chain engine = Some (Inl out)" shows "\<not> is_forward out"
proof (cases "out = health_response env cfg engine \<or> out = debug_response env cfg input")
  case False
  then have "outcome_then (authenticate chain input (pipeline_public_match env cfg input))
    (\<lambda>base. Some (enrich_membership cfg input (pipeline_public_match env cfg input) base)) = Some (Inl out)"
    by (intro pipeline_front_late [OF assms]) auto
  then show ?thesis
    by (cases rule: outcome_then_SomeE)
      (auto dest: authenticate_Inl_not_forward enrich_membership_Inl_not_forward)
qed auto

text \<open>
  The identity the membership phase may turn a resolved identity into: itself, or itself in the
  organization of the header with the groups of its membership there.
\<close>

definition enriched_by :: "('r, 'p, 'n) pipeline_config \<Rightarrow> request_input \<Rightarrow> 'n identity \<Rightarrow> 'n identity \<Rightarrow> bool" where
  "enriched_by cfg input base i \<longleftrightarrow>
     i = base \<or>
     (\<exists>resolve org groups. pc_membership_resolver cfg = Some resolve \<and> id_tenant_id base = None \<and>
        find_header_ci (ri_headers input) X_FG_ORG_ID = Some (seg_str org) \<and>
        resolve (id_user_id base) org = Inr (Some groups) \<and> i = enriched_identity base org groups)"

lemma enrich_membership_NotPublic:
  assumes "enrich_membership cfg input NotPublic (Some base) = Inr j"
  shows "\<exists>i. j = Some i \<and> enriched_by cfg input base i \<and> (pc_membership_resolver cfg \<noteq> None \<longrightarrow> id_tenant_id i \<noteq> None)"
  using assms seg.construct_Inr_iff
  by (auto simp: enrich_membership_def enriched_by_def enriched_identity_def typed_id_new_def
      split: if_splits option.splits sum.splits)

lemma evaluate_policy_Enforce:
  assumes "evaluate_policy engine Enforce input mt i = Inr (r, effect)"
  shows "effect = Allowed \<and> (\<exists>ev. pe_evaluate engine (build_query i mt (ri_client_ip input)) = Inr ev \<and>
    ev_decision ev = PAllow \<and> r = ev_record ev)"
  using assms by (auto simp: evaluate_policy_def ev_is_denied_def elim: pd_is_denied.elims split: sum.splits bool.splits)

lemma route_and_decide_forward:
  assumes "out = route_and_decide env cfg engine Enforce input NotPublic (Some i)" "is_forward out"
  shows "fw_identity out = Some i \<and>
    (case fw_matched_route out of
       Some mt \<Rightarrow> fw_effect out = Allowed \<and>
         match_request (en_routes env) (pc_route_matcher cfg) (http_method_display (ri_method input)) (ri_path input) = Some mt \<and>
         (\<exists>ev. pe_evaluate engine (build_query i mt (ri_client_ip input)) = Inr ev \<and> ev_decision ev = PAllow) \<and>
         (\<forall>gate. mt_feature_gate mt = Some gate \<longrightarrow> gate_enabled (fw_flags out) gate)
     | None \<Rightarrow> pc_default_policy cfg = Passthrough)"
proof (cases "match_request (en_routes env) (pc_route_matcher cfg) (http_method_display (ri_method input)) (ri_path input)")
  case None
  then show ?thesis using assms
    by (cases "pc_default_policy cfg") (simp_all add: route_and_decide_def Let_def)
next
  case (Some mt)
  then obtain r effect where pol: "evaluate_policy engine Enforce input mt i = Inr (r, effect)"
    using assms
    by (cases "evaluate_policy engine Enforce input mt i")
      (auto simp: route_and_decide_def Let_def evaluate_policy_def split: if_splits sum.splits bool.splits)
  then show ?thesis using assms Some evaluate_policy_Enforce [OF pol]
    by (auto simp: route_and_decide_def Let_def split: if_splits option.splits)
qed

lemma pipeline_forward_identity:
  assumes "evaluate_pipeline env cfg input chain engine mode = Some (out :: ('a, 'b) pipeline_outcome)" "is_forward out"
    "pipeline_public_match env cfg input = NotPublic"
  shows "\<exists>c base i. extract_credential (ri_headers input) = Some (Some c) \<and> chain_resolve chain c = Inr base \<and>
     out = route_and_decide env cfg engine mode input NotPublic (Some i) \<and>
     enriched_by cfg input base i \<and>
     (pc_membership_resolver cfg \<noteq> None \<longrightarrow> id_tenant_id i \<noteq> None)"
proof (cases "pipeline_front env cfg input chain engine")
  case None
  then show ?thesis using assms(1) by (simp add: evaluate_pipeline_def)
next
  case (Some r)
  show ?thesis
  proof (cases r)
    case (Inl early)
    then have "\<not> is_forward early" using pipeline_front_early Some by blast
    then show ?thesis using assms(1,2) Some Inl by (simp add: evaluate_pipeline_def)
  next
    case (Inr j)
    have "outcome_then (authenticate chain input NotPublic) (\<lambda>base. Some (enrich_membership cfg input NotPublic base)) =
        Some (Inr j :: (('a, 'b) pipeline_outcome, _) result)"
      using pipeline_front_late [OF Some [unfolded Inr]] assms(3) by simp
    then obtain b where
      b: "authenticate chain input NotPublic = Some (Inr b :: (('a, 'b) pipeline_outcome, _) result)"
        "enrich_membership cfg input NotPublic b = (Inr j :: (('a, 'b) pipeline_outcome, _) result)"
      by (cases rule: outcome_then_SomeE) auto
    obtain c base where a: "extract_credential (ri_headers input) = Some (Some c)" "chain_resolve chain c = Inr base"
        "b = Some base"
      using authenticate_NotPublic [OF b(1)] by blast
    obtain i where "j = Some i" "enriched_by cfg input base i" "pc_membership_resolver cfg \<noteq> None \<longrightarrow> id_tenant_id i \<noteq> None"
      using enrich_membership_NotPublic [OF b(2) [unfolded a(3)]] by blast
    then show ?thesis using a assms(1,3) Some Inr by (auto simp: evaluate_pipeline_def)
  qed
qed

section \<open>Properties\<close>


definition ex_env :: "((string \<times> route_value) list, (string \<times> public_auth_mode) list, unit, nat) pipeline_env" where
  "ex_env = \<lparr>en_routes = exact_matchit, en_public = exact_matchit, en_xxh64 = (\<lambda>_. 0), en_num = (\<lambda>n. n),
     en_form_parse = (\<lambda>_. []), en_debug_json = (\<lambda>_. None)\<rparr>"

definition ex_config :: "((string \<times> route_value) list, (string \<times> public_auth_mode) list, nat) pipeline_config" where
  "ex_config = \<lparr>pc_route_matcher = \<lparr>mr_routers = [(Get, [(''/lists'', route_value_of (hd ex_routes))])], mr_any = []\<rparr>,
     pc_public_route_matcher = \<lparr>mr_routers = [], mr_any = []\<rparr>, pc_flag_config = [],
     pc_project_id = Segment ''todo-app'', pc_default_policy = DenyByDefault, pc_debug_mode = False,
     pc_auth_providers = [], pc_membership_resolver = None\<rparr>"

definition ex_request :: request_input where
  "ex_request = \<lparr>ri_method = Get, ri_path = ''/lists'', ri_query_string = None, ri_headers = [(''x-api-key'', ''k1'')],
     ri_client_ip = None\<rparr>"

definition ex_chain :: "nat resolver list" where
  "ex_chain = [static_api_key_resolver [(''k1'', \<lparr>ak_user_id = Segment ''alice'', ak_tenant_id = None, ak_groups = []\<rparr>)]]"

definition ex_engine :: "(nat, unit, unit) policy_engine" where
  "ex_engine = static_engine (static_engine_new PAllow)"

lemma ex_pipeline_forwards:
  "pipeline_public_match ex_env ex_config ex_request = NotPublic"
  "\<exists>out. evaluate_pipeline ex_env ex_config ex_request ex_chain ex_engine Enforce = Some out \<and> is_forward out"
proof -
  show "pipeline_public_match ex_env ex_config ex_request = NotPublic" by code_simp
  have "(case evaluate_pipeline ex_env ex_config ex_request ex_chain ex_engine Enforce of
      Some out \<Rightarrow> is_forward out | None \<Rightarrow> False)" by code_simp
  then show "\<exists>out. evaluate_pipeline ex_env ex_config ex_request ex_chain ex_engine Enforce = Some out \<and> is_forward out"
    by (auto split: option.splits)
qed


text \<open>
  C30. The pipeline always answers: for header values in ASCII, which is all that the adapters pass on, every
  request, configuration, identity chain, policy engine and mode gives an outcome and no phase panics.
\<close>

theorem pipeline_total:
  assumes "\<forall>(k, v) \<in> set (ri_headers input). is_ascii v"
  shows "\<exists>out. evaluate_pipeline env cfg input chain (engine :: ('n, 'd, 'e) policy_engine) mode = Some out"
proof -
  obtain c where c: "extract_credential (ri_headers input) = Some c" using extract_credential_total [OF assms] by blast
  have "\<exists>r. (authenticate chain input pm :: (('n, 'd) pipeline_outcome, _) outcome) = Some r" for pm
    by (auto simp: authenticate_def Let_def c split: option.splits sum.splits)
  then have "\<exists>r. pipeline_front env cfg input chain engine = Some r"
    by (auto simp: pipeline_front_def Let_def outcome_then_def split: option.splits sum.splits) (metis option.distinct(1))+
  then show ?thesis by (auto simp: evaluate_pipeline_def)
qed

theorem pipeline_total_witness:
  "\<exists>out. evaluate_pipeline ex_env ex_config ex_request ex_chain ex_engine Observe = Some out"
  by (rule pipeline_total) (simp add: ex_request_def byte_def)

text \<open>What an enforced outcome looks like in observe mode, where no policy decision blocks.\<close>

fun observed :: "('n, 'd) pipeline_outcome \<Rightarrow> ('n, 'd) pipeline_outcome" where
  "observed (Forward i f m r Allowed) = Forward i f m r WouldAllow"
| "observed out = out"

lemma observed_not_forward: "\<not> is_forward out \<Longrightarrow> observed out = out"
  by (cases out) simp_all

lemma evaluate_policy_modes:
  "case evaluate_policy engine Enforce input mt i of
     Inr (r, effect) \<Rightarrow> effect = Allowed \<and> evaluate_policy engine Observe input mt i = Inr (r, WouldAllow)
   | Inl out \<Rightarrow> \<exists>r. out = reject_forbidden_with_action_and_record (qualified_action_display (mt_action mt)) r \<and>
       evaluate_policy engine Observe input mt i = Inr (r, WouldDeny)"
  by (auto simp: evaluate_policy_def split: sum.splits bool.splits)

lemma route_and_decide_modes:
  assumes "enforced = route_and_decide env cfg engine Enforce input pm j"
    "observing = route_and_decide env cfg engine Observe input pm j"
  shows "observing = observed enforced \<or>
    (\<exists>i flags mt r. observing = Forward (Some i) flags (Some mt) r WouldDeny \<and>
       enforced = reject_forbidden_with_action_and_record (qualified_action_display (mt_action mt)) r)"
proof (cases "match_request (en_routes env) (pc_route_matcher cfg) (http_method_display (ri_method input)) (ri_path input)")
  case None
  then show ?thesis by (simp add: assms route_and_decide_def Let_def split: default_policy.splits)
next
  case (Some mt)
  show ?thesis
  proof (cases j)
    case None
    then show ?thesis using Some
      by (simp add: assms route_and_decide_def Let_def observed_not_forward split: option.splits)
  next
    case (Some i)
    then show ?thesis using evaluate_policy_modes [where engine = engine and input = input and mt = mt and i = i] \<open>match_request _ _ _ _ = Some mt\<close>
      by (auto simp: assms route_and_decide_def Let_def observed_not_forward split: sum.splits)
  qed
qed



end
