(* ===== verification/Event_Log.thy ===== *)
theory Event_Log
  imports Fgrn Json "HOL-Library.Multiset"
begin

text \<open>
  The per-organization event log of \<open>crates/authz-core/src/event\<close>: event kinds (\<open>kind.rs\<close>), drafts and
  signed envelopes (\<open>envelope.rs\<close>), the canonical bytes that are signed (\<open>canonical.rs\<close>), the fold of a
  log prefix into entity state (\<open>fold.rs\<close>) and the no-op decision for upserts (\<open>upsert.rs\<close>).
  Revisions are natural numbers: the code compares them and adds one. \<open>serde_json::to_vec\<close> and the
  SHA-256 hex digest are arguments of the canonical encoding.
\<close>

section \<open>Errors and event kinds\<close>

datatype authz_error =
    EvaluationFailed string
  | UnknownRevision nat nat
  | UnknownEntity string
  | CoreError core_error
  | InvalidPolicy string
  | ChainActorMismatch string string
  | UnknownEventKind string
  | InvalidEventId string
  | UnfoldableEvent nat string
  | InvalidScopePath string

datatype event_kind =
    OrgCreated | OrgUpdated | OrgUnitPut | PrincipalUpserted | PrincipalSetPut | GrantAdded
  | GrantRemoved | ResourcePromoted | ResourceTombstoned | DenyCreated | DenyRemoved | OrgActivated
  | OrgSuspended | OrgRestored | OrgKeyGenerated | OrgKeyRevoked | OrgKeyRotated | GroupPut | GroupDeleted

fun event_kind_str :: "event_kind \<Rightarrow> string" where
  "event_kind_str OrgCreated = ''org.created''"
| "event_kind_str OrgUpdated = ''org.updated''"
| "event_kind_str OrgUnitPut = ''org_unit.put''"
| "event_kind_str PrincipalUpserted = ''principal.upserted''"
| "event_kind_str PrincipalSetPut = ''principal_set.put''"
| "event_kind_str GrantAdded = ''grant.added''"
| "event_kind_str GrantRemoved = ''grant.removed''"
| "event_kind_str ResourcePromoted = ''resource.promoted''"
| "event_kind_str ResourceTombstoned = ''resource.tombstoned''"
| "event_kind_str DenyCreated = ''deny.created''"
| "event_kind_str DenyRemoved = ''deny.removed''"
| "event_kind_str OrgActivated = ''org.activated''"
| "event_kind_str OrgSuspended = ''org.suspended''"
| "event_kind_str OrgRestored = ''org.restored''"
| "event_kind_str OrgKeyGenerated = ''org.key_generated''"
| "event_kind_str OrgKeyRevoked = ''org.key_revoked''"
| "event_kind_str OrgKeyRotated = ''org.key_rotated''"
| "event_kind_str GroupPut = ''group.put''"
| "event_kind_str GroupDeleted = ''group.deleted''"

definition narrowing :: "event_kind \<Rightarrow> bool" where
  "narrowing k \<longleftrightarrow>
     k \<in> {GrantRemoved, ResourceTombstoned, DenyCreated, OrgSuspended, OrgKeyRevoked, GroupPut, GroupDeleted}"

definition event_kind_from_str :: "string \<Rightarrow> (authz_error, event_kind) result" where
  "event_kind_from_str s =
     (if s = ''org.created'' then Inr OrgCreated
      else if s = ''org.updated'' then Inr OrgUpdated
      else if s = ''org_unit.put'' then Inr OrgUnitPut
      else if s = ''principal.upserted'' then Inr PrincipalUpserted
      else if s = ''principal_set.put'' then Inr PrincipalSetPut
      else if s = ''grant.added'' then Inr GrantAdded
      else if s = ''grant.removed'' then Inr GrantRemoved
      else if s = ''resource.promoted'' then Inr ResourcePromoted
      else if s = ''resource.tombstoned'' then Inr ResourceTombstoned
      else if s = ''deny.created'' then Inr DenyCreated
      else if s = ''deny.removed'' then Inr DenyRemoved
      else if s = ''org.activated'' then Inr OrgActivated
      else if s = ''org.suspended'' then Inr OrgSuspended
      else if s = ''org.restored'' then Inr OrgRestored
      else if s = ''org.key_generated'' then Inr OrgKeyGenerated
      else if s = ''org.key_revoked'' then Inr OrgKeyRevoked
      else if s = ''org.key_rotated'' then Inr OrgKeyRotated
      else if s = ''group.put'' then Inr GroupPut
      else if s = ''group.deleted'' then Inr GroupDeleted
      else Inl (UnknownEventKind s))"

lemma event_kind_round_trip: "event_kind_from_str s = Inr k \<longleftrightarrow> s = event_kind_str k"
  by (cases k) (auto simp: event_kind_from_str_def)

lemma event_kind_str_inj: "event_kind_str a = event_kind_str b \<Longrightarrow> a = b"
  using event_kind_round_trip by (metis sum.inject(2))

section \<open>Drafts and envelopes\<close>

datatype event_id = EventId (eid_str: string)

definition event_id_try_new :: "string \<Rightarrow> (authz_error, event_id) result" where
  "event_id_try_new v = (if v = [] then Inl (InvalidEventId v) else Inr (EventId v))"

datatype actor = ActorPrincipal fgrn | ActorMachine string | ActorSystem

definition schema_version :: nat where "schema_version = 1"

record 'n event_draft_params =
  dp_event_id :: event_id
  dp_seq :: nat
  dp_kind :: event_kind
  dp_occurred_at :: string
  dp_actor :: actor
  dp_payload :: "'n json"

record 'n event_draft =
  dr_event_id :: event_id
  dr_seq :: nat
  dr_kind :: event_kind
  dr_occurred_at :: string
  dr_actor :: actor
  dr_narrowing :: bool
  dr_payload :: "'n json"

definition event_draft_new :: "'n event_draft_params \<Rightarrow> 'n event_draft" where
  "event_draft_new p =
     \<lparr>dr_event_id = dp_event_id p, dr_seq = dp_seq p, dr_kind = dp_kind p,
      dr_occurred_at = dp_occurred_at p, dr_actor = dp_actor p, dr_narrowing = narrowing (dp_kind p),
      dr_payload = dp_payload p\<rparr>"

record 'n event_envelope =
  ev_event_id :: event_id
  ev_seq :: nat
  ev_kind :: event_kind
  ev_occurred_at :: string
  ev_actor :: actor
  ev_narrowing :: bool
  ev_schema_version :: nat
  ev_payload :: "'n json"
  ev_key_id :: string
  ev_signature :: string

definition envelope_from_signed :: "'n event_draft \<Rightarrow> string \<Rightarrow> string \<Rightarrow> 'n event_envelope" where
  "envelope_from_signed d key_id signature =
     \<lparr>ev_event_id = dr_event_id d, ev_seq = dr_seq d, ev_kind = dr_kind d,
      ev_occurred_at = dr_occurred_at d, ev_actor = dr_actor d, ev_narrowing = dr_narrowing d,
      ev_schema_version = schema_version, ev_payload = dr_payload d, ev_key_id = key_id,
      ev_signature = signature\<rparr>"

section \<open>Canonical bytes\<close>

record 'n canonical_fields =
  cf_seq :: nat
  cf_event_id :: string
  cf_kind :: string
  cf_occurred_at :: string
  cf_narrowing :: bool
  cf_schema_version :: nat
  cf_payload :: "'n json"

definition fields_of_draft :: "'n event_draft \<Rightarrow> 'n canonical_fields" where
  "fields_of_draft d =
     \<lparr>cf_seq = dr_seq d, cf_event_id = eid_str (dr_event_id d), cf_kind = event_kind_str (dr_kind d),
      cf_occurred_at = dr_occurred_at d, cf_narrowing = dr_narrowing d,
      cf_schema_version = schema_version, cf_payload = dr_payload d\<rparr>"

definition fields_of_envelope :: "'n event_envelope \<Rightarrow> 'n canonical_fields" where
  "fields_of_envelope e =
     \<lparr>cf_seq = ev_seq e, cf_event_id = eid_str (ev_event_id e), cf_kind = event_kind_str (ev_kind e),
      cf_occurred_at = ev_occurred_at e, cf_narrowing = ev_narrowing e,
      cf_schema_version = ev_schema_version e, cf_payload = ev_payload e\<rparr>"

definition newline :: char where "newline = CHR 0x0A"

definition show_bool :: "bool \<Rightarrow> string" where
  "show_bool b = (if b then ''true'' else ''false'')"

definition canonical_bytes ::
  "('n json \<Rightarrow> string) \<Rightarrow> (string \<Rightarrow> string) \<Rightarrow> 'n canonical_fields \<Rightarrow> string \<Rightarrow> string" where
  "canonical_bytes to_vec sha256_hex f org_id =
     ''forgeguard-event-v1'' @ [newline] @
     ''org:'' @ org_id @ [newline] @
     ''seq:'' @ show_nat (cf_seq f) @ [newline] @
     ''event_id:'' @ cf_event_id f @ [newline] @
     ''kind:'' @ cf_kind f @ [newline] @
     ''occurred_at:'' @ cf_occurred_at f @ [newline] @
     ''narrowing:'' @ show_bool (cf_narrowing f) @ [newline] @
     ''schema_version:'' @ show_nat (cf_schema_version f) @ [newline] @
     ''payload_sha256:'' @ sha256_hex (to_vec (cf_payload f)) @ [newline]"

definition canonical_event_bytes ::
  "('n json \<Rightarrow> string) \<Rightarrow> (string \<Rightarrow> string) \<Rightarrow> 'n event_draft \<Rightarrow> string \<Rightarrow> string" where
  "canonical_event_bytes to_vec sha256_hex d org_id =
     canonical_bytes to_vec sha256_hex (fields_of_draft d) org_id"

definition canonical_envelope_bytes ::
  "('n json \<Rightarrow> string) \<Rightarrow> (string \<Rightarrow> string) \<Rightarrow> 'n event_envelope \<Rightarrow> string \<Rightarrow> string" where
  "canonical_envelope_bytes to_vec sha256_hex e org_id =
     canonical_bytes to_vec sha256_hex (fields_of_envelope e) org_id"

section \<open>Payloads\<close>

definition principal_event_payload :: "native_id \<Rightarrow> 'n json \<Rightarrow> 'n json" where
  "principal_event_payload i doc = JObj [(''native_id'', JStr (nid_str i)), (''principal'', doc)]"

definition key_event_payload :: "string \<Rightarrow> 'n json \<Rightarrow> 'n json" where
  "key_event_payload key_id keys = JObj [(''key_id'', JStr key_id), (''keys'', keys)]"

definition org_event_payload :: "'n json \<Rightarrow> 'n json option \<Rightarrow> 'n json" where
  "org_event_payload org config =
     JObj [(''organization'', org), (''config'', case config of Some c \<Rightarrow> c | None \<Rightarrow> JNull)]"

definition group_put_payload :: "string \<Rightarrow> 'n json \<Rightarrow> 'n json" where
  "group_put_payload name doc = JObj [(''name'', JStr name), (''group'', doc)]"

definition group_deleted_payload :: "string \<Rightarrow> 'n json" where
  "group_deleted_payload name = JObj [(''name'', JStr name)]"

definition org_semantic_view :: "'n json \<Rightarrow> 'n json" where
  "org_semantic_view payload =
     (case payload of
        JObj m \<Rightarrow> JObj (map (\<lambda>(k, v).
          (k, if k = ''organization'' then (case v of JObj org \<Rightarrow> JObj (obj_remove ''updated_at'' org) | _ \<Rightarrow> v)
              else v)) m)
      | _ \<Rightarrow> payload)"

section \<open>The fold\<close>

record 'n folded_state =
  fs_revision :: nat
  fs_principals :: "string \<rightharpoonup> 'n json"
  fs_promotions :: "string \<times> string \<rightharpoonup> string"
  fs_org :: "'n json option"
  fs_org_keys :: "'n json option"
  fs_groups :: "string \<rightharpoonup> 'n json"

definition folded_empty :: "'n folded_state" where
  "folded_empty =
     \<lparr>fs_revision = 0, fs_principals = Map.empty, fs_promotions = Map.empty, fs_org = None,
      fs_org_keys = None, fs_groups = Map.empty\<rparr>"

definition payload_str :: "'n event_envelope \<Rightarrow> string \<Rightarrow> (authz_error, string) result" where
  "payload_str e field =
     ok_or (json_as_str (json_index (ev_payload e) field))
       (UnfoldableEvent (ev_seq e)
         (event_kind_str (ev_kind e) @ '' payload missing string field '' @ field))"

definition payload_field :: "'n event_envelope \<Rightarrow> string \<Rightarrow> string \<Rightarrow> (authz_error, 'n json) result" where
  "payload_field e field reason =
     ok_or (json_get (ev_payload e) field) (UnfoldableEvent (ev_seq e) reason)"

definition apply_event :: "'n event_envelope \<Rightarrow> 'n folded_state \<Rightarrow> (authz_error, 'n folded_state) result" where
  "apply_event e s =
     (case ev_kind e of
        PrincipalUpserted \<Rightarrow>
          and_then (map_err (\<lambda>_. UnfoldableEvent (ev_seq e)
              ''principal.upserted payload missing native_id (pre-V5 event)'') (payload_str e ''native_id'')) (\<lambda>i.
          and_then (payload_field e ''principal''
              ''principal.upserted payload missing principal doc (pre-V5 event)'') (\<lambda>doc.
          Inr (s\<lparr>fs_principals := (fs_principals s)(i \<mapsto> doc)\<rparr>)))
      | ResourcePromoted \<Rightarrow>
          and_then (payload_str e ''fgrn'') (\<lambda>f.
          and_then (payload_str e ''resource_type'') (\<lambda>t.
          and_then (payload_str e ''native_id'') (\<lambda>i.
          Inr (s\<lparr>fs_promotions := (fs_promotions s)((t, i) \<mapsto> f)\<rparr>))))
      | ResourceTombstoned \<Rightarrow>
          and_then (payload_str e ''resource_type'') (\<lambda>t.
          and_then (payload_str e ''native_id'') (\<lambda>i.
          Inr (s\<lparr>fs_promotions := (fs_promotions s)((t, i) := None)\<rparr>)))
      | GroupPut \<Rightarrow>
          and_then (payload_str e ''name'') (\<lambda>name.
          and_then (payload_field e ''group'' (event_kind_str (ev_kind e) @ '' payload missing field group'')) (\<lambda>g.
          Inr (s\<lparr>fs_groups := (fs_groups s)(name \<mapsto> g)\<rparr>)))
      | GroupDeleted \<Rightarrow>
          and_then (payload_str e ''name'') (\<lambda>name.
          Inr (s\<lparr>fs_groups := (fs_groups s)(name := None)\<rparr>))
      | k \<Rightarrow>
          (if k \<in> {OrgCreated, OrgUpdated, OrgActivated, OrgSuspended, OrgRestored} then
             (if \<not> json_is_object (json_index (ev_payload e) ''organization'') then
                Inl (UnfoldableEvent (ev_seq e)
                  (event_kind_str k @ '' payload missing object field organization''))
              else Inr (s\<lparr>fs_org := Some (ev_payload e)\<rparr>))
           else if k \<in> {OrgKeyGenerated, OrgKeyRevoked, OrgKeyRotated} then
             and_then (payload_field e ''keys'' (event_kind_str k @ '' payload missing field keys'')) (\<lambda>keys.
             Inr (s\<lparr>fs_org_keys := Some keys\<rparr>))
           else Inl (UnfoldableEvent (ev_seq e) (''no fold rule for kind '' @ event_kind_str k))))"

text \<open>The loop over the enumerated events: the second argument is the index of the next event.\<close>

fun fold_loop ::
  "'n event_envelope list \<Rightarrow> nat \<Rightarrow> nat \<Rightarrow> 'n folded_state \<Rightarrow> (authz_error, 'n folded_state) result" where
  "fold_loop [] index requested s = Inr s"
| "fold_loop (e # es) index requested s =
     (if ev_seq e \<noteq> index + 1 then
        Inl (UnfoldableEvent (ev_seq e) (''event log gap: expected seq '' @ show_nat (index + 1)))
      else if ev_seq e > requested then Inr s
      else and_then (apply_event e s) (\<lambda>s'. fold_loop es (Suc index) requested s'))"

definition fold_events :: "'n event_envelope list \<Rightarrow> nat \<Rightarrow> (authz_error, 'n folded_state) result" where
  "fold_events events at =
     (let latest = (if events = [] then 0 else ev_seq (last events)) in
      if at = 0 \<or> at > latest then Inl (UnknownRevision at latest)
      else fold_loop events 0 at (folded_empty\<lparr>fs_revision := at\<rparr>))"

section \<open>Upserts\<close>

datatype 'n upsert_decision = NoOp | Changed "'n json"

definition decide_upsert :: "'n json option \<Rightarrow> 'n json \<Rightarrow> 'n upsert_decision" where
  "decide_upsert existing incoming =
     (case existing of
        Some current \<Rightarrow> if json_eq current incoming then NoOp else Changed incoming
      | None \<Rightarrow> Changed incoming)"


section \<open>The fold as last-writer-wins replay\<close>

text \<open>
  The abstract state of an organization maps entity keys to values; an event writes (or deletes) the
  value of one key.
\<close>

datatype model_key =
    MPrincipal string
  | MPromotion string string
  | MOrg
  | MOrgKeys
  | MGroup string

datatype 'n model_value = Doc "'n json" | Name string

type_synonym 'n model = "model_key \<rightharpoonup> 'n model_value"

fun abs_state :: "'n folded_state \<Rightarrow> 'n model" where
  "abs_state s (MPrincipal i) = map_option Doc (fs_principals s i)"
| "abs_state s (MPromotion t i) = map_option Name (fs_promotions s (t, i))"
| "abs_state s MOrg = map_option Doc (fs_org s)"
| "abs_state s MOrgKeys = map_option Doc (fs_org_keys s)"
| "abs_state s (MGroup n) = map_option Doc (fs_groups s n)"

definition text_field :: "'n json \<Rightarrow> string \<Rightarrow> string option" where
  "text_field p k = (case json_get p k of Some (JStr s) \<Rightarrow> Some s | _ \<Rightarrow> None)"

definition event_write :: "'n event_envelope \<Rightarrow> (model_key \<times> 'n model_value option) option" where
  "event_write e =
     (let p = ev_payload e in
      case ev_kind e of
        PrincipalUpserted \<Rightarrow>
          (case (text_field p ''native_id'', json_get p ''principal'') of
             (Some i, Some d) \<Rightarrow> Some (MPrincipal i, Some (Doc d)) | _ \<Rightarrow> None)
      | ResourcePromoted \<Rightarrow>
          (case (text_field p ''fgrn'', text_field p ''resource_type'', text_field p ''native_id'') of
             (Some f, Some t, Some i) \<Rightarrow> Some (MPromotion t i, Some (Name f)) | _ \<Rightarrow> None)
      | ResourceTombstoned \<Rightarrow>
          (case (text_field p ''resource_type'', text_field p ''native_id'') of
             (Some t, Some i) \<Rightarrow> Some (MPromotion t i, None) | _ \<Rightarrow> None)
      | GroupPut \<Rightarrow>
          (case (text_field p ''name'', json_get p ''group'') of
             (Some n, Some d) \<Rightarrow> Some (MGroup n, Some (Doc d)) | _ \<Rightarrow> None)
      | GroupDeleted \<Rightarrow> map_option (\<lambda>n. (MGroup n, None)) (text_field p ''name'')
      | OrgKeyGenerated \<Rightarrow> map_option (\<lambda>d. (MOrgKeys, Some (Doc d))) (json_get p ''keys'')
      | OrgKeyRevoked \<Rightarrow> map_option (\<lambda>d. (MOrgKeys, Some (Doc d))) (json_get p ''keys'')
      | OrgKeyRotated \<Rightarrow> map_option (\<lambda>d. (MOrgKeys, Some (Doc d))) (json_get p ''keys'')
      | OrgUnitPut \<Rightarrow> None | PrincipalSetPut \<Rightarrow> None | GrantAdded \<Rightarrow> None | GrantRemoved \<Rightarrow> None
      | DenyCreated \<Rightarrow> None | DenyRemoved \<Rightarrow> None
      | _ \<Rightarrow> (case json_get p ''organization'' of
               Some (JObj m) \<Rightarrow> Some (MOrg, Some (Doc p)) | _ \<Rightarrow> None))"

definition write_event :: "'n model \<Rightarrow> 'n event_envelope \<Rightarrow> 'n model" where
  "write_event m e = (case event_write e of Some (k, v) \<Rightarrow> m(k := v) | None \<Rightarrow> m)"

definition replay :: "'n event_envelope list \<Rightarrow> 'n model" where
  "replay es = foldl write_event Map.empty es"

lemma text_field_iff: "json_as_str (json_index p k) = text_field p k"
  by (auto simp: json_index_def text_field_def split: option.splits json.splits)

lemma is_object_iff:
  "json_is_object (json_index p k) \<longleftrightarrow> (case json_get p k of Some (JObj m) \<Rightarrow> True | _ \<Rightarrow> False)"
  by (auto simp: json_index_def split: option.splits json.splits)

lemma abs_state_updates:
  "abs_state (s\<lparr>fs_principals := (fs_principals s)(i := d)\<rparr>) = (abs_state s)(MPrincipal i := map_option Doc d)"
  "abs_state (s\<lparr>fs_promotions := (fs_promotions s)((t, i) := f)\<rparr>) =
     (abs_state s)(MPromotion t i := map_option Name f)"
  "abs_state (s\<lparr>fs_org := o'\<rparr>) = (abs_state s)(MOrg := map_option Doc o')"
  "abs_state (s\<lparr>fs_org_keys := o'\<rparr>) = (abs_state s)(MOrgKeys := map_option Doc o')"
  "abs_state (s\<lparr>fs_groups := (fs_groups s)(n := d)\<rparr>) = (abs_state s)(MGroup n := map_option Doc d)"
  by (rule ext, rename_tac k, case_tac k, auto)+

lemmas apply_event_simps =
  apply_event_def event_write_def payload_str_def payload_field_def text_field_iff is_object_iff

lemma apply_event_write:
  "apply_event e s = Inr s' \<Longrightarrow>
     \<exists>k v. event_write e = Some (k, v) \<and> abs_state s' = (abs_state s)(k := v) \<and>
       fs_revision s' = fs_revision s"
  by (cases "ev_kind e")
    (auto simp: apply_event_simps Let_def abs_state_updates split: if_splits option.splits json.splits)

lemma apply_event_ok_iff: "is_ok (apply_event e s) \<longleftrightarrow> event_write e \<noteq> None"
  by (cases "ev_kind e")
    (auto simp: apply_event_simps Let_def is_ok_iff split: if_splits option.splits json.splits)

text \<open>A log without gaps: the events carry the sequence numbers after the given one.\<close>

fun gap_free :: "nat \<Rightarrow> 'n event_envelope list \<Rightarrow> bool" where
  "gap_free n [] \<longleftrightarrow> True"
| "gap_free n (e # es) \<longleftrightarrow> ev_seq e = Suc n \<and> gap_free (Suc n) es"

fun apply_all :: "'n event_envelope list \<Rightarrow> 'n folded_state \<Rightarrow> (authz_error, 'n folded_state) result" where
  "apply_all [] s = Inr s"
| "apply_all (e # es) s = and_then (apply_event e s) (apply_all es)"

lemma gap_free_last: "gap_free n es \<Longrightarrow> es \<noteq> [] \<Longrightarrow> ev_seq (last es) = n + length es"
  by (induction es arbitrary: n) auto

lemma fold_loop_gap_free:
  "gap_free n es \<Longrightarrow> fold_loop es n at s = apply_all (take (at - n) es) s"
proof (induction es arbitrary: n s)
  case (Cons e es)
  show ?case
  proof (cases "at \<le> n")
    case False
    then have "at - n = Suc (at - Suc n)" by simp
    then have "take (at - n) (e # es) = e # take (at - Suc n) es" by simp
    moreover have "fold_loop es (Suc n) at = apply_all (take (at - Suc n) es)"
      using Cons by (intro ext) simp
    ultimately show ?thesis using Cons.prems False by simp
  qed (use Cons.prems in simp)
qed simp

lemma fold_events_gap_free:
  assumes "gap_free 0 es"
  shows "fold_events es at =
     (if at = 0 \<or> at > length es then Inl (UnknownRevision at (length es))
      else apply_all (take at es) (folded_empty\<lparr>fs_revision := at\<rparr>))"
  using assms gap_free_last [OF assms] fold_loop_gap_free [OF assms, of at]
  by (cases "es = []") (auto simp: fold_events_def)

lemma apply_all_append: "apply_all (xs @ ys) s = and_then (apply_all xs s) (apply_all ys)"
  by (induction xs arbitrary: s) (auto simp: and_then_def split: sum.splits)

lemma apply_all_replay:
  "apply_all es s = Inr s' \<Longrightarrow>
     abs_state s' = foldl write_event (abs_state s) es \<and> fs_revision s' = fs_revision s"
proof (induction es arbitrary: s)
  case (Cons e es)
  then obtain s1 where s1: "apply_event e s = Inr s1" "apply_all es s1 = Inr s'" by auto
  then obtain k v where "event_write e = Some (k, v)" "abs_state s1 = (abs_state s)(k := v)"
      "fs_revision s1 = fs_revision s"
    using apply_event_write by blast
  then have "write_event (abs_state s) e = abs_state s1" "fs_revision s1 = fs_revision s"
    unfolding write_event_def by simp_all
  then show ?case using Cons.IH [OF s1(2)] by simp
qed simp

lemma apply_all_ok_iff: "is_ok (apply_all es s) \<longleftrightarrow> (\<forall>e \<in> set es. event_write e \<noteq> None)"
proof (induction es arbitrary: s)
  case (Cons e es)
  show ?case
  proof (cases "apply_event e s")
    case (Inl x)
    then show ?thesis using apply_event_ok_iff [of e s] by (auto simp: is_ok_iff)
  next
    case (Inr s1)
    then show ?thesis using apply_event_ok_iff [of e s] Cons.IH [of s1] by (auto simp: is_ok_iff)
  qed
qed (simp add: is_ok_iff)

lemma abs_folded_empty: "abs_state (folded_empty\<lparr>fs_revision := n\<rparr>) = Map.empty"
  by (rule ext, rename_tac k, case_tac k) (auto simp: folded_empty_def)


section \<open>Properties of the event log\<close>

text \<open>
  C6. The fold implements last-writer-wins replay. On a gap-free log, folding at a revision between 1
  and the length of the log succeeds exactly when every event of the prefix is well formed and
  foldable; the state is then stamped with that revision and holds, for every principal, promotion,
  group, the organization and its keys, the value of the last event of the prefix that wrote it.
  Later events have no influence.
\<close>

theorem fold_events_refines_replay:
  assumes "gap_free 0 es" "1 \<le> at" "at \<le> length es"
  shows "(is_ok (fold_events es at) \<longleftrightarrow> (\<forall>e \<in> set (take at es). event_write e \<noteq> None)) \<and>
         (\<forall>s. fold_events es at = Inr s \<longrightarrow> fs_revision s = at \<and> abs_state s = replay (take at es))"
proof -
  have f: "fold_events es at = apply_all (take at es) (folded_empty\<lparr>fs_revision := at\<rparr>)"
    using assms by (simp add: fold_events_gap_free)
  show ?thesis
    unfolding f
    using apply_all_ok_iff [of "take at es" "folded_empty\<lparr>fs_revision := at\<rparr>"]
      apply_all_replay [of "take at es" "folded_empty\<lparr>fs_revision := at\<rparr>"]
    by (simp add: replay_def abs_folded_empty)
qed

definition ex_event :: "nat \<Rightarrow> event_kind \<Rightarrow> nat json \<Rightarrow> nat event_envelope" where
  "ex_event n k p =
     envelope_from_signed (event_draft_new \<lparr>dp_event_id = EventId ''01J'', dp_seq = n, dp_kind = k,
       dp_occurred_at = ''2026-01-01T00:00:00Z'', dp_actor = ActorSystem, dp_payload = p\<rparr>) ''k1'' ''sig''"

definition ex_log :: "nat event_envelope list" where
  "ex_log = [ex_event 1 GroupPut (group_put_payload ''admin'' JNull),
     ex_event 2 GroupDeleted (group_deleted_payload ''admin''),
     ex_event 3 PrincipalUpserted (principal_event_payload (NativeId ''maria'') (JBool True))]"

lemmas ex_log_simps =
  ex_log_def ex_event_def envelope_from_signed_def event_draft_new_def group_put_payload_def
  group_deleted_payload_def principal_event_payload_def

theorem fold_events_refines_replay_witness:
  "\<exists>s. fold_events ex_log 2 = Inr s \<and> abs_state s (MGroup ''admin'') = None"
proof -
  have g: "gap_free 0 ex_log" "1 \<le> (2::nat)" "2 \<le> length ex_log" by (simp_all add: ex_log_simps)
  have "\<forall>e \<in> set (take 2 ex_log). event_write e \<noteq> None"
    by (simp add: ex_log_simps event_write_def text_field_def)
  then obtain s where "fold_events ex_log 2 = Inr s" "abs_state s = replay (take 2 ex_log)"
    using fold_events_refines_replay [OF g] by (auto simp: is_ok_iff)
  moreover have "replay (take 2 ex_log) (MGroup ''admin'') = None"
    by (simp add: ex_log_simps replay_def write_event_def event_write_def text_field_def)
  ultimately show ?thesis by metis
qed

text \<open>
  Time travel is incremental: on a gap-free log the state at the next revision is the state at
  this revision with the next event applied and the revision advanced.
\<close>

theorem fold_events_next_revision:
  assumes "gap_free 0 es" "1 \<le> n" "n < length es" "fold_events es n = Inr s"
  shows "\<exists>s0. abs_state s0 = abs_state s \<and> fs_revision s0 = Suc n \<and>
           fold_events es (Suc n) = apply_event (es ! n) s0"
proof -
  have n: "apply_all (take n es) (folded_empty\<lparr>fs_revision := n\<rparr>) = Inr s"
    using assms by (simp add: fold_events_gap_free)
  then have "is_ok (apply_all (take n es) (folded_empty\<lparr>fs_revision := n\<rparr>))" by (simp add: is_ok_iff)
  then have "is_ok (apply_all (take n es) (folded_empty\<lparr>fs_revision := Suc n\<rparr>))"
    by (simp add: apply_all_ok_iff)
  then obtain s0 where s0: "apply_all (take n es) (folded_empty\<lparr>fs_revision := Suc n\<rparr>) = Inr s0"
    by (auto simp: is_ok_iff)
  have "take (Suc n) es = take n es @ [es ! n]" using assms(3) by (simp add: take_Suc_conv_app_nth)
  then have "fold_events es (Suc n) = and_then (Inr s0) (apply_all [es ! n])"
    using assms s0 by (simp add: fold_events_gap_free apply_all_append del: apply_all.simps)
  also have "\<dots> = apply_event (es ! n) s0" by (cases "apply_event (es ! n) s0") auto
  finally show ?thesis
    using apply_all_replay [OF s0] apply_all_replay [OF n] by (auto simp: abs_folded_empty)
qed

theorem fold_events_next_revision_witness:
  "\<exists>s0. fs_revision s0 = 2 \<and> fold_events ex_log 2 = apply_event (ex_log ! 1) s0"
proof -
  have g: "gap_free 0 ex_log" "1 \<le> (1::nat)" "1 < length ex_log" by (simp_all add: ex_log_simps)
  have "fold_events ex_log 1 = Inr (folded_empty\<lparr>fs_revision := 1, fs_groups := Map.empty(''admin'' \<mapsto> JNull)\<rparr>)"
    unfolding fold_events_gap_free [OF g(1)]
    by (simp add: ex_log_simps apply_event_def payload_str_def payload_field_def
        json_index_def folded_empty_def)
  from fold_events_next_revision [OF g this] show ?thesis by (auto simp: numeral_2_eq_2)
qed

text \<open>
  Sealing a draft does not change what is signed: the bytes a verifier reconstructs from the
  stored envelope are the bytes that were signed for the draft.
\<close>

theorem canonical_bytes_survive_sealing:
  "canonical_envelope_bytes to_vec sha256_hex (envelope_from_signed d key_id signature) org_id =
     canonical_event_bytes to_vec sha256_hex d org_id"
  by (simp add: canonical_envelope_bytes_def canonical_event_bytes_def fields_of_envelope_def
      fields_of_draft_def envelope_from_signed_def)

lemma canonical_bytes_inj:
  assumes "newline \<notin> set org_id" "newline \<notin> set org_id'"
    and "newline \<notin> set (cf_event_id f)" "newline \<notin> set (cf_event_id g)"
    and "newline \<notin> set (cf_kind f)" "newline \<notin> set (cf_kind g)"
    and "newline \<notin> set (cf_occurred_at f)" "newline \<notin> set (cf_occurred_at g)"
    and "canonical_bytes to_vec sha256_hex f org_id = canonical_bytes to_vec sha256_hex g org_id'"
  shows "org_id = org_id' \<and> cf_seq f = cf_seq g \<and> cf_event_id f = cf_event_id g \<and> cf_kind f = cf_kind g \<and>
    cf_occurred_at f = cf_occurred_at g \<and> cf_narrowing f = cf_narrowing g \<and>
    cf_schema_version f = cf_schema_version g \<and>
    sha256_hex (to_vec (cf_payload f)) = sha256_hex (to_vec (cf_payload g))"
proof -
  have nat: "newline \<notin> set (show_nat n)" for n
    using show_nat_digits [of newline n] by (auto simp: newline_def byte_class_defs)
  have bool: "newline \<notin> set (show_bool b)" "show_bool b = show_bool c \<longleftrightarrow> b = c" for b c
    by (auto simp: show_bool_def newline_def)
  show ?thesis
    using assms(9)
    by (simp add: canonical_bytes_def sep_append_eq_iff assms(1-8) nat bool)
qed

text \<open>
  C37. The signed bytes pin down the event: for organization ids, event ids and timestamps without
  line breaks, two envelopes have equal canonical bytes exactly when they agree on organization,
  sequence number, event id, kind, time, narrowing flag, schema version and payload digest. The
  actor and the key id are not among the signed fields.
\<close>

theorem canonical_bytes_determine_event:
  assumes "newline \<notin> set org_id" "newline \<notin> set org_id'"
    and "newline \<notin> set (eid_str (ev_event_id e))" "newline \<notin> set (eid_str (ev_event_id e'))"
    and "newline \<notin> set (ev_occurred_at e)" "newline \<notin> set (ev_occurred_at e')"
  shows "canonical_envelope_bytes to_vec sha256_hex e org_id = canonical_envelope_bytes to_vec sha256_hex e' org_id' \<longleftrightarrow>
    org_id = org_id' \<and> ev_seq e = ev_seq e' \<and> ev_event_id e = ev_event_id e' \<and> ev_kind e = ev_kind e' \<and>
    ev_occurred_at e = ev_occurred_at e' \<and> ev_narrowing e = ev_narrowing e' \<and>
    ev_schema_version e = ev_schema_version e' \<and>
    sha256_hex (to_vec (ev_payload e)) = sha256_hex (to_vec (ev_payload e'))" (is "?L \<longleftrightarrow> ?R")
proof
  have kind: "newline \<notin> set (event_kind_str k)" for k by (cases k) (auto simp: newline_def)
  assume ?L
  then show ?R
    using canonical_bytes_inj [of org_id org_id' "fields_of_envelope e" "fields_of_envelope e'" to_vec sha256_hex]
      assms kind event_kind_str_inj event_id.expand
    by (auto simp: canonical_envelope_bytes_def fields_of_envelope_def)
next
  assume ?R
  then show ?L by (simp add: canonical_envelope_bytes_def fields_of_envelope_def canonical_bytes_def)
qed

theorem canonical_bytes_determine_event_witness:
  "canonical_envelope_bytes (\<lambda>_. ''{}'') id (ex_event 1 GroupPut JNull) ''acme'' \<noteq>
     canonical_envelope_bytes (\<lambda>_. ''{}'') id (ex_event 2 GroupPut JNull) ''acme''"
proof -
  have "newline \<notin> set ''acme''" "newline \<notin> set (eid_str (ev_event_id (ex_event n GroupPut JNull)))"
    "newline \<notin> set (ev_occurred_at (ex_event n GroupPut JNull))" for n
    by (simp_all add: newline_def ex_log_simps)
  then show ?thesis
    using canonical_bytes_determine_event [of "''acme''" "''acme''" "ex_event 1 GroupPut JNull"
        "ex_event 2 GroupPut JNull" "\<lambda>_. ''{}''" id]
    by (simp add: ex_log_simps)
qed

lemma json_eq_permuted_object:
  assumes "json_wf (JObj m)" "hm_wf m'" "mset m' = mset m"
  shows "json_eq (JObj m) (JObj m')"
proof -
  have same: "set m' = set m" "length m' = length m"
    using assms(3) by (metis mset_eq_setD) (metis assms(3) mset_eq_length)
  have "json_eq x x" if "(k, x) \<in> set m" for k x
    using assms(1) that by (intro json_eq_refl) auto
  moreover have "map_of m' k = Some x" if "(k, x) \<in> set m" for k x
    using assms(2) that same(1) by (simp add: map_of_is_SomeI)
  ultimately show ?thesis using same(2) by fastforce
qed

text \<open>
  Upserts are retry-safe: sending a document again after it was stored is a no-op, and so is
  sending it with the keys of the object in another order; the stored payload of a change is the
  incoming document itself.
\<close>

theorem decide_upsert_retry:
  assumes "json_wf (JObj m)" "hm_wf m'" "mset m' = mset m"
    and "decide_upsert existing (JObj m) = Changed payload"
  shows "payload = JObj m \<and> decide_upsert (Some payload) (JObj m) = NoOp \<and>
         decide_upsert (Some payload) (JObj m') = NoOp"
proof -
  have p: "payload = JObj m" using assms(4) by (auto simp: decide_upsert_def split: option.splits if_splits)
  have "json_eq (JObj m) (JObj m)" using assms(1) by (rule json_eq_refl)
  moreover have "json_eq (JObj m) (JObj m')" by (rule json_eq_permuted_object [OF assms(1-3)])
  ultimately show ?thesis using p by (simp add: decide_upsert_def del: json_eq.simps)
qed

theorem decide_upsert_retry_witness:
  "decide_upsert (Some (JObj [(''a'', JBool True), (''b'', JNull :: nat json)]))
     (JObj [(''b'', JNull), (''a'', JBool True)]) = NoOp"
proof -
  have "json_wf (JObj [(''a'', JBool True), (''b'', JNull :: nat json)])"
    "hm_wf [(''b'', JNull :: nat json), (''a'', JBool True)]"
    "mset [(''b'', JNull :: nat json), (''a'', JBool True)] = mset [(''a'', JBool True), (''b'', JNull)]"
    by simp_all
  moreover have "decide_upsert None (JObj [(''a'', JBool True), (''b'', JNull :: nat json)]) =
      Changed (JObj [(''a'', JBool True), (''b'', JNull)])"
    by (simp add: decide_upsert_def)
  ultimately show ?thesis using decide_upsert_retry by blast
qed

end
