(* ===== verification/Authz_Store.thy ===== *)
theory Authz_Store
  imports Hierarchy Event_Log
begin

text \<open>
  The entity store of \<open>crates/authz-core/src/store\<close>: the model state (\<open>model.rs\<close>), the entity slice
  read for one decision (\<open>slice.rs\<close>), the store's queries and writes (\<open>traits.rs\<close>) and the in-memory
  store with its full revision history (\<open>memory.rs\<close>); and the in-memory event log of
  \<open>event/log.rs\<close>. The locale \<open>authz_store\<close> is the contract of the store trait: writes are
  all-or-nothing and numbered, and reads at a pinned revision never change. Revisions are natural
  numbers; the code compares them and subtracts one after a test against zero.
\<close>

section \<open>The model state\<close>

record model_state =
  ms_spine :: spine
  ms_principals :: "principal_node list"
  ms_sets :: "principal_set list"
  ms_grants :: "grant list"
  ms_promotions :: "promoted_resource list"

definition model_state_new :: "spine \<Rightarrow> model_state" where
  "model_state_new s =
     \<lparr>ms_spine = s, ms_principals = [], ms_sets = [], ms_grants = [], ms_promotions = []\<rparr>"

definition upsert_principal :: "model_state \<Rightarrow> principal_node \<Rightarrow> model_state" where
  "upsert_principal m p =
     m\<lparr>ms_principals := filter (\<lambda>q. pr_fgrn q \<noteq> pr_fgrn p) (ms_principals m) @ [p]\<rparr>"

definition model_principal :: "model_state \<Rightarrow> fgrn \<Rightarrow> principal_node option" where
  "model_principal m f = find (\<lambda>p. pr_fgrn p = f) (ms_principals m)"

definition upsert_principal_set :: "model_state \<Rightarrow> principal_set \<Rightarrow> model_state" where
  "upsert_principal_set m s =
     m\<lparr>ms_sets := filter (\<lambda>q. ps_fgrn q \<noteq> ps_fgrn s) (ms_sets m) @ [s]\<rparr>"

definition add_grant :: "model_state \<Rightarrow> grant \<Rightarrow> model_state" where
  "add_grant m g = m\<lparr>ms_grants := ms_grants m @ [g]\<rparr>"

definition remove_grant :: "model_state \<Rightarrow> fgrn \<Rightarrow> fgrn \<Rightarrow> bool \<times> model_state" where
  "remove_grant m res to =
     (let gs = filter (\<lambda>g. \<not> (gr_resource g = res \<and> gr_to g = to)) (ms_grants m) in
      (length gs \<noteq> length (ms_grants m), m\<lparr>ms_grants := gs\<rparr>))"

definition upsert_promotion :: "model_state \<Rightarrow> promoted_resource \<Rightarrow> model_state" where
  "upsert_promotion m p =
     m\<lparr>ms_promotions := filter (\<lambda>q. pm_fgrn q \<noteq> pm_fgrn p) (ms_promotions m) @ [p]\<rparr>"

definition model_promotion :: "model_state \<Rightarrow> fgrn \<Rightarrow> promoted_resource option" where
  "model_promotion m f = find (\<lambda>p. pm_fgrn p = f) (ms_promotions m)"

section \<open>Slices\<close>

record entity_slice =
  sl_principal :: principal_node
  sl_principal_sets :: "principal_set list"
  sl_org_units :: "org_unit list"
  sl_grants :: "grant list"
  sl_promotion :: "promoted_resource option"
  sl_revision :: nat

text \<open>One pass of the inner loop over all sets, and the bounded outer loop that stops at a fixpoint.\<close>

fun select_pass ::
    "principal_set list \<Rightarrow> principal_set list \<Rightarrow> fgrn list \<Rightarrow> bool \<Rightarrow> principal_set list \<times> fgrn list \<times> bool" where
  "select_pass [] selected members grew = (selected, members, grew)"
| "select_pass (s # ss) selected members grew =
     (if list_ex (\<lambda>q. ps_fgrn q = ps_fgrn s) selected then select_pass ss selected members grew
      else if list_ex (ps_contains s) members then
        select_pass ss (selected @ [s]) (members @ [ps_fgrn s]) True
      else select_pass ss selected members grew)"

fun select_rounds :: "nat \<Rightarrow> principal_set list \<Rightarrow> principal_set list \<Rightarrow> fgrn list \<Rightarrow> principal_set list" where
  "select_rounds 0 all selected members = selected"
| "select_rounds (Suc n) all selected members =
     (case select_pass all selected members False of
        (selected', members', grew) \<Rightarrow>
          if grew then select_rounds n all selected' members' else selected')"

definition transitive_principal_sets :: "model_state \<Rightarrow> fgrn \<Rightarrow> principal_set list" where
  "transitive_principal_sets m member =
     select_rounds (Suc (length (ms_sets m))) (ms_sets m) [] [member]"

fun ancestry_units :: "spine \<Rightarrow> fgrn list \<Rightarrow> org_unit list \<Rightarrow> (authz_error, org_unit list) result" where
  "ancestry_units sp [] us = Inr us"
| "ancestry_units sp (node # ns) us =
     (if list_ex (\<lambda>u. ou_fgrn u = node) us then ancestry_units sp ns us
      else
        and_then (map_err CoreError (spine_parent sp node)) (\<lambda>parent.
        and_then (map_err CoreError (org_unit_try_new node parent)) (\<lambda>u.
        ancestry_units sp ns (us @ [u]))))"

fun spine_ancestry :: "spine \<Rightarrow> fgrn list \<Rightarrow> org_unit list \<Rightarrow> (authz_error, org_unit list) outcome" where
  "spine_ancestry sp [] us = Some (Inr us)"
| "spine_ancestry sp (a # as) us =
     (if fgrn_kind a \<noteq> KOrgUnit then spine_ancestry sp as us
      else
        outcome_then (map_option (map_err CoreError) (spine_path sp a)) (\<lambda>path.
        outcome_then (Some (ancestry_units sp path us)) (\<lambda>us'.
        spine_ancestry sp as us')))"

definition slice_anchors :: "principal_node \<Rightarrow> promoted_resource option \<Rightarrow> fgrn list" where
  "slice_anchors p promo =
     pr_anchor p # (case promo of Some q \<Rightarrow> [pm_anchor q] | None \<Rightarrow> [])"

definition select_slice :: "model_state \<Rightarrow> fgrn \<Rightarrow> fgrn \<Rightarrow> nat \<Rightarrow> (authz_error, entity_slice) outcome" where
  "select_slice m prin res revision =
     (case model_principal m prin of
        None \<Rightarrow> Some (Inl (UnknownEntity (fgrn_display prin)))
      | Some p \<Rightarrow>
          outcome_then (spine_ancestry (ms_spine m) (slice_anchors p (model_promotion m res)) []) (\<lambda>units.
          Some (Inr \<lparr>sl_principal = p,
                     sl_principal_sets = transitive_principal_sets m (pr_fgrn p),
                     sl_org_units = units,
                     sl_grants = filter (\<lambda>g. gr_resource g = res) (ms_grants m),
                     sl_promotion = model_promotion m res,
                     sl_revision = revision\<rparr>)))"

section \<open>The store interface\<close>

record slice_query =
  sq_principal :: fgrn
  sq_resource :: fgrn
  sq_revision :: "nat option"

definition slice_query_new :: "fgrn \<Rightarrow> fgrn \<Rightarrow> slice_query" where
  "slice_query_new p r = \<lparr>sq_principal = p, sq_resource = r, sq_revision = None\<rparr>"

definition slice_at_revision :: "slice_query \<Rightarrow> nat \<Rightarrow> slice_query" where
  "slice_at_revision q r = q\<lparr>sq_revision := Some r\<rparr>"

datatype store_write =
    PutOrgUnit org_unit
  | PutPrincipal principal_node
  | PutPrincipalSet principal_set
  | PutGrant grant
  | RemoveGrant fgrn fgrn
  | PutPromotion promoted_resource

section \<open>The in-memory store\<close>

record memory_store =
  mst_history :: "model_state list"
  mst_poisoned :: bool

definition memory_store_new :: "model_state \<Rightarrow> memory_store" where
  "memory_store_new m = \<lparr>mst_history = [m], mst_poisoned = False\<rparr>"

text \<open>A lock is poisoned when a thread panicked while holding it.\<close>

definition poison_message :: string where
  "poison_message = ''poisoned lock: another task failed inside''"

definition store_locked :: "memory_store \<Rightarrow> (authz_error, model_state list) result" where
  "store_locked st =
     (if mst_poisoned st then Inl (EvaluationFailed (''memory store lock poisoned: '' @ poison_message))
      else Inr (mst_history st))"

definition memory_slice :: "memory_store \<Rightarrow> slice_query \<Rightarrow> (authz_error, entity_slice) outcome" where
  "memory_slice st q =
     outcome_then (Some (store_locked st)) (\<lambda>history.
       let latest = length history;
           revision = (case sq_revision q of Some r \<Rightarrow> r | None \<Rightarrow> latest)
       in if revision = 0 \<or> revision > latest then Some (Inl (UnknownRevision revision latest))
          else select_slice (history ! (revision - 1)) (sq_principal q) (sq_resource q) revision)"

definition apply_write :: "model_state \<Rightarrow> store_write \<Rightarrow> (authz_error, model_state) result" where
  "apply_write m w =
     (case w of
        PutOrgUnit u \<Rightarrow>
          and_then (map_err CoreError (spine_add (ms_spine m) u)) (\<lambda>sp. Inr (m\<lparr>ms_spine := sp\<rparr>))
      | PutPrincipal p \<Rightarrow> Inr (upsert_principal m p)
      | PutPrincipalSet s \<Rightarrow> Inr (upsert_principal_set m s)
      | PutGrant g \<Rightarrow> Inr (add_grant m g)
      | RemoveGrant res to \<Rightarrow> Inr (snd (remove_grant m res to))
      | PutPromotion p \<Rightarrow> Inr (upsert_promotion m p))"

definition memory_apply :: "memory_store \<Rightarrow> store_write \<Rightarrow> (authz_error, nat) result \<times> memory_store" where
  "memory_apply st w =
     (case and_then (store_locked st) (\<lambda>history.
             if history = [] then Inl (EvaluationFailed ''memory store has no state'')
             else and_then (apply_write (last history) w) (\<lambda>next. Inr (history @ [next]))) of
        Inl e \<Rightarrow> (Inl e, st)
      | Inr history' \<Rightarrow> (Inr (length history'), st\<lparr>mst_history := history'\<rparr>))"

definition memory_latest_revision :: "memory_store \<Rightarrow> (authz_error, nat) result" where
  "memory_latest_revision st = and_then (store_locked st) (\<lambda>h. Inr (length h))"

section \<open>The contract of a store\<close>

fun apply_all_writes ::
    "('s \<Rightarrow> store_write \<Rightarrow> (authz_error, nat) result \<times> 's) \<Rightarrow> 's \<Rightarrow> store_write list \<Rightarrow> 's" where
  "apply_all_writes ap st [] = st"
| "apply_all_writes ap st (w # ws) = apply_all_writes ap (snd (ap st w)) ws"

locale authz_store =
  fixes read_slice :: "'s \<Rightarrow> slice_query \<Rightarrow> (authz_error, entity_slice) outcome"
    and app :: "'s \<Rightarrow> store_write \<Rightarrow> (authz_error, nat) result \<times> 's"
    and latest :: "'s \<Rightarrow> (authz_error, nat) result"
    and invar :: "'s \<Rightarrow> bool"
  assumes invar_apply: "invar st \<Longrightarrow> invar (snd (app st w))"
    and invar_latest: "invar st \<Longrightarrow> \<exists>k. latest st = Inr k"
    and apply_ok: "invar st \<Longrightarrow> app st w = (Inr r, st') \<Longrightarrow> latest st = Inr k \<Longrightarrow> r = Suc k \<and> latest st' = Inr r"
    and apply_error: "invar st \<Longrightarrow> app st w = (Inl e, st') \<Longrightarrow> st' = st"
    and pinned: "invar st \<Longrightarrow> latest st = Inr k \<Longrightarrow> sq_revision q = Some r \<Longrightarrow> 0 < r \<Longrightarrow> r \<le> k \<Longrightarrow>
      read_slice (snd (app st w)) q = read_slice st q"
    and unknown: "invar st \<Longrightarrow> latest st = Inr k \<Longrightarrow> sq_revision q = Some r \<Longrightarrow> r = 0 \<or> k < r \<Longrightarrow>
      \<exists>e. read_slice st q = Some (Inl e)"
    and unpinned: "invar st \<Longrightarrow> latest st = Inr k \<Longrightarrow> sq_revision q = None \<Longrightarrow>
      read_slice st q = read_slice st (slice_at_revision q k)"
begin

lemma latest_apply:
  assumes "invar st" "latest st = Inr k"
  shows "\<exists>k'. latest (snd (app st w)) = Inr k' \<and> k \<le> k'"
proof (cases "app st w")
  case (Pair res st')
  show ?thesis
  proof (cases res)
    case (Inl e)
    then show ?thesis using apply_error [OF assms(1)] Pair assms(2) by auto
  next
    case (Inr r)
    then show ?thesis using apply_ok [OF assms(1)] Pair assms(2) by fastforce
  qed
qed

lemma pinned_writes:
  assumes "invar st" "latest st = Inr k" "sq_revision q = Some r" "0 < r" "r \<le> k"
  shows "read_slice (apply_all_writes app st ws) q = read_slice st q"
  using assms
proof (induction ws arbitrary: st k)
  case (Cons w ws)
  obtain k' where k': "latest (snd (app st w)) = Inr k'" "k \<le> k'"
    using latest_apply [OF Cons.prems(1,2)] by blast
  have "read_slice (apply_all_writes app (snd (app st w)) ws) q = read_slice (snd (app st w)) q"
    using Cons.IH [OF invar_apply [OF Cons.prems(1)] k'(1) Cons.prems(3,4)] Cons.prems(5) k'(2) by simp
  then show ?case using pinned [OF Cons.prems] by simp
qed simp

lemma invar_writes: "invar st \<Longrightarrow> invar (apply_all_writes app st ws)"
  by (induction ws arbitrary: st) (auto intro: invar_apply)

lemma latest_writes:
  assumes "invar st" "latest st = Inr k"
  shows "\<exists>k'. latest (apply_all_writes app st ws) = Inr k' \<and> k \<le> k'"
  using assms
proof (induction ws arbitrary: st k)
  case (Cons w ws)
  obtain k' where k': "latest (snd (app st w)) = Inr k'" "k \<le> k'"
    using latest_apply [OF Cons.prems] by blast
  then show ?case using Cons.IH [OF invar_apply [OF Cons.prems(1)] k'(1)] by fastforce
qed simp

end

definition memory_store_wf :: "memory_store \<Rightarrow> bool" where
  "memory_store_wf st \<longleftrightarrow> mst_history st \<noteq> [] \<and> \<not> mst_poisoned st"

lemma memory_apply_history:
  assumes "memory_apply st w = (res, st')"
  shows "mst_poisoned st' = mst_poisoned st \<and>
    (case res of
       Inl e \<Rightarrow> st' = st
     | Inr r \<Rightarrow> mst_history st \<noteq> [] \<and> \<not> mst_poisoned st \<and> r = Suc (length (mst_history st)) \<and>
         (\<exists>m. apply_write (last (mst_history st)) w = Inr m \<and> mst_history st' = mst_history st @ [m]))"
  using assms
  by (auto simp: memory_apply_def store_locked_def and_then_Inr_iff split: sum.splits if_splits)

interpretation memory: authz_store memory_slice memory_apply memory_latest_revision memory_store_wf
proof (unfold_locales, goal_cases)
  case (1 st w)
  obtain res st' where "memory_apply st w = (res, st')" by fastforce
  then show ?case using 1 memory_apply_history [of st w res st']
    by (auto simp: memory_store_wf_def split: sum.splits)
next
  case (3 st w r st' k)
  then show ?case using memory_apply_history [of st w "Inr r" st']
    by (auto simp: memory_latest_revision_def store_locked_def memory_store_wf_def)
next
  case (4 st w e st')
  then show ?case using memory_apply_history [of st w "Inl e" st'] by simp
next
  case (5 st k q r w)
  obtain res st' where st': "memory_apply st w = (res, st')" by fastforce
  have k: "k = length (mst_history st)" "\<not> mst_poisoned st"
    using 5 by (auto simp: memory_latest_revision_def store_locked_def memory_store_wf_def)
  show ?case
  proof (cases res)
    case (Inl e)
    then show ?thesis using memory_apply_history [OF st'] st' by simp
  next
    case (Inr n)
    then show ?thesis
      using memory_apply_history [OF st'] st' 5(3,4,5) k
      by (auto simp: memory_slice_def store_locked_def nth_append Let_def)
  qed
qed (auto simp: memory_latest_revision_def store_locked_def memory_store_wf_def memory_slice_def
    slice_at_revision_def Let_def)


section \<open>The invariant of the store\<close>

fun store_write_wf :: "store_write \<Rightarrow> bool" where
  "store_write_wf (PutOrgUnit u) = org_unit_wf u"
| "store_write_wf (PutPrincipal p) = principal_wf p"
| "store_write_wf (PutPrincipalSet s) = principal_set_wf s"
| "store_write_wf (PutGrant g) = grant_wf g"
| "store_write_wf (RemoveGrant res to) = True"
| "store_write_wf (PutPromotion p) = True"

definition model_state_wf :: "model_state \<Rightarrow> bool" where
  "model_state_wf m \<longleftrightarrow>
     spine_wf (ms_spine m) \<and>
     distinct (map pr_fgrn (ms_principals m)) \<and> list_all principal_wf (ms_principals m) \<and>
     distinct (map ps_fgrn (ms_sets m)) \<and> list_all principal_set_wf (ms_sets m) \<and>
     list_all grant_wf (ms_grants m) \<and>
     distinct (map pm_fgrn (ms_promotions m))"

lemma distinct_upsert:
  "distinct (map key xs) \<Longrightarrow> distinct (map key (filter (\<lambda>q. key q \<noteq> key x) xs @ [x]))"
  by (auto simp: distinct_map_filter)

lemma apply_write_wf:
  assumes "model_state_wf m" "store_write_wf w" "apply_write m w = Inr m'"
  shows "model_state_wf m'"
  using assms
  by (cases w)
    (auto simp: apply_write_def model_state_wf_def upsert_principal_def upsert_principal_set_def
      add_grant_def remove_grant_def upsert_promotion_def Let_def list_all_iff distinct_map_filter
      and_then_def map_err_def split: sum.splits dest: spine_add_wf)

inductive store_reachable :: "memory_store \<Rightarrow> bool" where
  new: "spine_reachable s \<Longrightarrow> store_reachable (memory_store_new (model_state_new s))"
| step: "store_reachable st \<Longrightarrow> store_write_wf w \<Longrightarrow> store_reachable (snd (memory_apply st w))"

lemma store_reachable_wf:
  "store_reachable st \<Longrightarrow> memory_store_wf st \<and> list_all model_state_wf (mst_history st)"
proof (induction rule: store_reachable.induct)
  case (new s)
  then show ?case
    by (simp add: memory_store_new_def memory_store_wf_def model_state_new_def model_state_wf_def
        spine_reachable_wf)
next
  case (step st w)
  obtain res st' where st': "memory_apply st w = (res, st')" by fastforce
  have "model_state_wf m" if "apply_write (last (mst_history st)) w = Inr m" for m
    using apply_write_wf [OF _ step.hyps(2) that] step.IH
    by (auto simp: memory_store_wf_def list_all_iff)
  then show ?case
    using memory_apply_history [OF st'] st' step.IH by (auto simp: memory_store_wf_def split: sum.splits)
qed

section \<open>Transitive set membership by rounds\<close>

lemma find_set_member:
  "distinct (map ps_fgrn all) \<Longrightarrow> s \<in> set all \<Longrightarrow> find_set all (ps_fgrn s) = Some s"
  unfolding find_set_def
  by (induction all) (auto simp: rev_image_eqI)

lemma select_pass_grows:
  assumes "select_pass ss sel mem grew = (sel', mem', grew')"
  shows "\<exists>new. sel' = sel @ new \<and> mem' = mem @ map ps_fgrn new \<and> grew' = (grew \<or> new \<noteq> []) \<and>
    set new \<subseteq> set ss \<and> (distinct (map ps_fgrn sel) \<longrightarrow> distinct (map ps_fgrn sel')) \<and>
    (new = [] \<longrightarrow> (\<forall>s \<in> set ss. ps_fgrn s \<in> ps_fgrn ` set sel \<or> \<not> list_ex (ps_contains s) mem))"
  using assms
proof (induction ss sel mem grew rule: select_pass.induct)
  case (2 s ss sel mem grew)
  consider (old) "list_ex (\<lambda>q. ps_fgrn q = ps_fgrn s) sel"
    | (new) "\<not> list_ex (\<lambda>q. ps_fgrn q = ps_fgrn s) sel" "list_ex (ps_contains s) mem"
    | (skip) "\<not> list_ex (\<lambda>q. ps_fgrn q = ps_fgrn s) sel" "\<not> list_ex (ps_contains s) mem" by blast
  then show ?case
  proof cases
    case old
    then have "ps_fgrn s \<in> ps_fgrn ` set sel" by (auto simp: list_ex_iff intro: rev_image_eqI)
    then show ?thesis using 2(1) [OF old] 2(4) old by auto
  next
    case new
    then obtain ns where ns: "sel' = (sel @ [s]) @ ns" "mem' = (mem @ [ps_fgrn s]) @ map ps_fgrn ns"
        "grew'" "set ns \<subseteq> set ss" "distinct (map ps_fgrn (sel @ [s])) \<longrightarrow> distinct (map ps_fgrn sel')"
      using 2(2) [OF new] 2(4) by auto
    have "ps_fgrn s \<notin> ps_fgrn ` set sel" using new(1) by (auto simp: list_ex_iff)
    then show ?thesis using ns by (intro exI [of _ "s # ns"]) auto
  next
    case skip
    then show ?thesis using 2(3) [OF skip] 2(4) by auto
  qed
qed auto

lemma select_pass_sound:
  assumes "select_pass ss sel mem grew = (sel', mem', grew')" "set ss \<subseteq> set all"
    "distinct (map ps_fgrn all)" "\<forall>s \<in> set all. fgrn_kind (ps_fgrn s) = KPrincipalSet"
    "set sel \<subseteq> set all" "mem = prin # map ps_fgrn sel"
    "\<forall>x \<in> set sel. transitive_member all prin (ps_fgrn x)"
  shows "\<forall>x \<in> set sel'. transitive_member all prin (ps_fgrn x)"
  using assms(1,2,5-7)
proof (induction ss sel mem grew rule: select_pass.induct)
  case (2 s ss sel mem grew)
  have s: "s \<in> set all" "set ss \<subseteq> set all" using 2(5) by simp_all
  show ?case
  proof (cases "\<not> list_ex (\<lambda>q. ps_fgrn q = ps_fgrn s) sel \<and> list_ex (ps_contains s) mem")
    case True
    have f: "find_set all (ps_fgrn s) = Some s" using find_set_member [OF assms(3) s(1)] .
    obtain x where x: "x \<in> set mem" "ps_contains s x" using True by (auto simp: list_ex_iff)
    have "transitive_member all prin (ps_fgrn s)"
    proof (cases "x = prin")
      case True
      then show ?thesis using f x(2) by (auto intro: transitive_member.direct)
    next
      case False
      then obtain y where "y \<in> set sel" "x = ps_fgrn y" using x(1) 2(7) by auto
      then show ?thesis using 2(6,8) x(2) assms(4)
        by (auto intro: transitive_member.nested [OF f] simp: ps_contains_def)
    qed
    then show ?thesis using 2(2) True 2(4,6,7,8) s by simp
  next
    case False
    then show ?thesis using 2(1,3,4,6,7,8) s by (auto split: if_splits)
  qed
qed auto

lemma select_rounds_fixpoint:
  assumes "distinct (map ps_fgrn all)" "\<forall>s \<in> set all. fgrn_kind (ps_fgrn s) = KPrincipalSet"
    "distinct (map ps_fgrn sel)" "set sel \<subseteq> set all" "length all < n + length sel"
    "\<forall>x \<in> set sel. transitive_member all prin (ps_fgrn x)"
  shows "\<exists>r. select_rounds n all sel (prin # map ps_fgrn sel) = r \<and> distinct (map ps_fgrn r) \<and>
    set r \<subseteq> set all \<and> (\<forall>x \<in> set r. transitive_member all prin (ps_fgrn x)) \<and>
    (\<forall>s \<in> set all. ps_fgrn s \<in> ps_fgrn ` set r \<or> \<not> list_ex (ps_contains s) (prin # map ps_fgrn r))"
  using assms(3-6)
proof (induction n arbitrary: sel)
  case 0
  have "length sel = card (ps_fgrn ` set sel)" using 0(1) by (metis distinct_card length_map list.set_map)
  also have "\<dots> \<le> card (ps_fgrn ` set all)" using 0(2) by (intro card_mono) auto
  also have "\<dots> \<le> length all" by (metis card_length length_map list.set_map)
  finally show ?case using 0(3) by simp
next
  case (Suc n)
  obtain sel' mem' grew where pass: "select_pass all sel (prin # map ps_fgrn sel) False = (sel', mem', grew)"
    by (metis prod_cases3)
  obtain new where new: "sel' = sel @ new" "mem' = prin # map ps_fgrn sel'" "grew = (new \<noteq> [])"
      "set new \<subseteq> set all" "distinct (map ps_fgrn sel')"
      "new = [] \<longrightarrow> (\<forall>s \<in> set all. ps_fgrn s \<in> ps_fgrn ` set sel \<or>
         \<not> list_ex (ps_contains s) (prin # map ps_fgrn sel))"
    using select_pass_grows [OF pass] Suc.prems(1) by auto
  have mem: "\<forall>x \<in> set sel'. transitive_member all prin (ps_fgrn x)"
    using select_pass_sound [OF pass subset_refl assms(1,2) Suc.prems(2) refl Suc.prems(4)] .
  show ?case
  proof (cases "new = []")
    case True
    then show ?thesis using pass new Suc.prems by auto
  next
    case False
    have "length all < n + length sel'" using Suc.prems(3) False new(1) by (cases new) auto
    then show ?thesis
      using Suc.IH [OF new(5) _ _ mem] new(1,2,3,4) Suc.prems(2) pass False by auto
  qed
qed


lemma transitive_member_closed:
  assumes "distinct (map ps_fgrn all)" "transitive_member all prin f"
    "\<forall>s \<in> set all. ps_fgrn s \<in> ps_fgrn ` set r \<or> \<not> list_ex (ps_contains s) (prin # map ps_fgrn r)"
  shows "f \<in> ps_fgrn ` set r"
  using assms(2)
proof (induction rule: transitive_member.induct)
  case (direct f s)
  then have s: "ps_fgrn s = f" "s \<in> set all" using find_set_fgrn [OF direct(1)] by simp_all
  have "list_ex (ps_contains s) (prin # map ps_fgrn r)" using direct(2) by simp
  then show ?case using assms(3) s by blast
next
  case (nested f s g)
  then have s: "ps_fgrn s = f" "s \<in> set all" using find_set_fgrn [OF nested(1)] by simp_all
  have "list_ex (ps_contains s) (prin # map ps_fgrn r)"
    using nested by (auto simp: list_ex_iff ps_contains_def)
  then show ?case using assms(3) s by blast
qed

lemma inj_on_fgrn_mem:
  "distinct (map ps_fgrn all) \<Longrightarrow> s \<in> set all \<Longrightarrow> set r \<subseteq> set all \<Longrightarrow> ps_fgrn s \<in> ps_fgrn ` set r \<Longrightarrow> s \<in> set r"
  by (auto simp: distinct_map inj_on_def)

lemma set_transitive_principal_sets:
  assumes "model_state_wf m"
  shows "distinct (map ps_fgrn (transitive_principal_sets m prin))"
    "set (transitive_principal_sets m prin) =
       {s \<in> set (ms_sets m). transitive_member (ms_sets m) prin (ps_fgrn s)}"
proof -
  let ?all = "ms_sets m"
  have d: "distinct (map ps_fgrn ?all)" and k: "\<forall>s \<in> set ?all. fgrn_kind (ps_fgrn s) = KPrincipalSet"
    using assms by (auto simp: model_state_wf_def list_all_iff principal_set_wf_def)
  obtain r where r: "select_rounds (Suc (length ?all)) ?all [] [prin] = r" "distinct (map ps_fgrn r)"
      "set r \<subseteq> set ?all" "\<forall>x \<in> set r. transitive_member ?all prin (ps_fgrn x)"
      "\<forall>s \<in> set ?all. ps_fgrn s \<in> ps_fgrn ` set r \<or> \<not> list_ex (ps_contains s) (prin # map ps_fgrn r)"
    using select_rounds_fixpoint [OF d k, of "[]" "Suc (length ?all)" prin] by auto
  have "s \<in> set r" if "s \<in> set ?all" "transitive_member ?all prin (ps_fgrn s)" for s
    using transitive_member_closed [OF d that(2) r(5)] inj_on_fgrn_mem [OF d that(1) r(3)] by blast
  then show "distinct (map ps_fgrn (transitive_principal_sets m prin))"
    "set (transitive_principal_sets m prin) = {s \<in> set ?all. transitive_member ?all prin (ps_fgrn s)}"
    using r by (auto simp: transitive_principal_sets_def)
qed

section \<open>Spine ancestry\<close>

definition unit_of :: "spine \<Rightarrow> fgrn \<Rightarrow> org_unit" where
  "unit_of sp f = \<lparr>ou_fgrn = f, ou_parent = the (map_of (sp_units sp) f)\<rparr>"

lemma unit_of_fgrn [simp]: "ou_fgrn (unit_of sp f) = f"
  by (simp add: unit_of_def)

lemma spine_unit_of:
  assumes wf: "spine_wf sp" and f: "spine_contains sp f"
  shows "spine_parent sp f = Inr (ou_parent (unit_of sp f))"
    "org_unit_try_new f (ou_parent (unit_of sp f)) = Inr (unit_of sp f)"
proof -
  have mem: "f \<in> fst ` set (sp_units sp)" using f by (simp add: spine_contains_def hm_contains_iff)
  then obtain q where q: "map_of (sp_units sp) f = Some q" by (metis map_of_eq_None_iff not_None_eq)
  then show "spine_parent sp f = Inr (ou_parent (unit_of sp f))"
    by (simp add: spine_parent_def unit_of_def)
  have kf: "fgrn_kind f = KOrgUnit" "fgrn_org f = sp_org sp" using wf mem by (auto simp: spine_wf_def)
  show "org_unit_try_new f (ou_parent (unit_of sp f)) = Inr (unit_of sp f)"
  proof (cases q)
    case None
    then show ?thesis using q kf by (simp add: org_unit_try_new_def unit_of_def)
  next
    case (Some p)
    obtain ps where "climbs (sp_units sp) f ps" using spine_wf_climbs [OF wf f] .
    then obtain qs where c: "climbs (sp_units sp) p qs" "climbs (sp_units sp) f (f # qs)"
      using q Some by (cases rule: climbs.cases) (auto intro: climbs.intros)
    then have "p \<in> fst ` set (sp_units sp)" using climbs_keys [OF c(1)] climbs_hd [OF c(1)] hd_in_set by blast
    then have "fgrn_kind p = KOrgUnit" "fgrn_org p = sp_org sp" using wf by (auto simp: spine_wf_def)
    moreover have "p \<noteq> f" using climbs_distinct [OF c(2)] climbs_hd [OF c(1)] hd_in_set [of qs] by auto
    ultimately show ?thesis using q Some kf by (simp add: org_unit_try_new_def unit_of_def)
  qed
qed

lemma ancestry_units_ok:
  assumes "spine_wf sp" "\<forall>f \<in> set path. spine_contains sp f" "\<forall>u \<in> set us. u = unit_of sp (ou_fgrn u)"
    "distinct us"
  shows "\<exists>us'. ancestry_units sp path us = Inr us' \<and> distinct us' \<and> set us' = set us \<union> unit_of sp ` set path"
  using assms(2-)
proof (induction path arbitrary: us)
  case (Cons f fs)
  show ?case
  proof (cases "list_ex (\<lambda>u. ou_fgrn u = f) us")
    case True
    then have "unit_of sp f \<in> set us" using Cons.prems(2) by (auto simp: list_ex_iff)
    then show ?thesis using Cons.IH [of us] Cons.prems True by (auto simp: insert_absorb)
  next
    case False
    then have "unit_of sp f \<notin> set us" by (auto simp: list_ex_iff)
    then show ?thesis
      using Cons.IH [of "us @ [unit_of sp f]"] Cons.prems False spine_unit_of [OF assms(1), of f] by auto
  qed
qed simp

lemma spine_path_members:
  assumes "spine_wf sp" "spine_contains sp a"
  shows "\<exists>path. spine_path sp a = Some (Inr path) \<and> set path = {x. (a, x) \<in> (parent_rel (sp_units sp))\<^sup>*} \<and>
    (\<forall>f \<in> set path. spine_contains sp f)"
proof -
  obtain ps where ps: "climbs (sp_units sp) a ps" using spine_wf_climbs [OF assms] .
  then show ?thesis using spine_path_climbs [OF ps] climbs_members [OF ps] climbs_keys [OF ps]
    by (auto simp: spine_contains_def hm_contains_iff)
qed

definition anchor_ancestors :: "spine \<Rightarrow> fgrn list \<Rightarrow> fgrn set" where
  "anchor_ancestors sp as =
     {x. \<exists>a \<in> set as. fgrn_kind a = KOrgUnit \<and> (a, x) \<in> (parent_rel (sp_units sp))\<^sup>*}"

lemma anchor_ancestors_simps [simp]:
  "anchor_ancestors sp [] = {}"
  "anchor_ancestors sp (a # as) =
     (if fgrn_kind a = KOrgUnit then {x. (a, x) \<in> (parent_rel (sp_units sp))\<^sup>*} else {}) \<union> anchor_ancestors sp as"
  by (auto simp: anchor_ancestors_def)

lemma spine_ancestry_ok:
  assumes wf: "spine_wf sp" and "\<forall>a \<in> set as. fgrn_kind a = KOrgUnit \<longrightarrow> spine_contains sp a"
    "\<forall>u \<in> set us. u = unit_of sp (ou_fgrn u)" "distinct us"
  shows "\<exists>us'. spine_ancestry sp as us = Some (Inr us') \<and> distinct us' \<and>
    set us' = set us \<union> unit_of sp ` anchor_ancestors sp as"
  using assms(2-)
proof (induction as arbitrary: us)
  case (Cons a as)
  show ?case
  proof (cases "fgrn_kind a = KOrgUnit")
    case True
    then have "spine_contains sp a" using Cons.prems(1) by simp
    then obtain path where path: "spine_path sp a = Some (Inr path)"
        "set path = {x. (a, x) \<in> (parent_rel (sp_units sp))\<^sup>*}" "\<forall>f \<in> set path. spine_contains sp f"
      using spine_path_members [OF wf] by blast
    obtain us' where us': "ancestry_units sp path us = Inr us'" "distinct us'"
        "set us' = set us \<union> unit_of sp ` set path"
      using ancestry_units_ok [OF wf path(3) Cons.prems(2,3)] by blast
    then have "\<forall>u \<in> set us'. u = unit_of sp (ou_fgrn u)" using Cons.prems(2) by auto
    then show ?thesis using Cons.IH [of us'] Cons.prems(1) us' path(1,2) True
      by (auto simp: image_Un Un_assoc)
  next
    case False
    then show ?thesis using Cons.IH [of us] Cons.prems by auto
  qed
qed simp


section \<open>Properties of the store\<close>

lemma model_principal_fgrn: "model_principal m f = Some p \<Longrightarrow> pr_fgrn p = f \<and> p \<in> set (ms_principals m)"
  by (auto simp: model_principal_def find_Some_iff)

lemma select_slice_ok:
  assumes wf: "model_state_wf m" and p: "model_principal m prin = Some p"
    and anchors: "\<forall>a \<in> set (slice_anchors p (model_promotion m res)).
      fgrn_kind a = KOrgUnit \<longrightarrow> spine_contains (ms_spine m) a"
  shows "\<exists>sl. select_slice m prin res r = Some (Inr sl) \<and> sl_principal sl = p \<and> sl_revision sl = r \<and>
    sl_promotion sl = model_promotion m res \<and>
    sl_grants sl = filter (\<lambda>g. gr_resource g = res) (ms_grants m) \<and>
    sl_principal_sets sl = transitive_principal_sets m prin \<and> distinct (sl_org_units sl) \<and>
    set (sl_org_units sl) =
      unit_of (ms_spine m) ` anchor_ancestors (ms_spine m) (slice_anchors p (model_promotion m res))"
proof -
  obtain us where "spine_ancestry (ms_spine m) (slice_anchors p (model_promotion m res)) [] = Some (Inr us)"
      "distinct us" "set us = unit_of (ms_spine m) ` anchor_ancestors (ms_spine m) (slice_anchors p (model_promotion m res))"
    using spine_ancestry_ok [of "ms_spine m" "slice_anchors p (model_promotion m res)" "[]"] wf anchors
    by (auto simp: model_state_wf_def)
  then show ?thesis using p model_principal_fgrn [OF p] by (simp add: select_slice_def)
qed

lemma spine_ancestry_contained:
  "spine_ancestry sp as us = Some (Inr us') \<Longrightarrow> \<forall>a \<in> set as. fgrn_kind a = KOrgUnit \<longrightarrow> spine_contains sp a"
proof (induction as arbitrary: us)
  case (Cons a as)
  then show ?case
    by (cases "fgrn_kind a = KOrgUnit") (auto simp: spine_path_def spine_contains_def split: if_splits)
qed simp

lemma select_slice_Inr:
  assumes "model_state_wf m" "select_slice m prin res r = Some (Inr sl)"
  shows "model_principal m prin = Some (sl_principal sl)"
    "\<forall>a \<in> set (slice_anchors (sl_principal sl) (sl_promotion sl)).
       fgrn_kind a = KOrgUnit \<longrightarrow> spine_contains (ms_spine m) a"
    "sl_promotion sl = model_promotion m res" "sl_principal_sets sl = transitive_principal_sets m prin"
    "sl_grants sl = filter (\<lambda>g. gr_resource g = res) (ms_grants m)"
    "set (sl_org_units sl) =
       unit_of (ms_spine m) ` anchor_ancestors (ms_spine m) (slice_anchors (sl_principal sl) (sl_promotion sl))"
proof -
  obtain p us where p: "model_principal m prin = Some p" "sl_principal sl = p" "sl_promotion sl = model_promotion m res"
      "spine_ancestry (ms_spine m) (slice_anchors p (model_promotion m res)) [] = Some (Inr us)"
    using assms(2) by (auto simp: select_slice_def split: option.splits)
  note anchors = spine_ancestry_contained [OF p(4)]
  have "sl_promotion sl = model_promotion m res \<and> sl_principal_sets sl = transitive_principal_sets m prin \<and>
    sl_grants sl = filter (\<lambda>g. gr_resource g = res) (ms_grants m) \<and>
    set (sl_org_units sl) = unit_of (ms_spine m) ` anchor_ancestors (ms_spine m) (slice_anchors p (model_promotion m res))"
    using select_slice_ok [OF assms(1) p(1) anchors, of r] assms(2) by auto
  then show "model_principal m prin = Some (sl_principal sl)"
    "\<forall>a \<in> set (slice_anchors (sl_principal sl) (sl_promotion sl)).
       fgrn_kind a = KOrgUnit \<longrightarrow> spine_contains (ms_spine m) a"
    "sl_promotion sl = model_promotion m res" "sl_principal_sets sl = transitive_principal_sets m prin"
    "sl_grants sl = filter (\<lambda>g. gr_resource g = res) (ms_grants m)"
    "set (sl_org_units sl) =
       unit_of (ms_spine m) ` anchor_ancestors (ms_spine m) (slice_anchors (sl_principal sl) (sl_promotion sl))"
    using p anchors by simp_all
qed

lemma anchor_ancestors_contained:
  assumes "spine_wf sp" "\<forall>a \<in> set as. fgrn_kind a = KOrgUnit \<longrightarrow> spine_contains sp a" "x \<in> anchor_ancestors sp as"
  shows "spine_contains sp x"
proof -
  obtain a where a: "a \<in> set as" "fgrn_kind a = KOrgUnit" "(a, x) \<in> (parent_rel (sp_units sp))\<^sup>*"
    using assms(3) by (auto simp: anchor_ancestors_def)
  then show ?thesis using spine_path_members [OF assms(1), of a] assms(2) by auto
qed

text \<open>
  C18. The slice a store returns for a decision holds exactly what the decision needs. On every
  reachable store, at every revision it has produced, for a known principal whose anchor and whose
  resource's promotion anchor lie on the spine, the read succeeds, and the slice has the principal,
  exactly the principal sets that have it as a transitive member (the bounded rounds reach the
  fixpoint), exactly the org units at or above an anchor, each with its spine parent, and exactly
  the grants on the resource.
\<close>

theorem memory_slice_correct:
  assumes "store_reachable st" "1 \<le> r" "r \<le> length (mst_history st)" "m = mst_history st ! (r - 1)"
    "model_principal m prin = Some p"
    "\<forall>a \<in> set (slice_anchors p (model_promotion m res)). fgrn_kind a = KOrgUnit \<longrightarrow> spine_contains (ms_spine m) a"
  shows "\<exists>sl. memory_slice st \<lparr>sq_principal = prin, sq_resource = res, sq_revision = Some r\<rparr> = Some (Inr sl) \<and>
    sl_principal sl = p \<and> sl_revision sl = r \<and> sl_promotion sl = model_promotion m res \<and>
    set (sl_principal_sets sl) = {s \<in> set (ms_sets m). transitive_member (ms_sets m) prin (ps_fgrn s)} \<and>
    ou_fgrn ` set (sl_org_units sl) = anchor_ancestors (ms_spine m) (slice_anchors p (model_promotion m res)) \<and>
    (\<forall>u \<in> set (sl_org_units sl). spine_parent (ms_spine m) (ou_fgrn u) = Inr (ou_parent u)) \<and>
    sl_grants sl = filter (\<lambda>g. gr_resource g = res) (ms_grants m)"
proof -
  have st: "memory_store_wf st" "list_all model_state_wf (mst_history st)"
    using store_reachable_wf [OF assms(1)] by simp_all
  then have wf: "model_state_wf m" using assms(2-4) by (auto simp: list_all_iff)
  then have sp: "spine_wf (ms_spine m)" by (simp add: model_state_wf_def)
  obtain sl where sl: "select_slice m prin res r = Some (Inr sl)" "sl_principal sl = p" "sl_revision sl = r"
      "sl_promotion sl = model_promotion m res" "sl_grants sl = filter (\<lambda>g. gr_resource g = res) (ms_grants m)"
      "sl_principal_sets sl = transitive_principal_sets m prin"
      "set (sl_org_units sl) =
        unit_of (ms_spine m) ` anchor_ancestors (ms_spine m) (slice_anchors p (model_promotion m res))"
    using select_slice_ok [OF wf assms(5,6), of r] by blast
  have "memory_slice st \<lparr>sq_principal = prin, sq_resource = res, sq_revision = Some r\<rparr> = Some (Inr sl)"
    using sl(1) st(1) assms(2-4) by (simp add: memory_slice_def store_locked_def memory_store_wf_def)
  moreover have "spine_parent (ms_spine m) (ou_fgrn u) = Inr (ou_parent u)" if u: "u \<in> set (sl_org_units sl)" for u
    using u sl(7) spine_unit_of(1) [OF sp anchor_ancestors_contained [OF sp assms(6)]] by auto
  ultimately show ?thesis
    using sl set_transitive_principal_sets(2) [OF wf, of prin] by (auto simp: image_image)
qed

lemma store_reachable_writes:
  "store_reachable st \<Longrightarrow> \<forall>w \<in> set ws. store_write_wf w \<Longrightarrow> store_reachable (apply_all_writes memory_apply st ws)"
  by (induction ws arbitrary: st) (auto intro: store_reachable.step)

definition ex_staff :: fgrn where "ex_staff = fgrn_principal_set (Segment ''acme'') (NativeId ''staff'')"

definition ex_writes :: "store_write list" where
  "ex_writes =
     [PutPrincipal \<lparr>pr_fgrn = ex_alice, pr_kind = Human, pr_anchor = ex_eng\<rparr>,
      PutPrincipalSet \<lparr>ps_fgrn = ex_team, ps_anchor = ex_acme, ps_members = [ex_alice]\<rparr>,
      PutPrincipalSet \<lparr>ps_fgrn = ex_staff, ps_anchor = ex_acme, ps_members = [ex_team]\<rparr>,
      PutGrant \<lparr>gr_resource = ex_doc, gr_actions = [Verb ''read''], gr_to = ex_staff\<rparr>]"

definition ex_store :: memory_store where
  "ex_store = apply_all_writes memory_apply (memory_store_new (model_state_new ex_spine)) ex_writes"

lemmas ex_store_defs = ex_store_def ex_writes_def ex_staff_def ex_team_def ex_alice_def ex_doc_def
  ex_acme_def ex_eng_def ex_ops_def

lemma ex_store_reachable: "store_reachable ex_store"
  unfolding ex_store_def
proof (rule store_reachable_writes)
  show "store_reachable (memory_store_new (model_state_new ex_spine))"
    using ex_spine_reachable by (rule store_reachable.new)
  show "\<forall>w \<in> set ex_writes. store_write_wf w"
    by (simp add: ex_writes_def) code_simp
qed

theorem memory_slice_correct_witness:
  "\<exists>sl. memory_slice ex_store \<lparr>sq_principal = ex_alice, sq_resource = ex_doc, sq_revision = Some 5\<rparr> = Some (Inr sl) \<and>
    sl_revision sl = 5 \<and>
    ou_fgrn ` set (sl_org_units sl) = anchor_ancestors (ms_spine (mst_history ex_store ! 4))
      (slice_anchors \<lparr>pr_fgrn = ex_alice, pr_kind = Human, pr_anchor = ex_eng\<rparr> None)"
proof -
  have "model_principal (mst_history ex_store ! (5 - 1)) ex_alice =
      Some \<lparr>pr_fgrn = ex_alice, pr_kind = Human, pr_anchor = ex_eng\<rparr>"
    "model_promotion (mst_history ex_store ! (5 - 1)) ex_doc = None"
    "(5::nat) \<le> length (mst_history ex_store)" by code_simp+
  moreover have "spine_contains (ms_spine (mst_history ex_store ! (5 - 1))) ex_eng" by code_simp
  ultimately show ?thesis
    using memory_slice_correct [OF ex_store_reachable, of 5 "mst_history ex_store ! (5 - 1)" ex_alice
      "\<lparr>pr_fgrn = ex_alice, pr_kind = Human, pr_anchor = ex_eng\<rparr>" ex_doc]
    by (auto simp: slice_anchors_def)
qed

text \<open>
  C27. Every version of a reachable store is well typed: the units form a tree of organization units with their
  parents, principals, sets and promotions have distinct names, every principal, set and grant refers to
  entities of the right kind, and the store is never poisoned and always has a version.
\<close>

theorem store_versions_wf:
  assumes "store_reachable st" "m \<in> set (mst_history st)"
  shows "model_state_wf m \<and> memory_store_wf st"
  using store_reachable_wf [OF assms(1)] assms(2) by (simp add: list_all_iff)

theorem store_versions_wf_witness:
  "length (mst_history ex_store) = 5 \<and> model_state_wf (mst_history ex_store ! 4) \<and> memory_store_wf ex_store"
proof -
  have "length (mst_history ex_store) = 5" by code_simp
  with store_versions_wf [OF ex_store_reachable, of "mst_history ex_store ! 4"] show ?thesis by simp
qed

end
