(* ===== verification/Cedar_Compile.thy ===== *)
theory Cedar_Compile
  imports Actions Graphs
begin

text \<open>
  The permission model (\<open>crates/core/src/permission.rs\<close>) and the compilation of policies to Cedar text
  (\<open>cedar/compile.rs\<close>), with the check that groups do not nest in a circle.
\<close>

section \<open>Permission model\<close>

datatype effect = Allow | Deny

datatype pattern_segment = Exact segment | Wildcard

fun pattern_segment_matches :: "pattern_segment \<Rightarrow> segment \<Rightarrow> bool" where
  "pattern_segment_matches Wildcard x = True"
| "pattern_segment_matches (Exact s) x = (s = x)"

record action_pattern =
  ap_namespace :: pattern_segment
  ap_action :: pattern_segment
  ap_entity :: pattern_segment

definition parse_pattern_segment :: "string \<Rightarrow> (core_error, pattern_segment) result" where
  "parse_pattern_segment s =
     (if s = ''*'' then Inr Wildcard else and_then (segment_try_new s) (\<lambda>x. Inr (Exact x)))"

definition action_pattern_parse :: "string \<Rightarrow> (core_error, action_pattern) result" where
  "action_pattern_parse s =
     (case splitn 4 CHR '':'' s of
        [ns, entity, act] \<Rightarrow>
          and_then (parse_pattern_segment ns) (\<lambda>n.
          and_then (parse_pattern_segment act) (\<lambda>a.
          and_then (parse_pattern_segment entity) (\<lambda>e.
          Inr \<lparr>ap_namespace = n, ap_action = a, ap_entity = e\<rparr>)))
      | _ \<Rightarrow> Inl (Parse ''action_pattern'' s
          (''expected namespace:entity:action (e.g., '' @ quoted ''todo:list:read'' @ '' or '' @
           quoted ''todo:*:*'' @ '')'')))"

definition action_pattern_matches :: "action_pattern \<Rightarrow> qualified_action \<Rightarrow> bool" where
  "action_pattern_matches p q \<longleftrightarrow>
     pattern_segment_matches (ap_namespace p) (ns_segment (qa_namespace q)) \<and>
     pattern_segment_matches (ap_action p) (act_segment (qa_action q)) \<and>
     pattern_segment_matches (ap_entity p) (ent_segment (qa_entity q))"

record cedar_entity_ref =
  cr_namespace :: segment
  cr_entity :: segment
  cr_id :: segment

definition cedar_entity_ref_parse :: "string \<Rightarrow> (core_error, cedar_entity_ref) result" where
  "cedar_entity_ref_parse s =
     (case split_str ''::'' s of
        [ns, entity, i] \<Rightarrow>
          and_then (segment_try_new ns) (\<lambda>n.
          and_then (segment_try_new entity) (\<lambda>e.
          and_then (segment_try_new i) (\<lambda>x.
          Inr \<lparr>cr_namespace = n, cr_entity = e, cr_id = x\<rparr>)))
      | _ \<Rightarrow> Inl (Parse ''cedar_entity_ref'' s
          (''expected namespace::entity::id (e.g., '' @ quoted ''todo::list::top-secret'' @ '')'')))"

definition cedar_entity_ref_display :: "cedar_entity_ref \<Rightarrow> string" where
  "cedar_entity_ref_display r =
     seg_str (cr_namespace r) @ ''::'' @ seg_str (cr_entity r) @ ''::'' @ seg_str (cr_id r)"

datatype resource_constraint = AllResources | Specific "cedar_entity_ref list"

definition resource_constraint_of :: "cedar_entity_ref list \<Rightarrow> resource_constraint" where
  "resource_constraint_of refs = (if refs = [] then AllResources else Specific refs)"

record policy_statement =
  st_effect :: effect
  st_actions :: "action_pattern list"
  st_resources :: resource_constraint
  st_except :: "group_name list"

record policy =
  po_name :: policy_name
  po_description :: "string option"
  po_statements :: "policy_statement list"
  po_groups :: "group_name list"

record group_definition =
  gd_name :: group_name
  gd_description :: "string option"
  gd_member_groups :: "group_name list"

section \<open>Compilation\<close>

definition is_all_exact :: "action_pattern \<Rightarrow> bool" where
  "is_all_exact p =
     (case (ap_namespace p, ap_action p, ap_entity p) of (Exact _, Exact _, Exact _) \<Rightarrow> True | _ \<Rightarrow> False)"

text \<open>\<open>exact_str\<close> panics on a wildcard: \<open>None\<close>.\<close>

fun exact_str :: "pattern_segment \<Rightarrow> string option" where
  "exact_str (Exact s) = Some (seg_str s)"
| "exact_str Wildcard = None"

definition cedar_action :: "string \<Rightarrow> action_pattern \<Rightarrow> string option" where
  "cedar_action vp_ns p =
     (case (exact_str (ap_namespace p), exact_str (ap_entity p), exact_str (ap_action p)) of
        (Some ns, Some entity, Some act) \<Rightarrow>
          Some (vp_ns @ ''::Action::'' @ dquoted (ns @ ''-'' @ entity @ ''-'' @ act))
      | _ \<Rightarrow> None)"

text \<open>The loop over the patterns: the clauses so far and whether a wildcard was seen.\<close>

fun collect_actions :: "string \<Rightarrow> action_pattern list \<Rightarrow> string list \<Rightarrow> bool \<Rightarrow> (string list \<times> bool) option" where
  "collect_actions vp_ns [] cedar_actions has_wildcard = Some (cedar_actions, has_wildcard)"
| "collect_actions vp_ns (p # ps) cedar_actions has_wildcard =
     (if is_all_exact p then
        (case cedar_action vp_ns p of
           Some a \<Rightarrow> collect_actions vp_ns ps (cedar_actions @ [a]) has_wildcard
         | None \<Rightarrow> None)
      else collect_actions vp_ns ps cedar_actions True)"

definition build_action_clause :: "action_pattern list \<Rightarrow> string \<Rightarrow> string option" where
  "build_action_clause actions vp_ns =
     map_option (\<lambda>(cedar_actions, has_wildcard).
       if has_wildcard \<or> cedar_actions = [] then ''action''
       else if length cedar_actions = 1 then ''action in ['' @ hd cedar_actions @ '']''
       else ''action in ['' @ join '', '' cedar_actions @ '']'')
     (collect_actions vp_ns actions [] False)"

definition format_ref :: "string \<Rightarrow> cedar_entity_ref \<Rightarrow> string" where
  "format_ref vp_ns r =
     vp_ns @ ''::'' @ cedar_entity_type (cr_namespace r) (cr_entity r) @ ''::'' @ dquoted (seg_str (cr_id r))"

fun build_resource_clause :: "resource_constraint \<Rightarrow> string \<Rightarrow> string" where
  "build_resource_clause AllResources vp_ns = ''resource''"
| "build_resource_clause (Specific refs) vp_ns =
     (if length refs = 1 then ''resource == '' @ format_ref vp_ns (hd refs)
      else ''resource in ['' @ join '', '' (map (format_ref vp_ns) refs) @ '']'')"

definition build_unless_clause :: "policy_statement \<Rightarrow> string \<Rightarrow> string" where
  "build_unless_clause stmt vp_ns =
     (if st_except stmt = [] \<or> st_effect stmt = Allow then []
      else (let conditions = map (\<lambda>g. ''principal in '' @ vp_ns @ ''::Group::'' @ dquoted (seg_str g)) (st_except stmt) in
        if length conditions = 1 then '' unless {'' @ nl @ ''  '' @ hd conditions @ nl @ ''}''
        else '' unless {'' @ nl @ ''  '' @ join '' || '' conditions @ nl @ ''}''))"

definition compile_statement :: "group_name option \<Rightarrow> string \<Rightarrow> policy_statement \<Rightarrow> string option" where
  "compile_statement scope vp_ns stmt =
     map_option (\<lambda>action_clause.
       (case st_effect stmt of Allow \<Rightarrow> ''permit'' | Deny \<Rightarrow> ''forbid'') @ ''('' @ nl @ ''  '' @
       (case scope of Some g \<Rightarrow> ''principal in '' @ vp_ns @ ''::Group::'' @ dquoted (seg_str g)
                    | None \<Rightarrow> ''principal'') @ '','' @ nl @ ''  '' @
       action_clause @ '','' @ nl @ ''  '' @
       build_resource_clause (st_resources stmt) vp_ns @ nl @ '')'' @
       build_unless_clause stmt vp_ns @ '';'')
     (build_action_clause (st_actions stmt) vp_ns)"

definition compile_policy_to_cedar :: "policy \<Rightarrow> group_name option \<Rightarrow> project_id \<Rightarrow> string list option" where
  "compile_policy_to_cedar p scope project =
     those (map (compile_statement scope (cedar_namespace_from_project project)) (po_statements p))"

section \<open>Circular nesting\<close>

type_synonym adjacency = "(group_name, group_name list) hash_map"

definition group_adjacency :: "group_definition list \<Rightarrow> adjacency" where
  "group_adjacency groups = foldl (\<lambda>m g. hm_insert (gd_name g) (gd_member_groups g) m) [] groups"

function dfs_cycle_check ::
    "adjacency \<Rightarrow> group_name \<Rightarrow> group_name set \<Rightarrow> group_name set
      \<Rightarrow> (core_error, group_name set \<times> group_name set) result"
  and dfs_neighbors ::
    "adjacency \<Rightarrow> group_name \<Rightarrow> group_name list \<Rightarrow> group_name set \<Rightarrow> group_name set
      \<Rightarrow> (core_error, group_name set \<times> group_name set) result" where
  "dfs_cycle_check adj node visited in_stack =
     and_then
       (case map_of adj node of
          Some neighbors \<Rightarrow> dfs_neighbors adj node neighbors (insert node visited) (insert node in_stack)
        | None \<Rightarrow> Inr (insert node visited, insert node in_stack))
       (\<lambda>(visited', in_stack'). Inr (visited', in_stack' - {node}))"
| "dfs_neighbors adj node [] visited in_stack = Inr (visited, in_stack)"
| "dfs_neighbors adj node (n # ns) visited in_stack =
     (if n \<in> in_stack then
        Inl (Config (''circular group nesting detected: '' @ quoted (seg_str node) @ '' -> '' @
          quoted (seg_str n)))
      else if n \<notin> visited then
        and_then (dfs_cycle_check adj n visited in_stack) (\<lambda>(visited', in_stack').
          dfs_neighbors adj node ns visited' in_stack')
      else dfs_neighbors adj node ns visited in_stack)"
  by pat_completeness auto

lemma dfs_visited_grows:
  "dfs_cycle_check_dfs_neighbors_dom (Inl (adj, node, V, S)) \<Longrightarrow>
     (\<And>V' S'. dfs_cycle_check adj node V S = Inr (V', S') \<Longrightarrow> insert node V \<subseteq> V')"
  "dfs_cycle_check_dfs_neighbors_dom (Inr (adj, node, ns, V, S)) \<Longrightarrow>
     (\<And>V' S'. dfs_neighbors adj node ns V S = Inr (V', S') \<Longrightarrow> V \<subseteq> V')"
proof (induction adj node V S and adj node ns V S rule: dfs_cycle_check_dfs_neighbors.pinduct)
  case (1 adj node V S)
  show ?case
  proof (cases "map_of adj node")
    case None
    then show ?thesis using 1(3) by (auto simp: dfs_cycle_check.psimps [OF 1(1)])
  next
    case (Some ns)
    then show ?thesis using 1(2) [OF Some] 1(3) by (fastforce simp: dfs_cycle_check.psimps [OF 1(1)])
  qed
next
  case (2 adj node V S)
  then show ?case by (simp add: dfs_neighbors.psimps)
next
  case (3 adj node n ns V S)
  show ?case
  proof (cases "n \<in> S \<or> n \<in> V")
    case True
    then show ?thesis using 3(4,5) by (auto simp: dfs_neighbors.psimps(2) [OF 3(1)] split: if_splits)
  next
    case False
    then obtain V1 S1 where one: "dfs_cycle_check adj n V S = Inr (V1, S1)"
        and two: "dfs_neighbors adj node ns V1 S1 = Inr (V', S')"
      using 3(5) by (auto simp: dfs_neighbors.psimps(2) [OF 3(1)] split: if_splits)
    have "insert n V \<subseteq> V1" using 3(2) one False by blast
    moreover have "V1 \<subseteq> V'" using 3(3) one two False by blast
    ultimately show ?thesis by blast
  qed
qed

termination dfs_cycle_check
proof (relation "measures [\<lambda>a. case a of
      Inl (adj, node, V, S) \<Rightarrow> card (fst ` set adj - (V - {node}))
    | Inr (adj, node, ns, V, S) \<Rightarrow> card (fst ` set adj - V),
    \<lambda>a. case a of Inl _ \<Rightarrow> 0 | Inr (adj, node, ns, V, S) \<Rightarrow> Suc (length ns)]", goal_cases)
  case (2 adj node V S ns)
  then have "node \<in> fst ` set adj" by (force dest: map_of_SomeD)
  then have "card (fst ` set adj - insert node V) < card (fst ` set adj - (V - {node}))"
    by (intro psubset_card_mono) auto
  then show ?case by simp
next
  case (4 adj node n ns V S x V' S')
  then have "insert n V \<subseteq> V'" using dfs_visited_grows(1) by blast
  then have "card (fst ` set adj - V') \<le> card (fst ` set adj - V)" by (intro card_mono) auto
  then show ?case by auto
qed auto

declare dfs_cycle_check.simps [simp del]

fun detect_loop ::
    "adjacency \<Rightarrow> group_definition list \<Rightarrow> group_name set \<Rightarrow> group_name set \<Rightarrow> (core_error, unit) result" where
  "detect_loop adj [] visited in_stack = Inr ()"
| "detect_loop adj (g # gs) visited in_stack =
     (if gd_name g \<notin> visited then
        and_then (dfs_cycle_check adj (gd_name g) visited in_stack) (\<lambda>(visited', in_stack').
          detect_loop adj gs visited' in_stack')
      else detect_loop adj gs visited in_stack)"

definition detect_circular_nesting :: "group_definition list \<Rightarrow> (core_error, unit) result" where
  "detect_circular_nesting groups = detect_loop (group_adjacency groups) groups {} {}"

definition check_group_references :: "policy list \<Rightarrow> group_definition list \<Rightarrow> (core_error, unit) result" where
  "check_group_references policies groups =
     for_each (\<lambda>p. for_each (\<lambda>g.
       if g \<notin> gd_name ` set groups then
         Inl (Config (''policy '' @ quoted (seg_str (po_name p)) @ '' references undefined group '' @
           quoted (seg_str g)))
       else Inr ()) (po_groups p)) policies"

definition compile_scopes :: "policy \<Rightarrow> group_name option list" where
  "compile_scopes p = (if po_groups p = [] then [None] else map Some (po_groups p))"

definition compile_all_to_cedar ::
    "policy list \<Rightarrow> group_definition list \<Rightarrow> project_id \<Rightarrow> (core_error, string list) outcome" where
  "compile_all_to_cedar policies groups project =
     outcome_then (Some (check_group_references policies groups)) (\<lambda>_.
     outcome_then (Some (detect_circular_nesting groups)) (\<lambda>_.
       map_option (\<lambda>out. Inr (concat out))
         (those (concat (map (\<lambda>p. map (\<lambda>scope. compile_policy_to_cedar p scope project) (compile_scopes p))
           policies)))))"

section \<open>Correctness of the cycle check\<close>

definition nesting :: "adjacency \<Rightarrow> (group_name \<times> group_name) set" where
  "nesting adj = {(x, y). \<exists>ns. map_of adj x = Some ns \<and> y \<in> set ns}"

abbreviation finished :: "adjacency \<Rightarrow> group_name set \<Rightarrow> bool" where
  "finished adj F \<equiv> closed_under (nesting adj) F \<and> cycle_free (nesting adj) F"

lemma finished_insert:
  assumes "finished adj F" "nesting adj `` {x} \<subseteq> F" shows "finished adj (insert x F)"
  using assms by (simp add: closed_under_insert cycle_free_insert)

lemma nesting_succs: "nesting adj `` {x} = (case map_of adj x of None \<Rightarrow> {} | Some ns \<Rightarrow> set ns)"
  by (auto simp: nesting_def split: option.splits)

lemma dfs_ok:
  "dfs_cycle_check adj node V S = Inr (V', S') \<Longrightarrow> node \<notin> V \<Longrightarrow> S \<subseteq> V \<Longrightarrow> finished adj (V - S) \<Longrightarrow>
     S' = S \<and> finished adj (V' - S) \<and> insert node V \<subseteq> V'"
  "dfs_neighbors adj node ns V S = Inr (V', S') \<Longrightarrow> S \<subseteq> V \<Longrightarrow> finished adj (V - S) \<Longrightarrow>
     S' = S \<and> finished adj (V' - S) \<and> V \<subseteq> V' \<and> set ns \<subseteq> V' - S"
proof (induction adj node V S and adj node ns V S arbitrary: V' S' and V' S'
    rule: dfs_cycle_check_dfs_neighbors.induct)
  case (1 adj node V S)
  have node: "node \<notin> V" "node \<notin> S" using "1.prems" by auto
  then have pre: "insert node S \<subseteq> insert node V" "finished adj (insert node V - insert node S)"
    using "1.prems" by (auto simp: insert_Diff_if)
  have "\<exists>W. V' = W \<and> S' = S \<and> finished adj (W - insert node S) \<and> insert node V \<subseteq> W \<and>
      nesting adj `` {node} \<subseteq> W - insert node S"
  proof (cases "map_of adj node")
    case None
    then show ?thesis using "1.prems"(1) node pre(2)
      by (auto simp: dfs_cycle_check.simps nesting_succs)
  next
    case (Some ns)
    then obtain S1 where r: "dfs_neighbors adj node ns (insert node V) (insert node S) = Inr (V', S1)"
        and S': "S' = S1 - {node}"
      using "1.prems"(1) by (auto simp: dfs_cycle_check.simps)
    show ?thesis using "1.IH" [OF Some r pre] Some S' node by (auto simp: nesting_succs)
  qed
  moreover have "V' - S = insert node (V' - insert node S)" if "insert node V \<subseteq> V'"
    using that node by blast
  ultimately show ?case using finished_insert by metis
next
  case (2 adj node V S)
  then show ?case by auto
next
  case (3 adj node n ns V S)
  have n: "n \<notin> S" using "3.prems"(1) by (auto split: if_splits)
  show ?case
  proof (cases "n \<in> V")
    case True
    then have "dfs_neighbors adj node ns V S = Inr (V', S')" using "3.prems"(1) n by simp
    from "3.IH"(3) [OF n _ this "3.prems"(2,3)] True n show ?thesis by auto
  next
    case False
    then obtain V1 S1 where one: "dfs_cycle_check adj n V S = Inr (V1, S1)"
        and two: "dfs_neighbors adj node ns V1 S1 = Inr (V', S')"
      using "3.prems"(1) n by auto
    have A: "S1 = S" "finished adj (V1 - S)" "insert n V \<subseteq> V1"
      using "3.IH"(1) [OF n False one False "3.prems"(2,3)] by auto
    have "S' = S \<and> finished adj (V' - S) \<and> V1 \<subseteq> V' \<and> set ns \<subseteq> V' - S"
      using "3.IH"(2) [OF n False one refl] two A "3.prems"(2) by auto
    with A n show ?thesis by auto
  qed
qed

lemma dfs_stack:
  "dfs_cycle_check adj node V S = Inr (V', S') \<Longrightarrow> node \<notin> S \<Longrightarrow> S' = S"
  "dfs_neighbors adj node ns V S = Inr (V', S') \<Longrightarrow> S' = S"
proof (induction adj node V S and adj node ns V S arbitrary: V' S' and V' S'
    rule: dfs_cycle_check_dfs_neighbors.induct)
  case (1 adj node V S)
  show ?case
  proof (cases "map_of adj node")
    case None
    then show ?thesis using "1.prems" by (auto simp: dfs_cycle_check.simps)
  next
    case (Some ns)
    then obtain S1 where "dfs_neighbors adj node ns (insert node V) (insert node S) = Inr (V', S1)"
        "S' = S1 - {node}"
      using "1.prems"(1) by (auto simp: dfs_cycle_check.simps)
    with "1.IH" [OF Some] "1.prems"(2) show ?thesis by auto
  qed
next
  case (2 adj node V S)
  then show ?case by simp
next
  case (3 adj node n ns V S)
  have n: "n \<notin> S" using "3.prems"(1) by (auto split: if_splits)
  show ?case
  proof (cases "n \<in> V")
    case True
    then show ?thesis using "3.IH"(3) [OF n] "3.prems"(1) n by simp
  next
    case False
    then obtain V1 S1 where one: "dfs_cycle_check adj n V S = Inr (V1, S1)"
        and two: "dfs_neighbors adj node ns V1 S1 = Inr (V', S')"
      using "3.prems"(1) n by auto
    have "S1 = S" using "3.IH"(1) [OF n False one n] .
    moreover have "S' = S1" using "3.IH"(2) [OF n False one refl] two by simp
    ultimately show ?thesis by simp
  qed
qed

lemma dfs_acyclic:
  "acyclic (nesting adj) \<Longrightarrow> (\<forall>s \<in> S. (s, node) \<in> (nesting adj)\<^sup>+) \<Longrightarrow>
     \<exists>r. dfs_cycle_check adj node V S = Inr r"
  "acyclic (nesting adj) \<Longrightarrow> (\<forall>s \<in> S. s = node \<or> (s, node) \<in> (nesting adj)\<^sup>+) \<Longrightarrow>
     (\<forall>n \<in> set ns. (node, n) \<in> nesting adj) \<Longrightarrow> \<exists>r. dfs_neighbors adj node ns V S = Inr r"
proof (induction adj node V S and adj node ns V S rule: dfs_cycle_check_dfs_neighbors.induct)
  case (1 adj node V S)
  show ?case
  proof (cases "map_of adj node")
    case None
    then show ?thesis by (simp add: dfs_cycle_check.simps)
  next
    case (Some ns)
    then have "\<forall>n \<in> set ns. (node, n) \<in> nesting adj" by (simp add: nesting_def)
    from "1.IH" [OF Some "1.prems"(1) _ this] "1.prems"(2) Some show ?thesis
      by (auto simp: dfs_cycle_check.simps)
  qed
next
  case (2 adj node V S)
  then show ?case by simp
next
  case (3 adj node n ns V S)
  have to_n: "\<forall>s \<in> S. (s, n) \<in> (nesting adj)\<^sup>+"
    using "3.prems"(2,3) by (auto intro: trancl_into_trancl)
  then have n: "n \<notin> S" using "3.prems"(1) by (auto simp: acyclic_def)
  show ?case
  proof (cases "n \<in> V")
    case True
    then show ?thesis using "3.IH"(3) [OF n _ "3.prems"(1,2)] "3.prems"(3) n by auto
  next
    case False
    then obtain V1 S1 where one: "dfs_cycle_check adj n V S = Inr (V1, S1)"
      using "3.IH"(1) [OF n False "3.prems"(1) to_n] by fastforce
    then have "S1 = S" using dfs_stack(1) n by blast
    then show ?thesis using "3.IH"(2) [OF n False one refl] "3.prems" n False one by auto
  qed
qed

lemma detect_loop_ok:
  assumes "detect_loop adj gs V {} = Inr ()" "finished adj V"
  shows "\<exists>F. finished adj F \<and> gd_name ` set gs \<union> V \<subseteq> F"
  using assms
proof (induction gs arbitrary: V)
  case Nil
  then show ?case by auto
next
  case (Cons g gs)
  show ?case
  proof (cases "gd_name g \<in> V")
    case True
    then show ?thesis using Cons.IH [of V] Cons.prems by auto
  next
    case False
    then obtain V1 S1 where one: "dfs_cycle_check adj (gd_name g) V {} = Inr (V1, S1)"
        and two: "detect_loop adj gs V1 S1 = Inr ()" using Cons.prems(1) by auto
    have "S1 = {}" "finished adj V1" "insert (gd_name g) V \<subseteq> V1"
      using dfs_ok(1) [OF one False] Cons.prems(2) by auto
    moreover from this Cons.IH [of V1] two obtain F where "finished adj F" "gd_name ` set gs \<union> V1 \<subseteq> F"
      by auto
    ultimately show ?thesis by (intro exI [of _ F]) auto
  qed
qed

lemma acyclic_detect_loop:
  assumes "acyclic (nesting adj)" shows "detect_loop adj gs V {} = Inr ()"
proof (induction gs arbitrary: V)
  case (Cons g gs)
  obtain V1 S1 where one: "dfs_cycle_check adj (gd_name g) V {} = Inr (V1, S1)"
    using dfs_acyclic(1) [OF assms, of "{}" "gd_name g" V] by auto
  then have "S1 = {}" using dfs_stack(1) by blast
  with one Cons.IH show ?case by simp
qed simp

lemma group_adjacency_keys: "fst ` set (group_adjacency groups) = gd_name ` set groups"
proof -
  have "fst ` set (foldl (\<lambda>m g. hm_insert (gd_name g) (gd_member_groups g) m) m groups) =
      fst ` set m \<union> gd_name ` set groups" for m
    by (induction groups arbitrary: m) (auto simp: hm_insert_keys)
  then show ?thesis by (simp add: group_adjacency_def)
qed

lemma detect_circular_nesting_iff:
  "detect_circular_nesting groups = Inr () \<longleftrightarrow> acyclic (nesting (group_adjacency groups))"
proof
  let ?adj = "group_adjacency groups"
  assume "detect_circular_nesting groups = Inr ()"
  then have "\<exists>F. finished ?adj F \<and> gd_name ` set groups \<union> {} \<subseteq> F"
    by (intro detect_loop_ok) (simp_all add: detect_circular_nesting_def closed_under_def)
  then obtain F where F: "finished ?adj F" "gd_name ` set groups \<subseteq> F" by auto
  moreover have "Domain (nesting ?adj) \<subseteq> gd_name ` set groups"
    unfolding group_adjacency_keys [symmetric] by (force simp: nesting_def dest: map_of_SomeD)
  ultimately show "acyclic (nesting ?adj)" using cycle_free_acyclic [of "nesting ?adj" F] by auto
next
  assume "acyclic (nesting (group_adjacency groups))"
  then show "detect_circular_nesting groups = Inr ()"
    by (simp add: detect_circular_nesting_def acyclic_detect_loop)
qed

section \<open>Totality of the compilation\<close>

text \<open>The panic of \<open>exact_str\<close> is never reached: it is called under \<open>is_all_exact\<close>.\<close>

lemma cedar_action_exact: "is_all_exact p \<Longrightarrow> \<exists>a. cedar_action vp_ns p = Some a"
  by (auto simp: is_all_exact_def cedar_action_def split: pattern_segment.splits)

lemma collect_actions_total: "\<exists>r. collect_actions vp_ns ps cs w = Some r"
proof (induction ps arbitrary: cs w)
  case (Cons p ps)
  then show ?case using cedar_action_exact [of p vp_ns] by (cases "is_all_exact p") auto
qed simp

lemma compile_statement_total: "\<exists>t. compile_statement scope vp_ns st = Some t"
  using collect_actions_total [of vp_ns "st_actions st" "[]" False]
  by (auto simp: compile_statement_def build_action_clause_def)

lemma those_total: "(\<And>x. x \<in> set xs \<Longrightarrow> \<exists>y. f x = Some y) \<Longrightarrow> \<exists>ys. those (map f xs) = Some ys \<and> length ys = length xs"
  by (induction xs) fastforce+

lemma compile_policy_total:
  "\<exists>ts. compile_policy_to_cedar p scope project = Some ts \<and> length ts = length (po_statements p)"
  unfolding compile_policy_to_cedar_def by (intro those_total compile_statement_total)

lemma those_append:
  "those (xs @ ys) = (case those xs of None \<Rightarrow> None | Some a \<Rightarrow> map_option ((@) a) (those ys))"
  by (cases "those ys"; induction xs) (auto split: option.splits)

lemma compile_scopes_total:
  "\<exists>out. those (map (\<lambda>scope. compile_policy_to_cedar p scope project) scopes) = Some out \<and>
     length (concat out) = length scopes * length (po_statements p)"
proof (induction scopes)
  case (Cons s ss)
  obtain ts where "compile_policy_to_cedar p s project = Some ts" "length ts = length (po_statements p)"
    using compile_policy_total by blast
  with Cons show ?case by auto
qed simp

lemma compile_policies_total:
  "\<exists>out. those (concat (map (\<lambda>p. map (\<lambda>scope. compile_policy_to_cedar p scope project) (compile_scopes p)) ps)) =
       Some out \<and>
     length (concat out) = (\<Sum>p \<leftarrow> ps. length (compile_scopes p) * length (po_statements p))"
proof (induction ps)
  case (Cons p ps)
  obtain a where a: "those (map (\<lambda>scope. compile_policy_to_cedar p scope project) (compile_scopes p)) = Some a"
      "length (concat a) = length (compile_scopes p) * length (po_statements p)"
    using compile_scopes_total by blast
  from Cons show ?case by (auto simp: those_append a)
qed simp

lemma check_group_references_iff:
  "check_group_references ps gs = Inr () \<longleftrightarrow> (\<Union>p \<in> set ps. set (po_groups p)) \<subseteq> gd_name ` set gs"
  by (auto simp: check_group_references_def UN_subset_iff subset_iff split: if_splits)

section \<open>Properties\<close>


text \<open>
  A pattern with any wildcard compiles to the unconstrained action clause, so the compiled
  statement covers every action: a pattern confined to one namespace and the pattern for all
  actions give the same Cedar text although \<open>ActionPattern::matches\<close> tells them apart.
\<close>

theorem wildcard_patterns_conflated:
  "\<exists>p q a. action_pattern_parse ''todo:*:*'' = Inr p \<and> action_pattern_parse ''*:*:*'' = Inr q \<and>
     qualified_action_parse ''billing:invoice:pay'' = Inr a \<and>
     \<not> action_pattern_matches p a \<and> action_pattern_matches q a \<and>
     build_action_clause [p] vp_ns = build_action_clause [q] vp_ns"
proof -
  let ?p = "\<lparr>ap_namespace = Exact (the (to_ok (segment_try_new ''todo''))), ap_action = Wildcard, ap_entity = Wildcard\<rparr>"
  let ?q = "\<lparr>ap_namespace = Wildcard, ap_action = Wildcard, ap_entity = Wildcard\<rparr>"
  have "action_pattern_parse ''todo:*:*'' = Inr ?p" by code_simp
  moreover have "action_pattern_parse ''*:*:*'' = Inr ?q" by code_simp
  moreover obtain a where a: "qualified_action_parse ''billing:invoice:pay'' = Inr a"
      "\<not> action_pattern_matches ?p a"
    by (rule that [of "the (to_ok (qualified_action_parse ''billing:invoice:pay''))"]) code_simp+
  moreover have "action_pattern_matches ?q a" by (simp add: action_pattern_matches_def)
  moreover have "build_action_clause [?p] vp_ns = build_action_clause [?q] vp_ns"
    by (simp add: build_action_clause_def is_all_exact_def)
  ultimately show ?thesis by blast
qed

end
