(* ===== verification/Rbac.thy ===== *)
theory Rbac
  imports Graphs Cedar_Compile
begin

text \<open>
  Role-based access control (\<open>crates/authz-core/src/rbac\<close>): the compilation of a role to a Cedar
  permit (\<open>mod.rs\<close>, \<open>permits.rs\<close>), the resolution of role inheritance by depth-first search and
  the validation of a group write (\<open>validation.rs\<close>).

  The messages of \<open>compile_rbac_to_cedar\<close> are constructors carrying the values the source formats;
  those of \<open>resolve_inherits\<close> are the strings themselves, because \<open>map_resolve_err\<close> inspects them.
\<close>

section \<open>Roles\<close>

definition CYCLE_PREFIX :: string where "CYCLE_PREFIX = ''cycle detected''"

record rbac_entry =
  re_name :: string
  re_description :: "string option"
  re_inherits :: "string list"
  re_allow :: "string list"
  re_tenant_scoped :: bool

record tenant_config =
  tc_enabled :: bool
  tc_principal_attribute :: string
  tc_resource_attribute :: string

definition tenant_config_default :: tenant_config where
  "tenant_config_default =
     \<lparr>tc_enabled = True, tc_principal_attribute = ''tenant_id'', tc_resource_attribute = ''tenant_id''\<rparr>"

section \<open>Compilation of a role\<close>

datatype rbac_compile_error =
    IdentEmpty string
  | IdentInvalid string string
  | EmptyAllowList string

text \<open>
  \<open>chars().any(is_control)\<close> on the UTF-8 bytes: the C0 controls and DEL are single bytes, the C1
  controls U+0080 to U+009F are the pairs C2 80 to C2 9F.
\<close>

fun has_control :: "string \<Rightarrow> bool" where
  "has_control [] = False"
| "has_control (c # cs) =
     (byte c < 0x20 \<or> byte c = 0x7F \<or>
      (byte c = 0xC2 \<and> (case cs of [] \<Rightarrow> False | d # _ \<Rightarrow> 0x80 \<le> byte d \<and> byte d \<le> 0x9F)) \<or>
      has_control cs)"

definition validate_cedar_ident :: "string \<Rightarrow> string \<Rightarrow> (rbac_compile_error, unit) result" where
  "validate_cedar_ident value label =
     (if value = [] then Inl (IdentEmpty label)
      else if CHR 0x22 \<in> set value \<or> CHR 0x5C \<in> set value \<or> has_control value
      then Inl (IdentInvalid label value)
      else Inr ())"

definition rbac_action :: "string \<Rightarrow> string \<Rightarrow> string" where
  "rbac_action ns a = ns @ ''::Action::'' @ dquoted a"

definition compile_rbac_to_cedar ::
    "rbac_entry \<Rightarrow> tenant_config \<Rightarrow> string \<Rightarrow> (rbac_compile_error, string) result" where
  "compile_rbac_to_cedar entry tenant ns =
     (let scoped = re_tenant_scoped entry \<and> tc_enabled tenant in
      and_then (validate_cedar_ident (re_name entry) ''role name'') (\<lambda>_.
      if re_allow entry = [] then Inl (EmptyAllowList (re_name entry))
      else
        and_then (for_each (\<lambda>a. validate_cedar_ident a ''action'') (re_allow entry)) (\<lambda>_.
        and_then
          (if scoped then
             and_then (validate_cedar_ident (tc_principal_attribute tenant) ''tenant principal_attribute'') (\<lambda>_.
               validate_cedar_ident (tc_resource_attribute tenant) ''tenant resource_attribute'')
           else Inr ()) (\<lambda>_.
        Inr (''permit('' @ nl @
          ''  principal in '' @ ns @ ''::Group::'' @ dquoted (re_name entry) @ '','' @ nl @
          ''  action in ['' @ join '', '' (map (rbac_action ns) (re_allow entry)) @ ''],'' @ nl @
          (if scoped then
             ''  resource'' @ nl @ '') when { principal.'' @ tc_principal_attribute tenant @
             '' == resource.'' @ tc_resource_attribute tenant @ '' };''
           else ''  resource'' @ nl @ '');''))))))"

section \<open>Permits\<close>

record named_permit =
  np_name :: string
  np_statement :: string

definition policy_name_for_group :: "string \<Rightarrow> string" where
  "policy_name_for_group g = ''cp-rbac-'' @ g"

record materialize_compile_error =
  mce_name :: string
  mce_reason :: rbac_compile_error

definition groups_to_permits ::
    "rbac_entry list \<Rightarrow> string \<Rightarrow> tenant_config \<Rightarrow> (materialize_compile_error, named_permit list) result" where
  "groups_to_permits entries ns tenant =
     collect_results (map (\<lambda>entry.
       and_then (map_err (\<lambda>reason. \<lparr>mce_name = re_name entry, mce_reason = reason\<rparr>)
           (compile_rbac_to_cedar entry tenant ns)) (\<lambda>statement.
         Inr \<lparr>np_name = policy_name_for_group (re_name entry), np_statement = statement\<rparr>))
       (sort_key re_name entries))"

section \<open>Inheritance\<close>

type_synonym role_map = "(string, string list) hash_map"

record walker =
  wk_collected :: "string list"
  wk_seen_actions :: "string set"
  wk_visiting :: "string set"
  wk_visited :: "string set"

fun push_actions :: "string list \<Rightarrow> walker \<Rightarrow> walker" where
  "push_actions [] w = w"
| "push_actions (a # as) w =
     push_actions as
       (if a \<in> wk_seen_actions w then w
        else w\<lparr>wk_seen_actions := insert a (wk_seen_actions w), wk_collected := wk_collected w @ [a]\<rparr>)"

lemma push_actions_frame [simp]:
  "wk_visiting (push_actions as w) = wk_visiting w" "wk_visited (push_actions as w) = wk_visited w"
  by (induction as arbitrary: w) auto

lemma push_actions_collects:
  assumes "wk_seen_actions w = set (wk_collected w)" "distinct (wk_collected w)"
  shows "wk_seen_actions (push_actions as w) = set (wk_collected (push_actions as w)) \<and>
     distinct (wk_collected (push_actions as w)) \<and>
     set (wk_collected (push_actions as w)) = set (wk_collected w) \<union> set as"
  using assms by (induction as arbitrary: w) auto

function collect_role :: "role_map \<Rightarrow> role_map \<Rightarrow> string \<Rightarrow> walker \<Rightarrow> (string, walker) result"
  and collect_parents :: "role_map \<Rightarrow> role_map \<Rightarrow> string list \<Rightarrow> walker \<Rightarrow> (string, walker) result" where
  "collect_role rbac inherits role w =
     (if role \<in> wk_visiting w then Inl (CYCLE_PREFIX @ '' in role inheritance: '' @ quoted role)
      else if role \<in> wk_visited w then Inr w
      else (case map_of rbac role of
          None \<Rightarrow> Inl (''RBAC role '' @ quoted role @ '' not found (referenced via inherits)'')
        | Some actions \<Rightarrow>
            and_then
              (case map_of inherits role of
                 Some parents \<Rightarrow> collect_parents rbac inherits parents
                   (push_actions actions (w\<lparr>wk_visiting := insert role (wk_visiting w)\<rparr>))
               | None \<Rightarrow> Inr (push_actions actions (w\<lparr>wk_visiting := insert role (wk_visiting w)\<rparr>)))
              (\<lambda>w'. Inr (w'\<lparr>wk_visiting := wk_visiting w' - {role}, wk_visited := insert role (wk_visited w')\<rparr>))))"
| "collect_parents rbac inherits [] w = Inr w"
| "collect_parents rbac inherits (p # ps) w =
     and_then (collect_role rbac inherits p w) (\<lambda>w'. collect_parents rbac inherits ps w')"
  by pat_completeness auto

lemma collect_visiting:
  "collect_role_collect_parents_dom (Inl (A, I, role, w)) \<Longrightarrow>
     (\<And>w'. collect_role A I role w = Inr w' \<Longrightarrow> wk_visiting w' = wk_visiting w)"
  "collect_role_collect_parents_dom (Inr (A, I, ps, w)) \<Longrightarrow>
     (\<And>w'. collect_parents A I ps w = Inr w' \<Longrightarrow> wk_visiting w' = wk_visiting w)"
proof (induction A I role w and A I ps w rule: collect_role_collect_parents.pinduct)
  case (1 A I role w)
  show ?case
  proof (cases "role \<in> wk_visiting w \<or> role \<in> wk_visited w \<or> map_of A role = None \<or> map_of I role = None")
    case True
    then show ?thesis using 1(3)
      by (auto simp: collect_role.psimps [OF 1(1)] split: if_splits option.splits)
  next
    case False
    then obtain acts ps w2 where *: "map_of A role = Some acts" "map_of I role = Some ps"
        "collect_parents A I ps (push_actions acts (w\<lparr>wk_visiting := insert role (wk_visiting w)\<rparr>)) = Inr w2"
        "w' = w2\<lparr>wk_visiting := wk_visiting w2 - {role}, wk_visited := insert role (wk_visited w2)\<rparr>"
      using 1(3) by (auto simp: collect_role.psimps [OF 1(1)])
    then show ?thesis using 1(2) [of acts ps w2] False by auto
  qed
next
  case (2 A I w)
  then show ?case by (simp add: collect_parents.psimps)
next
  case (3 A I p ps w)
  obtain w1 where "collect_role A I p w = Inr w1" "collect_parents A I ps w1 = Inr w'"
    using 3(4) by (auto simp: collect_parents.psimps(2) [OF 3(1)])
  then show ?case using 3(2,3) by metis
qed

lemma collect_total: "All collect_role_collect_parents_dom"
proof (rule "collect_role_collect_parents.termination" [of "measures [\<lambda>a. case a of
      Inl (A, I, role, w) \<Rightarrow> card (fst ` set A - wk_visiting w)
    | Inr (A, I, ps, w) \<Rightarrow> card (fst ` set A - wk_visiting w),
    \<lambda>a. case a of Inl _ \<Rightarrow> 0 | Inr (A, I, ps, w) \<Rightarrow> Suc (length ps)]"], goal_cases)
  case (2 A I role w acts ps)
  then have "role \<in> fst ` set A - wk_visiting w" by (force dest: map_of_SomeD)
  then have "card (fst ` set A - insert role (wk_visiting w)) < card (fst ` set A - wk_visiting w)"
    by (intro psubset_card_mono) auto
  then show ?case by simp
next
  case (4 A I p ps w w')
  then show ?case using collect_visiting(1) by simp
qed auto

termination collect_role
  by (rule collect_total)

declare collect_role.simps [simp del]

definition rbac_map :: "rbac_entry list \<Rightarrow> role_map" where
  "rbac_map entries = foldl (\<lambda>m e. hm_insert (re_name e) (re_allow e) m) [] entries"

definition inherits_map :: "rbac_entry list \<Rightarrow> role_map" where
  "inherits_map entries = foldl (\<lambda>m e. hm_insert (re_name e) (re_inherits e) m) [] entries"

definition walker_init :: walker where
  "walker_init = \<lparr>wk_collected = [], wk_seen_actions = {}, wk_visiting = {}, wk_visited = {}\<rparr>"

definition resolve_inherits :: "rbac_entry list \<Rightarrow> string \<Rightarrow> (string, string list) result" where
  "resolve_inherits entries target =
     (if \<not> hm_contains (rbac_map entries) target then
        Inl (''RBAC role '' @ quoted target @ '' not found'')
      else and_then (collect_role (rbac_map entries) (inherits_map entries) target walker_init)
        (\<lambda>w. Inr (wk_collected w)))"

section \<open>Validation of a group write\<close>

datatype group_validation_error =
    BadNameRegex string
  | BadActionId string
  | BadActionFormat string
  | EmptyAllow
  | InheritCycle string
  | UnknownInherit string
  | DescriptionTooLong
  | NameMismatch string string

fun GROUP_NAME_RE :: "string \<Rightarrow> bool" where
  "GROUP_NAME_RE [] = False"
| "GROUP_NAME_RE (c # cs) =
     (is_ascii_lowercase c \<and>
      list_all (\<lambda>d. is_ascii_lowercase d \<or> is_ascii_digit d \<or> d = CHR ''_'' \<or> d = CHR ''-'') cs)"

definition ACTION_FORMAT_RE :: "string \<Rightarrow> bool" where
  "ACTION_FORMAT_RE s =
     (case split_on CHR '':'' s of
        [a, b, c] \<Rightarrow> GROUP_NAME_RE a \<and> GROUP_NAME_RE b \<and> GROUP_NAME_RE c
      | _ \<Rightarrow> False)"

definition validate_group_name :: "string \<Rightarrow> (group_validation_error, unit) result" where
  "validate_group_name name = (if GROUP_NAME_RE name then Inr () else Inl (BadNameRegex name))"

definition validate_action_id :: "string \<Rightarrow> (group_validation_error, unit) result" where
  "validate_action_id a = (if GROUP_NAME_RE a then Inr () else Inl (BadActionId a))"

definition validate_action_format :: "string \<Rightarrow> (group_validation_error, unit) result" where
  "validate_action_format a = (if ACTION_FORMAT_RE a then Inr () else Inl (BadActionFormat a))"

definition map_resolve_err :: "string \<Rightarrow> group_validation_error" where
  "map_resolve_err s = (if starts_with s CYCLE_PREFIX then InheritCycle s else UnknownInherit s)"

definition validate_rbac_entry ::
    "rbac_entry \<Rightarrow> rbac_entry list \<Rightarrow> (group_validation_error, rbac_entry) result" where
  "validate_rbac_entry proposed all_after =
     and_then (validate_group_name (re_name proposed)) (\<lambda>_.
     if re_allow proposed = [] then Inl EmptyAllow
     else if (case re_description proposed of None \<Rightarrow> False | Some d \<Rightarrow> length d > 1024)
     then Inl DescriptionTooLong
     else
       and_then (for_each validate_action_format (re_allow proposed)) (\<lambda>_.
       and_then (map_err map_resolve_err (resolve_inherits all_after (re_name proposed))) (\<lambda>_.
       Inr proposed)))"

section \<open>Correctness of the resolution\<close>

text \<open>Role \<open>x\<close> inherits directly from \<open>y\<close>.\<close>

definition inherit_edges :: "role_map \<Rightarrow> (string \<times> string) set" where
  "inherit_edges I = {(x, y). \<exists>ps. map_of I x = Some ps \<and> y \<in> set ps}"

lemma inherit_edges_succs: "inherit_edges I `` {x} = (case map_of I x of None \<Rightarrow> {} | Some ps \<Rightarrow> set ps)"
  by (auto simp: inherit_edges_def split: option.splits)

definition role_actions :: "role_map \<Rightarrow> string set \<Rightarrow> string set" where
  "role_actions A R = (\<Union>r \<in> R. \<Union>acts \<in> set_option (map_of A r). set acts)"

lemma role_actions_insert: "map_of A r = Some acts \<Longrightarrow> role_actions A (insert r R) = set acts \<union> role_actions A R"
  by (simp add: role_actions_def)

lemma role_actions_Un: "role_actions A (R \<union> S) = role_actions A R \<union> role_actions A S"
  by (simp add: role_actions_def)

definition walker_ok :: "role_map \<Rightarrow> role_map \<Rightarrow> walker \<Rightarrow> bool" where
  "walker_ok A I w \<longleftrightarrow>
     wk_visiting w \<inter> wk_visited w = {} \<and>
     closed_under (inherit_edges I) (wk_visited w) \<and> cycle_free (inherit_edges I) (wk_visited w) \<and>
     wk_visited w \<subseteq> fst ` set A \<and>
     wk_seen_actions w = set (wk_collected w) \<and> distinct (wk_collected w) \<and>
     set (wk_collected w) = role_actions A (wk_visited w \<union> wk_visiting w)"

lemma walker_ok_enter:
  assumes "walker_ok A I w" "role \<notin> wk_visited w" "map_of A role = Some acts"
  shows "walker_ok A I (push_actions acts (w\<lparr>wk_visiting := insert role (wk_visiting w)\<rparr>))"
  using assms push_actions_collects [of "w\<lparr>wk_visiting := insert role (wk_visiting w)\<rparr>" acts]
  by (auto simp: walker_ok_def role_actions_insert [OF assms(3)])

lemma walker_ok_leave:
  assumes "walker_ok A I w" "role \<in> wk_visiting w" "role \<in> fst ` set A"
    "inherit_edges I `` {role} \<subseteq> wk_visited w"
  shows "walker_ok A I (w\<lparr>wk_visiting := wk_visiting w - {role}, wk_visited := insert role (wk_visited w)\<rparr>)"
proof -
  have "insert role (wk_visited w) \<union> (wk_visiting w - {role}) = wk_visited w \<union> wk_visiting w"
    using assms(2) by blast
  with assms show ?thesis
    by (auto simp: walker_ok_def closed_under_insert cycle_free_insert)
qed

definition walk_reaches :: "role_map \<Rightarrow> string set \<Rightarrow> walker \<Rightarrow> walker \<Rightarrow> bool" where
  "walk_reaches I R w w' \<longleftrightarrow>
     wk_visiting w' = wk_visiting w \<and> wk_visited w \<subseteq> wk_visited w' \<and> R \<subseteq> wk_visited w' \<and>
     wk_visited w' \<subseteq> wk_visited w \<union> (inherit_edges I)\<^sup>* `` R"

lemma walk_reaches_trans:
  assumes "walk_reaches I R w w1" "walk_reaches I S w1 w2" shows "walk_reaches I (R \<union> S) w w2"
  using assms unfolding walk_reaches_def Image_Un by blast

lemma role_reach_succ:
  "(inherit_edges I)\<^sup>* `` {r} = insert r ((inherit_edges I)\<^sup>* `` (inherit_edges I `` {r}))"
  by (auto intro: converse_rtrancl_into_rtrancl elim: converse_rtranclE)

lemma collect_ok:
  "collect_role A I role w = Inr w' \<Longrightarrow> walker_ok A I w \<Longrightarrow>
     walker_ok A I w' \<and> walk_reaches I {role} w w'"
  "collect_parents A I ps w = Inr w' \<Longrightarrow> walker_ok A I w \<Longrightarrow>
     walker_ok A I w' \<and> walk_reaches I (set ps) w w'"
proof (induction A I role w and A I ps w arbitrary: w' and w' rule: collect_role_collect_parents.induct)
  case (1 A I role w)
  show ?case
  proof (cases "role \<in> wk_visited w")
    case True
    then show ?thesis using "1.prems"
      by (auto simp: collect_role.simps walk_reaches_def split: if_splits)
  next
    case False
    then obtain acts where n: "role \<notin> wk_visiting w" and acts: "map_of A role = Some acts"
      using "1.prems"(1) by (auto simp: collect_role.simps split: if_splits option.splits)
    let ?w = "push_actions acts (w\<lparr>wk_visiting := insert role (wk_visiting w)\<rparr>)"
    have enter: "walker_ok A I ?w" using walker_ok_enter [OF "1.prems"(2) False acts] .
    obtain w2 where w2: "walker_ok A I w2" "walk_reaches I (inherit_edges I `` {role}) ?w w2"
        and w': "w' = w2\<lparr>wk_visiting := wk_visiting w2 - {role}, wk_visited := insert role (wk_visited w2)\<rparr>"
    proof (cases "map_of I role")
      case None
      then show ?thesis using "1.prems"(1) False n acts enter
        by (intro that [of ?w]) (auto simp: collect_role.simps inherit_edges_succs walk_reaches_def)
    next
      case (Some ps)
      then obtain w2 where r: "collect_parents A I ps ?w = Inr w2"
          "w' = w2\<lparr>wk_visiting := wk_visiting w2 - {role}, wk_visited := insert role (wk_visited w2)\<rparr>"
        using "1.prems"(1) False n acts by (auto simp: collect_role.simps)
      show ?thesis using "1.IH" [OF n False acts Some r(1) enter] r(2) Some
        by (intro that [of w2]) (auto simp: inherit_edges_succs)
    qed
    have known: "role \<in> fst ` set A" using acts by (force dest: map_of_SomeD)
    have "walker_ok A I w'" unfolding w'
      using w2 known by (intro walker_ok_leave) (auto simp: walk_reaches_def)
    moreover have "walk_reaches I {role} w w'"
      using w2(2) n False unfolding w' walk_reaches_def role_reach_succ [of I role] by auto
    ultimately show ?thesis ..
  qed
next
  case (2 A I w)
  then show ?case by (simp add: walk_reaches_def)
next
  case (3 A I p ps w)
  obtain w1 where w1: "collect_role A I p w = Inr w1" "collect_parents A I ps w1 = Inr w'"
    using "3.prems"(1) by auto
  have "walker_ok A I w1 \<and> walk_reaches I {p} w w1" using "3.IH"(1) w1(1) "3.prems"(2) by blast
  moreover from this have "walker_ok A I w' \<and> walk_reaches I (set ps) w1 w'"
    using "3.IH"(2) w1 by blast
  ultimately show ?case using walk_reaches_trans [of I "{p}" w w1 "set ps" w'] by simp
qed

lemma collect_complete:
  "(inherit_edges I)\<^sup>* `` {role} \<subseteq> fst ` set A \<Longrightarrow> cycle_free (inherit_edges I) ((inherit_edges I)\<^sup>* `` {role}) \<Longrightarrow>
     wk_visiting w \<times> {role} \<subseteq> (inherit_edges I)\<^sup>+ \<Longrightarrow> \<exists>w'. collect_role A I role w = Inr w'"
  "(inherit_edges I)\<^sup>* `` set ps \<subseteq> fst ` set A \<Longrightarrow> cycle_free (inherit_edges I) ((inherit_edges I)\<^sup>* `` set ps) \<Longrightarrow>
     wk_visiting w \<times> set ps \<subseteq> (inherit_edges I)\<^sup>+ \<Longrightarrow> \<exists>w'. collect_parents A I ps w = Inr w'"
proof (induction A I role w and A I ps w rule: collect_role_collect_parents.induct)
  case (1 A I role w)
  have n: "role \<notin> wk_visiting w" using "1.prems"(2,3) by (auto simp: cycle_free_def)
  obtain acts where acts: "map_of A role = Some acts"
    using "1.prems"(1) by (metis Image_singleton_iff map_of_eq_None_iff not_Some_eq rtrancl.rtrancl_refl subsetD)
  show ?case
  proof (cases "role \<in> wk_visited w \<or> map_of I role = None")
    case True
    then show ?thesis using n acts by (auto simp: collect_role.simps)
  next
    case False
    then obtain ps where ps: "map_of I role = Some ps" by auto
    then have succ: "inherit_edges I `` {role} = set ps" by (simp add: inherit_edges_succs)
    then have reach: "(inherit_edges I)\<^sup>* `` set ps \<subseteq> (inherit_edges I)\<^sup>* `` {role}"
      using role_reach_succ [of I role] by blast
    have "wk_visiting w \<times> set ps \<subseteq> (inherit_edges I)\<^sup>+" "{role} \<times> set ps \<subseteq> (inherit_edges I)\<^sup>+"
      using "1.prems"(3) succ by (auto intro: trancl_into_trancl)
    then have "insert role (wk_visiting w) \<times> set ps \<subseteq> (inherit_edges I)\<^sup>+" by blast
    then have "\<exists>w2. collect_parents A I ps
        (push_actions acts (w\<lparr>wk_visiting := insert role (wk_visiting w)\<rparr>)) = Inr w2"
      using "1.prems"(1) reach False
      by (intro "1.IH" [OF n _ acts ps] cycle_free_mono [OF "1.prems"(2)]) auto
    then show ?thesis using n False acts ps by (auto simp: collect_role.simps)
  qed
next
  case (2 A I w)
  then show ?case by simp
next
  case (3 A I p ps w)
  have "(inherit_edges I)\<^sup>* `` {p} \<subseteq> (inherit_edges I)\<^sup>* `` set (p # ps)"
    "(inherit_edges I)\<^sup>* `` set ps \<subseteq> (inherit_edges I)\<^sup>* `` set (p # ps)" by auto
  note sub = this
  have "\<exists>w1. collect_role A I p w = Inr w1"
    using "3.prems"(1,3) sub(1) by (intro "3.IH"(1) cycle_free_mono [OF "3.prems"(2)]) auto
  then obtain w1 where w1: "collect_role A I p w = Inr w1" ..
  then have same: "wk_visiting w1 = wk_visiting w"
    by (rule collect_visiting(1) [OF collect_total [rule_format]])
  have "\<exists>w2. collect_parents A I ps w1 = Inr w2"
    using "3.prems"(1,3) sub(2) same by (intro "3.IH"(2) [OF w1] cycle_free_mono [OF "3.prems"(2)]) auto
  then show ?case using w1 by simp
qed

lemma role_map_keys:
  "fst ` set (rbac_map es) = re_name ` set es" "fst ` set (inherits_map es) = re_name ` set es"
proof -
  have "fst ` set (foldl (\<lambda>m e. hm_insert (re_name e) (f e) m) m es) = fst ` set m \<union> re_name ` set es"
    for m and f :: "rbac_entry \<Rightarrow> string list"
    by (induction es arbitrary: m) (auto simp: hm_insert_keys)
  then show "fst ` set (rbac_map es) = re_name ` set es" "fst ` set (inherits_map es) = re_name ` set es"
    by (simp_all add: rbac_map_def inherits_map_def)
qed

text \<open>The roles a role inherits from, itself included.\<close>

definition inherited :: "rbac_entry list \<Rightarrow> string \<Rightarrow> string set" where
  "inherited es r = (inherit_edges (inherits_map es))\<^sup>* `` {r}"

lemma resolve_inherits_sound:
  assumes "resolve_inherits es target = Inr acts"
  shows "inherited es target \<subseteq> re_name ` set es" "cycle_free (inherit_edges (inherits_map es)) (inherited es target)"
    "distinct acts" "set acts = role_actions (rbac_map es) (inherited es target)"
proof -
  let ?E = "inherit_edges (inherits_map es)"
  obtain w where w: "collect_role (rbac_map es) (inherits_map es) target walker_init = Inr w"
      "acts = wk_collected w"
    using assms by (auto simp: resolve_inherits_def split: if_splits)
  have "walker_ok (rbac_map es) (inherits_map es) walker_init"
    by (simp add: walker_ok_def walker_init_def closed_under_def role_actions_def)
  from collect_ok(1) [OF w(1) this]
  have ok: "walker_ok (rbac_map es) (inherits_map es) w" "target \<in> wk_visited w" "wk_visiting w = {}"
      "wk_visited w \<subseteq> inherited es target"
    by (auto simp: walk_reaches_def walker_init_def inherited_def)
  have "inherited es target \<subseteq> wk_visited w"
    using closed_under_rtrancl [of ?E "wk_visited w" target] ok(1,2)
    by (auto simp: inherited_def walker_ok_def)
  then have "wk_visited w = inherited es target" using ok(4) by blast
  with ok w(2) show "inherited es target \<subseteq> re_name ` set es" "cycle_free ?E (inherited es target)"
    "distinct acts" "set acts = role_actions (rbac_map es) (inherited es target)"
    by (auto simp: walker_ok_def role_map_keys)
qed

lemma resolve_inherits_complete:
  assumes "inherited es target \<subseteq> re_name ` set es" "cycle_free (inherit_edges (inherits_map es)) (inherited es target)"
  shows "\<exists>acts. resolve_inherits es target = Inr acts"
proof -
  have "\<exists>w. collect_role (rbac_map es) (inherits_map es) target walker_init = Inr w"
    using assms by (intro collect_complete(1)) (auto simp: inherited_def walker_init_def role_map_keys)
  moreover have "target \<in> re_name ` set es" using assms(1) by (auto simp: inherited_def)
  ultimately show ?thesis by (auto simp: resolve_inherits_def hm_contains_iff role_map_keys)
qed

lemma resolve_inherits_ok_iff:
  "is_ok (resolve_inherits es target) \<longleftrightarrow>
     inherited es target \<subseteq> re_name ` set es \<and>
     cycle_free (inherit_edges (inherits_map es)) (inherited es target)"
  using resolve_inherits_sound resolve_inherits_complete unfolding is_ok_iff by blast

section \<open>The compiled text determines the role\<close>

lemma validate_cedar_ident_Inr_iff:
  "validate_cedar_ident v l = Inr () \<longleftrightarrow>
     v \<noteq> [] \<and> CHR 0x22 \<notin> set v \<and> CHR 0x5C \<notin> set v \<and> \<not> has_control v"
  by (auto simp: validate_cedar_ident_def)

lemma dquoted_append_eq_iff:
  "CHR 0x22 \<notin> set a \<Longrightarrow> CHR 0x22 \<notin> set b \<Longrightarrow> dquoted a @ x = dquoted b @ y \<longleftrightarrow> a = b \<and> x = y"
  by (simp add: dquoted_def sep_append_eq_iff)

lemma rbac_action_append_eq_iff:
  "CHR 0x22 \<notin> set a \<Longrightarrow> CHR 0x22 \<notin> set b \<Longrightarrow>
     rbac_action ns a @ x = rbac_action ns b @ y \<longleftrightarrow> a = b \<and> x = y"
  by (simp add: rbac_action_def dquoted_append_eq_iff)

lemma join_Cons: "xs \<noteq> [] \<Longrightarrow> join sep (x # xs) = x @ sep @ join sep xs"
  by (cases xs) auto

text \<open>A bracketed list of quoted literals reads back in one way only.\<close>

lemma rbac_actions_eq:
  assumes "as \<noteq> []" "bs \<noteq> []" "\<forall>a \<in> set as. CHR 0x22 \<notin> set a" "\<forall>b \<in> set bs. CHR 0x22 \<notin> set b"
    "join '', '' (map (rbac_action ns) as) @ '']'' @ x = join '', '' (map (rbac_action ns) bs) @ '']'' @ y"
  shows "as = bs \<and> x = y"
  using assms
proof (induction as arbitrary: bs)
  case (Cons a as)
  then obtain b bs' where bs: "bs = b # bs'" by (cases bs) auto
  have q: "CHR 0x22 \<notin> set a" "CHR 0x22 \<notin> set b" using Cons.prems bs by auto
  show ?case
  proof (cases "as = [] \<or> bs' = []")
    case True
    then show ?thesis using Cons.prems(5) q unfolding bs
      by (cases as; cases bs') (auto simp: rbac_action_append_eq_iff join_Cons)
  next
    case False
    then have "a = b" "join '', '' (map (rbac_action ns) as) @ '']'' @ x = join '', '' (map (rbac_action ns) bs') @ '']'' @ y"
      using Cons.prems(5) q unfolding bs by (auto simp: rbac_action_append_eq_iff join_Cons)
    then show ?thesis using Cons.IH [of bs'] Cons.prems False bs by auto
  qed
qed simp

lemma compile_rbac_Inr:
  assumes "compile_rbac_to_cedar e t ns = Inr s"
  shows "CHR 0x22 \<notin> set (re_name e)" "re_allow e \<noteq> []" "\<forall>a \<in> set (re_allow e). CHR 0x22 \<notin> set a"
    "\<exists>x. s = ''permit('' @ nl @ ''  principal in '' @ ns @ ''::Group::'' @ dquoted (re_name e) @ '','' @ nl @
       ''  action in ['' @ join '', '' (map (rbac_action ns) (re_allow e)) @ '']'' @ x"
  using assms
  by (auto simp: compile_rbac_to_cedar_def Let_def validate_cedar_ident_Inr_iff split: if_splits)

section \<open>Properties\<close>

text \<open>
  C21. \<open>resolve_inherits\<close> always returns. It succeeds exactly when every role reached through
  \<open>inherits\<close> is defined and no reached role is on an inheritance cycle; the actions it returns are
  then those of the reached roles, each once, however the inheritance branches and rejoins.
\<close>

theorem resolve_inherits_correct:
  "is_ok (resolve_inherits es target) =
     (inherited es target \<subseteq> re_name ` set es \<and>
      cycle_free (inherit_edges (inherits_map es)) (inherited es target)) \<and>
   (case resolve_inherits es target of
      Inl _ \<Rightarrow> True
    | Inr acts \<Rightarrow> distinct acts \<and> set acts = role_actions (rbac_map es) (inherited es target))"
  using resolve_inherits_ok_iff resolve_inherits_sound by (auto split: sum.splits)

text \<open>
  Values cannot break out of their quoted literals: two roles that compile to the same Cedar
  text under one tenant configuration have the same name and the same actions in the same order.
\<close>

theorem compile_rbac_injective:
  assumes "compile_rbac_to_cedar e t ns = Inr s" "compile_rbac_to_cedar e' t ns = Inr s"
  shows "re_name e = re_name e' \<and> re_allow e = re_allow e'"
proof -
  note e = compile_rbac_Inr [OF assms(1)] and e' = compile_rbac_Inr [OF assms(2)]
  obtain x y where eq: "dquoted (re_name e) @ '','' @ nl @ ''  action in ['' @
        join '', '' (map (rbac_action ns) (re_allow e)) @ '']'' @ x =
      dquoted (re_name e') @ '','' @ nl @ ''  action in ['' @
        join '', '' (map (rbac_action ns) (re_allow e')) @ '']'' @ y"
    using e(4) e'(4) by auto
  then have "re_name e = re_name e'" "join '', '' (map (rbac_action ns) (re_allow e)) @ '']'' @ x =
       join '', '' (map (rbac_action ns) (re_allow e')) @ '']'' @ y"
    using dquoted_append_eq_iff [OF e(1) e'(1)] by auto
  then show ?thesis using rbac_actions_eq [OF e(2) e'(2) e(3) e'(3)] by blast
qed

definition ex_role :: rbac_entry where
  "ex_role = \<lparr>re_name = ''admin'', re_description = None, re_inherits = [], re_allow = [''org-read'', ''org-write''],
     re_tenant_scoped = True\<rparr>"

theorem compile_rbac_injective_witness:
  "\<exists>s. compile_rbac_to_cedar ex_role tenant_config_default ''cp'' = Inr s \<and>
     compile_rbac_to_cedar (ex_role\<lparr>re_description := Some ''x''\<rparr>) tenant_config_default ''cp'' = Inr s \<and>
     re_allow ex_role = re_allow (ex_role\<lparr>re_description := Some ''x''\<rparr>)"
proof -
  let ?s = "case compile_rbac_to_cedar ex_role tenant_config_default ''cp'' of Inr s \<Rightarrow> s"
  have 1: "compile_rbac_to_cedar ex_role tenant_config_default ''cp'' = Inr ?s" by code_simp
  have 2: "compile_rbac_to_cedar (ex_role\<lparr>re_description := Some ''x''\<rparr>) tenant_config_default ''cp'' = Inr ?s"
    by code_simp
  show ?thesis using compile_rbac_injective [OF 1 2] 1 2 by blast
qed

end
