(* ===== verification/Snapshots.thy ===== *)
theory Snapshots
  imports Rbac Rust_Text Event_Log
begin

unbundle bit_operations_syntax

text \<open>
  Compiled policy snapshots (\<open>crates/authz-core/src/snapshot\<close>) and the control-plane model file
  compiled into one (\<open>cp_model.rs\<close>). The Cedar library is an argument, a record of the functions the
  code calls; so are the TOML parser and the \<open>Debug\<close> rendering of strings. The content hash
  \<open>SnapshotVersion\<close> is FNV-1a on 64-bit words, kept at its width.
\<close>

section \<open>The Cedar library\<close>

type_synonym entity_uid = "string \<times> string"

record cedar_entity =
  ce_uid :: entity_uid
  ce_attrs :: "(string \<times> string) list"
  ce_parents :: "entity_uid set"

record ('ps, 'en, 'rq) cedar =
  cd_type_name :: "string \<Rightarrow> (string, unit) result"
  cd_policy_set :: "string \<Rightarrow> (string, 'ps) result"
  cd_entity :: "cedar_entity \<Rightarrow> (string, unit) result"
  cd_entities :: "cedar_entity list \<Rightarrow> (string, 'en) result"
  cd_request :: "entity_uid \<Rightarrow> entity_uid \<Rightarrow> entity_uid \<Rightarrow> (string, 'rq) result"
  cd_is_authorized :: "'rq \<Rightarrow> 'ps \<Rightarrow> 'en \<Rightarrow> bool"
  cd_debug :: "string \<Rightarrow> string"

section \<open>Messages of the RBAC compiler\<close>

fun rbac_error_message :: "(string \<Rightarrow> string) \<Rightarrow> rbac_compile_error \<Rightarrow> string" where
  "rbac_error_message dbg (IdentEmpty label) = label @ '' must not be empty''"
| "rbac_error_message dbg (IdentInvalid label val) = label @ '' contains invalid characters: '' @ dbg val"
| "rbac_error_message dbg (EmptyAllowList name) =
     ''RBAC policy '' @ quoted name @ '' has an empty allow list; cannot compile to Cedar''"

fun group_validation_error_display :: "(string \<Rightarrow> string) \<Rightarrow> group_validation_error \<Rightarrow> string" where
  "group_validation_error_display dbg (BadNameRegex n) = ''name '' @ dbg n @ '' must match [a-z][a-z0-9_-]*''"
| "group_validation_error_display dbg (BadActionId a) =
     ''action id '' @ dbg a @ '' must match [a-z][a-z0-9_-]* (hyphenated form, e.g. cp-organization-read)''"
| "group_validation_error_display dbg (BadActionFormat a) =
     ''action '' @ dbg a @ '' must match <namespace>:<entity>:<verb>''"
| "group_validation_error_display dbg EmptyAllow = ''allow list must not be empty''"
| "group_validation_error_display dbg (InheritCycle m) = ''inherit cycle detected: '' @ m"
| "group_validation_error_display dbg (UnknownInherit m) = ''inherits references unknown group '' @ dbg m"
| "group_validation_error_display dbg DescriptionTooLong = ''description longer than 1024 chars''"
| "group_validation_error_display dbg (NameMismatch p b) =
     ''path name '' @ dbg p @ '' does not match body name '' @ dbg b"

section \<open>The snapshot version\<close>

definition FNV_OFFSET :: u64 where "FNV_OFFSET = 0xcbf29ce484222325"
definition FNV_PRIME :: u64 where "FNV_PRIME = 0x100000001b3"

definition fnv_step :: "u64 \<Rightarrow> char \<Rightarrow> u64" where
  "fnv_step hash b = (hash XOR of_nat (byte b)) * FNV_PRIME"

definition hex_digit :: "nat \<Rightarrow> char" where
  "hex_digit n = ''0123456789abcdef'' ! n"

text \<open>\<open>{hash:016x}\<close>: sixteen lowercase hex digits, the most significant first.\<close>

definition hex16 :: "u64 \<Rightarrow> string" where
  "hex16 w = map (\<lambda>i. hex_digit (unat w div 16 ^ (15 - i) mod 16)) [0..<16]"

datatype snapshot_version = SnapshotVersion (sv_str: string)

definition snapshot_version_of :: "string \<Rightarrow> snapshot_version" where
  "snapshot_version_of policy_text = SnapshotVersion (hex16 (foldl fnv_step FNV_OFFSET policy_text))"

section \<open>Snapshots\<close>

record 'ps snapshot =
  sn_policies :: 'ps
  sn_policy_text :: string
  sn_version :: snapshot_version

definition from_policy_text :: "('ps, 'en, 'rq) cedar \<Rightarrow> string \<Rightarrow> (authz_error, 'ps snapshot) result" where
  "from_policy_text cd text =
     and_then (map_err InvalidPolicy (cd_policy_set cd text)) (\<lambda>policies.
     Inr \<lparr>sn_policies = policies, sn_policy_text = text, sn_version = snapshot_version_of text\<rparr>)"

definition flattened :: "rbac_entry \<Rightarrow> string list \<Rightarrow> rbac_entry" where
  "flattened entry allow = entry\<lparr>re_inherits := [], re_allow := allow\<rparr>"

fun rbac_statements ::
    "(string \<Rightarrow> string) \<Rightarrow> rbac_entry list \<Rightarrow> tenant_config \<Rightarrow> string \<Rightarrow> rbac_entry list \<Rightarrow> (authz_error, string list) result" where
  "rbac_statements dbg entries tenant ns [] = Inr []"
| "rbac_statements dbg entries tenant ns (e # es) =
     and_then (map_err InvalidPolicy (resolve_inherits entries (re_name e))) (\<lambda>allow.
     and_then (map_err (\<lambda>m. InvalidPolicy (rbac_error_message dbg m))
         (compile_rbac_to_cedar (flattened e allow) tenant ns)) (\<lambda>statement.
     and_then (rbac_statements dbg entries tenant ns es) (\<lambda>rest. Inr (statement # rest))))"

definition from_rbac ::
    "('ps, 'en, 'rq) cedar \<Rightarrow> rbac_entry list \<Rightarrow> tenant_config \<Rightarrow> string \<Rightarrow> (authz_error, 'ps snapshot) result" where
  "from_rbac cd entries tenant ns =
     and_then (rbac_statements (cd_debug cd) entries tenant ns entries) (\<lambda>statements.
     from_policy_text cd (join (nl @ nl) statements))"

section \<open>The control-plane model file\<close>

datatype policy_section = RbacSection rbac_entry | CedarSection string

record cp_model_toml =
  cm_namespace :: "string option"
  cm_tenant :: "tenant_config option"
  cm_policies :: "policy_section list"

fun rbac_entries_of :: "policy_section list \<Rightarrow> rbac_entry list" where
  "rbac_entries_of [] = []"
| "rbac_entries_of (RbacSection e # ps) = e # rbac_entries_of ps"
| "rbac_entries_of (CedarSection b # ps) = rbac_entries_of ps"

definition check_cp_entry :: "(string \<Rightarrow> string) \<Rightarrow> rbac_entry \<Rightarrow> (string, unit) result" where
  "check_cp_entry dbg entry =
     map_err (\<lambda>e. ''policy '' @ dbg (re_name entry) @ '': '' @ group_validation_error_display dbg e)
       (and_then (validate_group_name (re_name entry)) (\<lambda>_. for_each validate_action_id (re_allow entry)))"

fun cp_statements ::
    "(string \<Rightarrow> string) \<Rightarrow> rbac_entry list \<Rightarrow> tenant_config \<Rightarrow> string \<Rightarrow> policy_section list \<Rightarrow> (string, string list) result" where
  "cp_statements dbg entries tenant ns [] = Inr []"
| "cp_statements dbg entries tenant ns (RbacSection e # ps) =
     and_then (resolve_inherits entries (re_name e)) (\<lambda>allow.
     and_then (map_err (rbac_error_message dbg) (compile_rbac_to_cedar (flattened e allow) tenant ns)) (\<lambda>statement.
     and_then (cp_statements dbg entries tenant ns ps) (\<lambda>rest. Inr (statement # rest))))"
| "cp_statements dbg entries tenant ns (CedarSection body # ps) =
     and_then (cp_statements dbg entries tenant ns ps) (\<lambda>rest. Inr (trim body # rest))"

definition compile_cp_model ::
    "('ps, 'en, 'rq) cedar \<Rightarrow> (string \<Rightarrow> (string, cp_model_toml) result) \<Rightarrow> string \<Rightarrow> (string, string) result" where
  "compile_cp_model cd parse toml_text =
     and_then (map_err (\<lambda>e. ''forgeguard.toml parse error: '' @ e) (parse toml_text)) (\<lambda>model.
     and_then (ok_or (cm_namespace model) ''missing [schema] namespace'') (\<lambda>ns.
       let tenant = (case cm_tenant model of Some t \<Rightarrow> t | None \<Rightarrow> tenant_config_default);
           entries = rbac_entries_of (cm_policies model) in
       and_then (for_each (check_cp_entry (cd_debug cd)) entries) (\<lambda>_.
       and_then (cp_statements (cd_debug cd) entries tenant ns (cm_policies model)) (\<lambda>statements.
       let text = join (nl @ nl) statements in
       and_then (map_err (\<lambda>m. ''invalid policy: '' @ m) (cd_policy_set cd text)) (\<lambda>_. Inr text)))))"

section \<open>The version detects a changed byte\<close>

lemma FNV_PRIME_inverse: "FNV_PRIME * 0xce965057aff6957b = 1"
  by (simp add: FNV_PRIME_def)

lemma mult_FNV_PRIME_inj: "a * FNV_PRIME = b * FNV_PRIME \<longleftrightarrow> a = b"
proof
  assume "a * FNV_PRIME = b * FNV_PRIME"
  then have "a * (FNV_PRIME * 0xce965057aff6957b) = b * (FNV_PRIME * 0xce965057aff6957b)"
    by (simp only: mult.assoc [symmetric])
  then show "a = b" by (simp add: FNV_PRIME_inverse)
qed simp

lemma xor_right_cancel: "(a :: u64) XOR c = b XOR c \<longleftrightarrow> a = b"
proof
  assume "a XOR c = b XOR c"
  then have "(a XOR c) XOR c = (b XOR c) XOR c" by simp
  then show "a = b" by (simp only: xor.assoc xor_self_eq xor.right_neutral)
qed simp

lemma fnv_step_inj: "fnv_step h b = fnv_step h' b \<longleftrightarrow> h = h'"
  by (simp add: fnv_step_def mult_FNV_PRIME_inj xor_right_cancel)

lemma fnv_fold_inj: "foldl fnv_step h bs = foldl fnv_step h' bs \<longleftrightarrow> h = h'"
  by (induction bs arbitrary: h h') (simp_all add: fnv_step_inj)

lemma byte_less: "byte c < 256"
  by (simp add: byte_def)

lemma fnv_step_byte: "fnv_step h b = fnv_step h c \<longleftrightarrow> b = c"
proof
  assume "fnv_step h b = fnv_step h c"
  then have "(of_nat (byte b) :: u64) = of_nat (byte c)"
    by (simp only: fnv_step_def mult_FNV_PRIME_inj xor.commute [of h] xor_right_cancel)
  then have "byte b = byte c"
    using byte_less [of b] byte_less [of c] by (simp add: word_of_nat_eq_iff take_bit_nat_eq_self)
  then show "b = c" by (simp add: byte_def)
qed simp

lemma hex_digit_inj: "a < 16 \<Longrightarrow> b < 16 \<Longrightarrow> hex_digit a = hex_digit b \<longleftrightarrow> a = b"
  by (simp add: hex_digit_def nth_eq_iff_index_eq)

lemma nat_digits_unique:
  fixes a b :: nat
  assumes "\<forall>i < n. a div 16 ^ i mod 16 = b div 16 ^ i mod 16" "a < 16 ^ n" "b < 16 ^ n"
  shows "a = b"
  using assms
proof (induction n arbitrary: a b)
  case (Suc n)
  have "\<forall>i < n. a div 16 div 16 ^ i mod 16 = b div 16 div 16 ^ i mod 16"
  proof (intro allI impI)
    fix i assume "i < n"
    then have "a div 16 ^ Suc i mod 16 = b div 16 ^ Suc i mod 16" using Suc.prems(1) by blast
    then show "a div 16 div 16 ^ i mod 16 = b div 16 div 16 ^ i mod 16" by (simp add: div_mult2_eq)
  qed
  moreover have "a div 16 < 16 ^ n" "b div 16 < 16 ^ n" using Suc.prems(2,3) by (auto simp: less_mult_imp_div_less mult.commute)
  ultimately have "a div 16 = b div 16" by (rule Suc.IH)
  moreover have "a mod 16 = b mod 16" using Suc.prems(1) [rule_format, of 0] by simp
  ultimately show ?case by (metis div_mult_mod_eq)
qed simp

lemma hex16_inj: "hex16 a = hex16 b \<longleftrightarrow> a = b"
proof
  assume eq: "hex16 a = hex16 b"
  have "unat a div 16 ^ i mod 16 = unat b div 16 ^ i mod 16" if i: "i < 16" for i
  proof -
    have "hex16 a ! (15 - i) = hex16 b ! (15 - i)" using eq by simp
    moreover have "15 - i < 16" "15 - (15 - i) = i" using i by simp_all
    ultimately show ?thesis by (simp add: hex16_def hex_digit_inj del: upt_Suc)
  qed
  moreover have "unat a < 16 ^ 16" "unat b < 16 ^ 16" using unsigned_less [of a] unsigned_less [of b] by simp_all
  ultimately have "unat a = unat b" by (intro nat_digits_unique [of 16]) simp_all
  then show "a = b" by (rule unsigned_word_eqI)
qed simp


lemma snapshot_version_detects_byte_parts:
  "length (sv_str (snapshot_version_of text)) = 16"
  "snapshot_version_of (xs @ b # ys) = snapshot_version_of (xs @ c # ys) \<longleftrightarrow> b = c"
  by (simp add: snapshot_version_of_def hex16_def)
    (simp add: snapshot_version_of_def hex16_inj fnv_fold_inj fnv_step_byte)

text \<open>
  A snapshot version is sixteen hex digits, and it changes whenever exactly one byte of the
  policy text changes: every step of the hash is a bijection of the 64-bit state, with the
  multiplication wrapping.
\<close>

theorem snapshot_version_detects_byte:
  "length (sv_str (snapshot_version_of text)) = 16 \<and>
   (snapshot_version_of (xs @ b # ys) = snapshot_version_of (xs @ c # ys) \<longleftrightarrow> b = c)"
  using snapshot_version_detects_byte_parts by blast

section \<open>The two compilers agree\<close>

lemma rbac_entries_of_map [simp]: "rbac_entries_of (map RbacSection es) = es"
  by (induction es) simp_all

lemma cp_statements_rbac:
  "map_err InvalidPolicy (cp_statements dbg entries tenant ns (map RbacSection es)) =
     rbac_statements dbg entries tenant ns es"
  by (induction es) (auto simp: and_then_def map_err_def split: sum.splits)

lemma check_cp_entry_Inr_iff:
  "check_cp_entry dbg e = Inr () \<longleftrightarrow> GROUP_NAME_RE (re_name e) \<and> (\<forall>a \<in> set (re_allow e). GROUP_NAME_RE a)"
  unfolding check_cp_entry_def map_err_simps
  by (auto simp: validate_group_name_def validate_action_id_def)


text \<open>
  A control-plane model file that has only role sections compiles exactly when every role name
  and every action id is well formed and the snapshot compiler accepts the same roles, and then both
  produce the same policy text.
\<close>

theorem compile_cp_model_agrees:
  assumes "parse txt = Inr model" "cm_namespace model = Some ns" "cm_policies model = map RbacSection entries"
  shows "compile_cp_model cd parse txt = Inr text \<longleftrightarrow>
    (\<forall>e \<in> set entries. GROUP_NAME_RE (re_name e) \<and> (\<forall>a \<in> set (re_allow e). GROUP_NAME_RE a)) \<and>
    (\<exists>sn. from_rbac cd entries (case cm_tenant model of Some t \<Rightarrow> t | None \<Rightarrow> tenant_config_default) ns = Inr sn \<and>
      sn_policy_text sn = text)"
proof -
  define tenant where "tenant = (case cm_tenant model of Some t \<Rightarrow> t | None \<Rightarrow> tenant_config_default)"
  define sts where "sts = cp_statements (cd_debug cd) entries tenant ns (map RbacSection entries)"
  have from_iff: "(\<exists>sn. from_rbac cd entries tenant ns = Inr sn \<and> sn_policy_text sn = text) \<longleftrightarrow>
      (\<exists>ss ps. sts = Inr ss \<and> text = join (nl @ nl) ss \<and> cd_policy_set cd text = Inr ps)"
    by (auto simp: from_rbac_def cp_statements_rbac [symmetric] sts_def [symmetric] from_policy_text_def)
  have "compile_cp_model cd parse txt = Inr text \<longleftrightarrow>
      (\<forall>e \<in> set entries. check_cp_entry (cd_debug cd) e = Inr ()) \<and>
      (\<exists>ss ps. sts = Inr ss \<and> text = join (nl @ nl) ss \<and> cd_policy_set cd text = Inr ps)"
    by (auto simp: compile_cp_model_def assms Let_def tenant_def [symmetric] sts_def [symmetric])
  then show ?thesis unfolding tenant_def [symmetric] from_iff check_cp_entry_Inr_iff .
qed

definition accepting_cedar :: "(string, cedar_entity list, entity_uid) cedar" where
  "accepting_cedar =
     \<lparr>cd_type_name = \<lambda>_. Inr (), cd_policy_set = Inr, cd_entity = \<lambda>_. Inr (), cd_entities = Inr,
      cd_request = \<lambda>p a r. Inr p, cd_is_authorized = \<lambda>_ _ _. True, cd_debug = dquoted\<rparr>"

definition ex_cp_entry :: rbac_entry where
  "ex_cp_entry = \<lparr>re_name = ''admin'', re_description = None, re_inherits = [],
     re_allow = [''cp-organization-read''], re_tenant_scoped = True\<rparr>"

definition ex_cp_model :: cp_model_toml where
  "ex_cp_model = \<lparr>cm_namespace = Some ''cp'', cm_tenant = None, cm_policies = [RbacSection ex_cp_entry]\<rparr>"

theorem compile_cp_model_agrees_witness:
  "\<exists>text. compile_cp_model accepting_cedar (\<lambda>_. Inr ex_cp_model) [] = Inr text \<and>
     (\<exists>sn. from_rbac accepting_cedar [ex_cp_entry] tenant_config_default ''cp'' = Inr sn \<and> sn_policy_text sn = text)"
proof -
  have m: "cm_namespace ex_cp_model = Some ''cp''" "cm_policies ex_cp_model = map RbacSection [ex_cp_entry]"
    "cm_tenant ex_cp_model = None"
    by (simp_all add: ex_cp_model_def)
  have "is_ok (compile_cp_model accepting_cedar (\<lambda>_. Inr ex_cp_model) [])" by code_simp
  then obtain t where t: "compile_cp_model accepting_cedar (\<lambda>_. Inr ex_cp_model) [] = Inr t"
    by (auto simp: is_ok_iff)
  then show ?thesis
    using compile_cp_model_agrees [of "\<lambda>_. Inr ex_cp_model" "[]" ex_cp_model, OF refl m(1,2),
      of accepting_cedar t] m(3) by auto
qed

end
