(* ===== verification/Cedar_Engine.thy ===== *)
theory Cedar_Engine
  imports Authz_Store Snapshots Policy_Query
begin

text \<open>
  The embedded Cedar engine of \<open>crates/authz-core/src/engine_cedar\<close>: decision queries and records
  (\<open>record.rs\<close>), scope paths (\<open>scope_path.rs\<close>), the translation of an entity slice into Cedar entities
  and grant policies (\<open>translate.rs\<close>), the enrichment of records (\<open>enrich.rs\<close>), the decision procedure
  (\<open>engine.rs\<close>) and its adapter to flat policy queries (\<open>adapter.rs\<close>). A store is read through the
  record \<open>store_view\<close> of its two read operations; the Cedar library is the record of
  \<open>Snapshots\<close>.
\<close>

section \<open>Scope paths\<close>

datatype scope_path = ScopePath (scope_units: "fgrn list")

definition check_scope_unit :: "segment \<Rightarrow> fgrn \<Rightarrow> (authz_error, unit) result" where
  "check_scope_unit org u =
     (if fgrn_kind u \<noteq> KOrgUnit then Inl (InvalidScopePath (fgrn_display u @ '' is not an org unit''))
      else if fgrn_org u \<noteq> org then
        Inl (InvalidScopePath (fgrn_display u @ '' is not in organization '' @ seg_str org))
      else Inr ())"

definition scope_path_try_new :: "fgrn list \<Rightarrow> (authz_error, scope_path) result" where
  "scope_path_try_new us =
     (case us of
        [] \<Rightarrow> Inl (InvalidScopePath ''empty path'')
      | first # _ \<Rightarrow> and_then (for_each (check_scope_unit (fgrn_org first)) us) (\<lambda>_. Inr (ScopePath us)))"

definition scope_leaf :: "scope_path \<Rightarrow> fgrn option" where
  "scope_leaf p = (if scope_units p = [] then None else Some (last (scope_units p)))"

definition scope_path_display :: "scope_path \<Rightarrow> string" where
  "scope_path_display p = join ''/'' (map (\<lambda>u. nid_str (fgrn_id u)) (scope_units p))"

section \<open>Queries and records\<close>

record decision_query =
  dq_principal :: fgrn
  dq_action :: verb
  dq_resource :: fgrn
  dq_revision :: "nat option"
  dq_chain :: "delegation_chain option"

definition decision_query_new :: "fgrn \<Rightarrow> verb \<Rightarrow> fgrn \<Rightarrow> decision_query" where
  "decision_query_new p a r =
     \<lparr>dq_principal = p, dq_action = a, dq_resource = r, dq_revision = None, dq_chain = None\<rparr>"

definition decision_at_revision :: "decision_query \<Rightarrow> nat \<Rightarrow> decision_query" where
  "decision_at_revision q r = q\<lparr>dq_revision := Some r\<rparr>"

definition with_chain :: "decision_query \<Rightarrow> delegation_chain \<Rightarrow> (authz_error, decision_query) result" where
  "with_chain q c =
     (if dc_actor c \<noteq> dq_principal q then
        Inl (ChainActorMismatch (fgrn_display (dq_principal q)) (fgrn_display (dc_actor c)))
      else Inr (q\<lparr>dq_chain := Some c\<rparr>))"

datatype decision = DAllow | DDeny

record decision_record =
  dr_decision :: decision
  dr_snapshot_version :: snapshot_version
  dr_revision :: nat
  dr_scope_path :: scope_path
  dr_entitlements :: "verb list"
  dr_granted_ids :: "native_id list"

definition dr_is_allow :: "decision_record \<Rightarrow> bool" where
  "dr_is_allow r = (dr_decision r = DAllow)"

section \<open>Translation to Cedar\<close>

fun cedar_principal_type :: "principal_kind \<Rightarrow> string" where
  "cedar_principal_type Human = ''User''"
| "cedar_principal_type Service = ''Machine''"
| "cedar_principal_type Agent = ''Machine''"

definition cedar_uid :: "('ps, 'en, 'rq) cedar \<Rightarrow> string \<Rightarrow> fgrn \<Rightarrow> (authz_error, entity_uid) result" where
  "cedar_uid cd t f =
     and_then (map_err (\<lambda>e. EvaluationFailed (''bad entity type '' @ t @ '': '' @ e)) (cd_type_name cd t)) (\<lambda>_.
     Inr (t, fgrn_display f))"

definition entity_no_attrs :: "entity_uid \<Rightarrow> entity_uid set \<Rightarrow> cedar_entity" where
  "entity_no_attrs u ps = \<lparr>ce_uid = u, ce_attrs = [], ce_parents = ps\<rparr>"

fun promotion_anchor_type :: "fgrn_kind \<Rightarrow> string" where
  "promotion_anchor_type KOrgUnit = ''OrgUnit''"
| "promotion_anchor_type KPrincipal = ''User''"
| "promotion_anchor_type _ = ''Resource''"

definition grant_principal_clause :: "fgrn \<Rightarrow> entity_slice \<Rightarrow> string" where
  "grant_principal_clause to sl =
     (case fgrn_kind to of
        KPrincipalSet \<Rightarrow> ''principal in PSet::'' @ dquoted (fgrn_display to)
      | KOrgUnit \<Rightarrow> ''principal in OrgUnit::'' @ dquoted (fgrn_display to)
      | _ \<Rightarrow>
          (let entity_type = (if pr_fgrn (sl_principal sl) = to then cedar_principal_type (pr_kind (sl_principal sl))
                              else ''User'') in
           ''principal == '' @ entity_type @ ''::'' @ dquoted (fgrn_display to)))"

definition check_ident :: "('ps, 'en, 'rq) cedar \<Rightarrow> string \<Rightarrow> string \<Rightarrow> (authz_error, unit) result" where
  "check_ident cd val label =
     map_err (\<lambda>e. InvalidPolicy (rbac_error_message (cd_debug cd) e)) (validate_cedar_ident val label)"

definition action_clause :: "('ps, 'en, 'rq) cedar \<Rightarrow> verb \<Rightarrow> (authz_error, string) result" where
  "action_clause cd v =
     and_then (check_ident cd (verb_str v) ''grant action'') (\<lambda>_. Inr (''Action::'' @ dquoted (verb_str v)))"

definition org_unit_entity :: "('ps, 'en, 'rq) cedar \<Rightarrow> entity_slice \<Rightarrow> org_unit \<Rightarrow> (authz_error, cedar_entity) result" where
  "org_unit_entity cd sl u =
     and_then
       (case ou_parent u of
          Some p \<Rightarrow>
            if list_ex (\<lambda>v. ou_fgrn v = p) (sl_org_units sl)
            then and_then (cedar_uid cd ''OrgUnit'' p) (\<lambda>x. Inr {x})
            else Inr {}
        | None \<Rightarrow> Inr {}) (\<lambda>parents.
     and_then (cedar_uid cd ''OrgUnit'' (ou_fgrn u)) (\<lambda>x. Inr (entity_no_attrs x parents)))"

definition pset_entity :: "('ps, 'en, 'rq) cedar \<Rightarrow> principal_set \<Rightarrow> (authz_error, cedar_entity) result" where
  "pset_entity cd s = and_then (cedar_uid cd ''PSet'' (ps_fgrn s)) (\<lambda>x. Inr (entity_no_attrs x {}))"

definition principal_entity :: "('ps, 'en, 'rq) cedar \<Rightarrow> entity_slice \<Rightarrow> (authz_error, cedar_entity) result" where
  "principal_entity cd sl =
     (let p = sl_principal sl in
      and_then (collect_results (map (\<lambda>s. cedar_uid cd ''PSet'' (ps_fgrn s))
          (filter (\<lambda>s. ps_contains s (pr_fgrn p)) (sl_principal_sets sl)))) (\<lambda>sets.
      and_then (if fgrn_kind (pr_anchor p) = KOrgUnit
          then and_then (cedar_uid cd ''OrgUnit'' (pr_anchor p)) (\<lambda>x. Inr {x}) else Inr {}) (\<lambda>anchor.
      and_then (cedar_uid cd (cedar_principal_type (pr_kind p)) (pr_fgrn p)) (\<lambda>x.
      Inr (entity_no_attrs x (set sets \<union> anchor))))))"

definition resource_entity ::
    "('ps, 'en, 'rq) cedar \<Rightarrow> entity_slice \<Rightarrow> fgrn \<Rightarrow> (authz_error, cedar_entity) result" where
  "resource_entity cd sl res =
     and_then
       (case sl_promotion sl of
          Some q \<Rightarrow> and_then (cedar_uid cd (promotion_anchor_type (fgrn_kind (pm_anchor q))) (pm_anchor q)) (\<lambda>x. Inr {x})
        | None \<Rightarrow> Inr {}) (\<lambda>parents.
     and_then (cedar_uid cd ''Resource'' res) (\<lambda>x. Inr (entity_no_attrs x parents)))"

definition slice_entities :: "('ps, 'en, 'rq) cedar \<Rightarrow> entity_slice \<Rightarrow> fgrn \<Rightarrow> (authz_error, cedar_entity list) result" where
  "slice_entities cd sl res =
     and_then (collect_results (map (org_unit_entity cd sl) (sl_org_units sl))) (\<lambda>units.
     and_then (collect_results (map (pset_entity cd) (sl_principal_sets sl))) (\<lambda>sets.
     and_then (principal_entity cd sl) (\<lambda>p.
     and_then (resource_entity cd sl res) (\<lambda>r.
     Inr (units @ sets @ [p, r])))))"

definition slice_to_entities :: "('ps, 'en, 'rq) cedar \<Rightarrow> entity_slice \<Rightarrow> fgrn \<Rightarrow> (authz_error, 'en) result" where
  "slice_to_entities cd sl res =
     and_then (slice_entities cd sl res) (\<lambda>es.
     map_err (\<lambda>e. EvaluationFailed (''entity slice invalid: '' @ e)) (cd_entities cd es))"

definition grant_policy :: "('ps, 'en, 'rq) cedar \<Rightarrow> entity_slice \<Rightarrow> grant \<Rightarrow> (authz_error, string) result" where
  "grant_policy cd sl g =
     and_then (check_ident cd (fgrn_display (gr_to g)) ''grant target'') (\<lambda>_.
     and_then (check_ident cd (fgrn_display (gr_resource g)) ''grant resource'') (\<lambda>_.
     and_then (collect_results (map (action_clause cd) (gr_actions g))) (\<lambda>actions.
     Inr (''permit('' @ nl @ ''  '' @ grant_principal_clause (gr_to g) sl @ '','' @ nl @
          ''  action in ['' @ join '', '' actions @ ''],'' @ nl @
          ''  resource == Resource::'' @ dquoted (fgrn_display (gr_resource g)) @ nl @ '');''))))"

definition grant_policies :: "('ps, 'en, 'rq) cedar \<Rightarrow> entity_slice \<Rightarrow> (authz_error, string) result" where
  "grant_policies cd sl =
     and_then (collect_results (map (grant_policy cd sl) (sl_grants sl))) (\<lambda>ss. Inr (join (nl @ nl) ss))"

section \<open>Enrichment\<close>

text \<open>The walk of \<open>scope_path_of\<close> over the parent links of the slice, with its cycle guard.\<close>

function scope_walk :: "parent_map \<Rightarrow> fgrn \<Rightarrow> fgrn set \<Rightarrow> fgrn list \<Rightarrow> fgrn list" where
  "scope_walk parents cursor seen chain =
     (case map_of parents cursor of
        Some (Some p) \<Rightarrow> if p \<in> seen then chain else scope_walk parents p (insert p seen) (chain @ [p])
      | _ \<Rightarrow> chain)"
  by pat_completeness auto

termination scope_walk
proof (relation "measure (\<lambda>(parents, cursor, seen, chain). card ({p. (Some p) \<in> snd ` set parents} - seen))", goal_cases)
  case (2 parents cursor seen chain x2 p)
  have fin: "finite {p. Some p \<in> snd ` set parents}"
  proof (rule finite_subset)
    show "{p. Some p \<in> snd ` set parents} \<subseteq> the ` snd ` set parents" by force
  qed simp
  have "Some p \<in> snd ` set parents" using 2(1,2) by (force dest: map_of_SomeD)
  then have "card ({p. Some p \<in> snd ` set parents} - insert p seen) < card ({p. Some p \<in> snd ` set parents} - seen)"
    using fin 2(3) by (intro psubset_card_mono) auto
  then show ?case by simp
qed simp

declare scope_walk.simps [simp del]

definition slice_parents :: "entity_slice \<Rightarrow> parent_map" where
  "slice_parents sl = foldl (\<lambda>m u. hm_insert (ou_fgrn u) (ou_parent u) m) [] (sl_org_units sl)"

text \<open>\<open>None\<close>: the \<open>unreachable!\<close> at the end of \<open>scope_path_of\<close> is reached.\<close>

definition scope_path_of :: "entity_slice \<Rightarrow> scope_path option" where
  "scope_path_of sl =
     (let a = pr_anchor (sl_principal sl) in
      to_ok (scope_path_try_new (rev (scope_walk (slice_parents sl) a {a} [a]))))"

definition entitlements_of :: "entity_slice \<Rightarrow> verb list" where
  "entitlements_of sl =
     (let grantees = {pr_fgrn (sl_principal sl)} \<union> ps_fgrn ` set (sl_principal_sets sl) \<union> ou_fgrn ` set (sl_org_units sl) in
      bt_of_list (concat (map gr_actions (filter (\<lambda>g. gr_to g \<in> grantees) (sl_grants sl)))))"

definition granted_ids_of :: "entity_slice \<Rightarrow> native_id list" where
  "granted_ids_of sl =
     bt_of_list (map snd (List.map_filter (\<lambda>g. resource_parts (gr_resource g))
       (filter (\<lambda>g. gr_to g = pr_fgrn (sl_principal sl)) (sl_grants sl))))"

section \<open>The decision procedure\<close>

record store_view =
  sv_slice :: "slice_query \<Rightarrow> (authz_error, entity_slice) outcome"
  sv_latest_revision :: "(authz_error, nat) result"

definition build_request ::
    "('ps, 'en, 'rq) cedar \<Rightarrow> entity_slice \<Rightarrow> verb \<Rightarrow> fgrn \<Rightarrow> (authz_error, 'rq) result" where
  "build_request cd sl action res =
     and_then (cedar_uid cd (cedar_principal_type (pr_kind (sl_principal sl))) (pr_fgrn (sl_principal sl))) (\<lambda>p.
     and_then (map_err (\<lambda>e. EvaluationFailed (''bad entity type Action: '' @ e)) (cd_type_name cd ''Action'')) (\<lambda>_.
     and_then (cedar_uid cd ''Resource'' res) (\<lambda>r.
     map_err (\<lambda>e. EvaluationFailed (''invalid request: '' @ e)) (cd_request cd p (''Action'', verb_str action) r))))"

definition evaluate_slice ::
    "('ps, 'en, 'rq) cedar \<Rightarrow> 'ps snapshot \<Rightarrow> entity_slice \<Rightarrow> verb \<Rightarrow> fgrn \<Rightarrow> (authz_error, decision) result" where
  "evaluate_slice cd snap sl action res =
     and_then (slice_to_entities cd sl res) (\<lambda>entities.
     and_then (grant_policies cd sl) (\<lambda>grants.
     and_then (map_err (\<lambda>e. InvalidPolicy (''snapshot+grants: '' @ e))
         (cd_policy_set cd (sn_policy_text snap @ nl @ nl @ grants))) (\<lambda>policies.
     and_then (build_request cd sl action res) (\<lambda>request.
     Inr (if cd_is_authorized cd request policies entities then DAllow else DDeny)))))"

definition evaluate_link ::
    "('ps, 'en, 'rq) cedar \<Rightarrow> 'ps snapshot \<Rightarrow> store_view \<Rightarrow> verb \<Rightarrow> fgrn \<Rightarrow> nat \<Rightarrow> fgrn
      \<Rightarrow> (authz_error, decision \<times> entity_slice) outcome" where
  "evaluate_link cd snap st action res revision prin =
     outcome_then (sv_slice st (slice_at_revision (slice_query_new prin res) revision)) (\<lambda>sl.
     Some (and_then (evaluate_slice cd snap sl action res) (\<lambda>d. Inr (d, sl))))"

fun evaluate_rest ::
    "('ps, 'en, 'rq) cedar \<Rightarrow> 'ps snapshot \<Rightarrow> store_view \<Rightarrow> verb \<Rightarrow> fgrn \<Rightarrow> nat \<Rightarrow> fgrn list \<Rightarrow> decision
      \<Rightarrow> (authz_error, decision) outcome" where
  "evaluate_rest cd snap st action res revision [] d = Some (Inr d)"
| "evaluate_rest cd snap st action res revision (l # ls) d =
     (if d = DDeny then Some (Inr d)
      else outcome_then (evaluate_link cd snap st action res revision l) (\<lambda>(d', _).
        evaluate_rest cd snap st action res revision ls d'))"

definition query_links :: "decision_query \<Rightarrow> fgrn list" where
  "query_links q = (case dq_chain q of Some c \<Rightarrow> dc_links c | None \<Rightarrow> [dq_principal q])"

definition decide ::
    "('ps, 'en, 'rq) cedar \<Rightarrow> 'ps snapshot \<Rightarrow> store_view \<Rightarrow> decision_query \<Rightarrow> (authz_error, decision_record) outcome" where
  "decide cd snap st q =
     outcome_then (case dq_revision q of Some r \<Rightarrow> Some (Inr r) | None \<Rightarrow> Some (sv_latest_revision st)) (\<lambda>revision.
     case query_links q of
       [] \<Rightarrow> Some (Inl (EvaluationFailed ''delegation chain produced no links''))
     | first # rest \<Rightarrow>
         outcome_then (evaluate_link cd snap st (dq_action q) (dq_resource q) revision first) (\<lambda>(d, sl).
         outcome_then (evaluate_rest cd snap st (dq_action q) (dq_resource q) revision rest d) (\<lambda>d'.
         map_option (\<lambda>path. Inr
           \<lparr>dr_decision = d', dr_snapshot_version = sn_version snap, dr_revision = revision, dr_scope_path = path,
            dr_entitlements = entitlements_of sl, dr_granted_ids = granted_ids_of sl\<rparr>) (scope_path_of sl))))"

section \<open>The adapter to flat queries\<close>

definition map_query :: "segment \<Rightarrow> 'n policy_query \<Rightarrow> (authz_error, decision_query) outcome" where
  "map_query org q =
     outcome_then (Some (map_err CoreError (native_id_try_new (seg_str (prf_user_id (pq_principal q)))))) (\<lambda>prin_id.
     outcome_then (Some (map_err CoreError (verb_try_new
         (ns_str (qa_namespace (pq_action q)) @ ''--'' @ ent_str (qa_entity (pq_action q)) @ ''--'' @
          act_str (qa_action (pq_action q)))))) (\<lambda>action.
     outcome_then (Some (map_err CoreError
         (case pq_resource q of
            Some r \<Rightarrow>
              and_then (segment_try_new (ent_str (rr_entity r))) (\<lambda>t.
              and_then (native_id_try_new (rid_str (rr_id r))) (\<lambda>n. Inr (t, n)))
          | None \<Rightarrow>
              and_then (segment_try_new ''app'') (\<lambda>t.
              and_then (native_id_try_new ''app'') (\<lambda>n. Inr (t, n)))))) (\<lambda>(t, n).
     map_option (\<lambda>res. Inr (decision_query_new (fgrn_principal org prin_id) action res)) (fgrn_resource org t n))))"


fun authz_error_display :: "authz_error \<Rightarrow> string" where
  "authz_error_display (EvaluationFailed m) = ''policy evaluation failed: '' @ m"
| "authz_error_display (UnknownRevision requested latest) =
     ''unknown revision '' @ show_nat requested @ '' (latest is '' @ show_nat latest @ '')''"
| "authz_error_display (UnknownEntity m) = ''unknown entity: '' @ m"
| "authz_error_display (CoreError e) = core_error_display e"
| "authz_error_display (InvalidPolicy m) = ''invalid policy: '' @ m"
| "authz_error_display (ChainActorMismatch prin a) =
     ''chain actor mismatch: query principal '' @ prin @ '', chain actor '' @ a"
| "authz_error_display (UnknownEventKind k) = ''unknown event kind: '' @ k"
| "authz_error_display (InvalidEventId m) = ''invalid event id: '' @ m"
| "authz_error_display (UnfoldableEvent seq reason) = ''unfoldable event at seq '' @ show_nat seq @ '': '' @ reason"
| "authz_error_display (InvalidScopePath m) = ''invalid scope path: '' @ m"

definition embedded_evaluate ::
    "('ps, 'en, 'rq) cedar \<Rightarrow> 'ps snapshot \<Rightarrow> store_view \<Rightarrow> segment \<Rightarrow> 'n policy_query
      \<Rightarrow> (authz_error, decision_record evaluated_decision) outcome" where
  "embedded_evaluate cd snap st org q =
     (case map_query org q of
        None \<Rightarrow> None
      | Some (Inl e) \<Rightarrow> Some (Inr (decision_bare (PDeny (EvaluationError (authz_error_display e)))))
      | Some (Inr dq) \<Rightarrow>
          outcome_then (decide cd snap st dq) (\<lambda>r.
          Some (Inr (decision_with_record (if dr_is_allow r then PAllow else PDeny NoMatchingPolicy) r))))"

section \<open>A chain allows what all its links allow\<close>

lemma evaluate_rest_allow:
  "evaluate_rest cd snap st action res rv ls d = Some (Inr d') \<Longrightarrow>
     d' = DAllow \<longleftrightarrow> d = DAllow \<and> (\<forall>l \<in> set ls. \<exists>sl. evaluate_link cd snap st action res rv l = Some (Inr (DAllow, sl)))"
proof (induction ls arbitrary: d)
  case (Cons l ls)
  show ?case
  proof (cases d)
    case DAllow
    then obtain dl sl where l: "evaluate_link cd snap st action res rv l = Some (Inr (dl, sl))"
        "evaluate_rest cd snap st action res rv ls dl = Some (Inr d')"
      using Cons.prems by auto
    then show ?thesis using Cons.IH [OF l(2)] DAllow by (cases dl) auto
  next
    case DDeny
    then show ?thesis using Cons.prems by auto
  qed
qed auto

lemma decide_OK:
  assumes "decide cd snap st q = Some (Inr rec)"
  obtains first rest d sl where
    "query_links q = first # rest"
    "evaluate_link cd snap st (dq_action q) (dq_resource q) (dr_revision rec) first = Some (Inr (d, sl))"
    "evaluate_rest cd snap st (dq_action q) (dq_resource q) (dr_revision rec) rest d = Some (Inr (dr_decision rec))"
    "scope_path_of sl = Some (dr_scope_path rec)" "dr_entitlements rec = entitlements_of sl"
    "dr_granted_ids rec = granted_ids_of sl" "dr_snapshot_version rec = sn_version snap"
    "case dq_revision q of Some r \<Rightarrow> dr_revision rec = r | None \<Rightarrow> sv_latest_revision st = Inr (dr_revision rec)"
proof -
  obtain rv where rv: "case dq_revision q of Some r \<Rightarrow> rv = r | None \<Rightarrow> sv_latest_revision st = Inr rv"
    and body: "(case query_links q of
       [] \<Rightarrow> Some (Inl (EvaluationFailed ''delegation chain produced no links''))
     | first # rest \<Rightarrow>
         outcome_then (evaluate_link cd snap st (dq_action q) (dq_resource q) rv first) (\<lambda>(d, sl).
         outcome_then (evaluate_rest cd snap st (dq_action q) (dq_resource q) rv rest d) (\<lambda>d'.
         map_option (\<lambda>path. Inr
           \<lparr>dr_decision = d', dr_snapshot_version = sn_version snap, dr_revision = rv, dr_scope_path = path,
            dr_entitlements = entitlements_of sl, dr_granted_ids = granted_ids_of sl\<rparr>) (scope_path_of sl))))
       = Some (Inr rec)"
    using assms unfolding decide_def by (auto split: option.splits)
  then obtain first rest where links: "query_links q = first # rest" by (cases "query_links q") auto
  with body obtain d sl d' path where
    "evaluate_link cd snap st (dq_action q) (dq_resource q) rv first = Some (Inr (d, sl))"
    "evaluate_rest cd snap st (dq_action q) (dq_resource q) rv rest d = Some (Inr d')"
    "scope_path_of sl = Some path"
    "rec = \<lparr>dr_decision = d', dr_snapshot_version = sn_version snap, dr_revision = rv, dr_scope_path = path,
            dr_entitlements = entitlements_of sl, dr_granted_ids = granted_ids_of sl\<rparr>"
    by auto
  then show ?thesis using that [of first rest d sl] links rv by (auto split: option.splits)
qed


section \<open>Replay\<close>

definition make_view ::
    "('s \<Rightarrow> slice_query \<Rightarrow> (authz_error, entity_slice) outcome) \<Rightarrow> ('s \<Rightarrow> (authz_error, nat) result) \<Rightarrow> 's \<Rightarrow> store_view" where
  "make_view rd latest st = \<lparr>sv_slice = rd st, sv_latest_revision = latest st\<rparr>"

lemma evaluate_link_slice:
  "evaluate_link cd snap v action res rv l = Some (Inr (d, sl)) \<Longrightarrow>
     sv_slice v (slice_at_revision (slice_query_new l res) rv) = Some (Inr sl)"
  by (auto simp: evaluate_link_def)

lemma evaluate_link_cong:
  "sv_slice v (slice_at_revision (slice_query_new l res) rv) = sv_slice v' (slice_at_revision (slice_query_new l res) rv) \<Longrightarrow>
     evaluate_link cd snap v action res rv l = evaluate_link cd snap v' action res rv l"
  by (simp add: evaluate_link_def)

lemma evaluate_rest_cong:
  "(\<And>l. sv_slice v (slice_at_revision (slice_query_new l res) rv) = sv_slice v' (slice_at_revision (slice_query_new l res) rv)) \<Longrightarrow>
     evaluate_rest cd snap v action res rv ls d = evaluate_rest cd snap v' action res rv ls d"
  by (induction ls arbitrary: d) (simp_all add: evaluate_link_cong [of v _ res rv v'])

context authz_store
begin

lemma decide_replay:
  assumes inv: "invar st" and ok: "decide cd snap (make_view read_slice latest st) q = Some (Inr rec)"
  shows "decide cd snap (make_view read_slice latest (apply_all_writes app st ws)) (decision_at_revision q (dr_revision rec)) =
    Some (Inr rec)"
proof -
  let ?v = "make_view read_slice latest st" and ?v' = "make_view read_slice latest (apply_all_writes app st ws)"
  let ?r = "dr_revision rec"
  obtain first rest d sl where d: "query_links q = first # rest"
    "evaluate_link cd snap ?v (dq_action q) (dq_resource q) ?r first = Some (Inr (d, sl))"
    "evaluate_rest cd snap ?v (dq_action q) (dq_resource q) ?r rest d = Some (Inr (dr_decision rec))"
    "scope_path_of sl = Some (dr_scope_path rec)" "dr_entitlements rec = entitlements_of sl"
    "dr_granted_ids rec = granted_ids_of sl" "dr_snapshot_version rec = sn_version snap"
    using ok by (rule decide_OK)
  obtain k where k: "latest st = Inr k" using invar_latest [OF inv] by blast
  have "read_slice st (slice_at_revision (slice_query_new first (dq_resource q)) ?r) = Some (Inr sl)"
    using evaluate_link_slice [OF d(2)] by (simp add: make_view_def)
  moreover have "\<exists>e. read_slice st (slice_at_revision (slice_query_new first (dq_resource q)) ?r) = Some (Inl e)"
    if bad: "?r = 0 \<or> k < ?r"
    using unknown [OF inv k _ bad] by (simp add: slice_at_revision_def)
  ultimately have "\<not> (?r = 0 \<or> k < ?r)" by (metis option.inject sum.distinct(1))
  then have r: "0 < ?r" "?r \<le> k" by simp_all
  have same: "sv_slice ?v' (slice_at_revision (slice_query_new l (dq_resource q)) ?r) =
      sv_slice ?v (slice_at_revision (slice_query_new l (dq_resource q)) ?r)" for l
    using pinned_writes [OF inv k _ r, of "slice_at_revision (slice_query_new l (dq_resource q)) ?r" ws]
    by (simp add: make_view_def slice_at_revision_def)
  have "evaluate_link cd snap ?v' (dq_action q) (dq_resource q) ?r first = Some (Inr (d, sl))"
    unfolding evaluate_link_cong [OF same] by (rule d(2))
  moreover have "evaluate_rest cd snap ?v' (dq_action q) (dq_resource q) ?r rest d = Some (Inr (dr_decision rec))"
    unfolding evaluate_rest_cong [of ?v' _ _ ?v, OF same] by (rule d(3))
  moreover have "query_links (decision_at_revision q ?r) = first # rest"
    using d(1) by (simp add: query_links_def decision_at_revision_def split: option.splits)
  ultimately show ?thesis
    using d(4-7) by (simp add: decide_def decision_at_revision_def)
qed

end

section \<open>Scope paths follow the spine\<close>

lemma map_of_slice_parents:
  assumes "\<forall>u \<in> set us. u = unit_of sp (ou_fgrn u)"
  shows "map_of (foldl (\<lambda>m u. hm_insert (ou_fgrn u) (ou_parent u) m) acc us) f =
    (if f \<in> ou_fgrn ` set us then Some (ou_parent (unit_of sp f)) else map_of acc f)"
  using assms
proof (induction us arbitrary: acc)
  case (Cons u us)
  have "ou_parent u = ou_parent (unit_of sp (ou_fgrn u))" using Cons.prems by (metis list.set_intros(1))
  then show ?case using Cons.IH [of "hm_insert (ou_fgrn u) (ou_parent u) acc"] Cons.prems
    by (auto simp: hm_insert_lookup)
qed simp

lemma scope_walk_climbs:
  assumes "climbs m k ps" "\<forall>x \<in> set ps. map_of parents x = map_of m x" "seen \<inter> set (tl ps) = {}"
  shows "scope_walk parents k seen chain = chain @ tl ps"
  using assms
proof (induction arbitrary: seen chain rule: climbs.induct)
  case (top k)
  then show ?case by (simp add: scope_walk.simps [of parents k])
next
  case (up k p ps)
  have ps: "ps = p # tl ps" using climbs_hd [OF up.hyps(2)] by (metis list.collapse)
  have p: "p \<notin> seen" using up.prems(2) ps by (metis IntI empty_iff list.sel(3) list.set_intros(1))
  have "p \<notin> set (tl ps)" using climbs_distinct [OF up.hyps(2)] ps by (metis distinct.simps(2))
  then have "insert p seen \<inter> set (tl ps) = {}" using up.prems(2) ps
    by (metis Int_insert_left disjoint_iff list.sel(3) list.set_intros(2))
  then have "scope_walk parents p (insert p seen) (chain @ [p]) = (chain @ [p]) @ tl ps"
    using up.IH up.prems(1) by simp
  moreover have "map_of parents k = Some (Some p)" using up.prems(1) up.hyps(1) by simp
  ultimately have "scope_walk parents k seen chain = chain @ (p # tl ps)" using p
    by (simp add: scope_walk.simps [of parents k])
  then show ?case using ps by simp
qed

lemma scope_path_try_new_ok:
  assumes "us \<noteq> []" "\<forall>u \<in> set us. fgrn_kind u = KOrgUnit \<and> fgrn_org u = org"
  shows "scope_path_try_new us = Inr (ScopePath us)"
  using assms by (cases us) (auto simp: scope_path_try_new_def check_scope_unit_def)

lemma scope_path_of_slice:
  assumes wf: "model_state_wf m" and ok: "select_slice m prin res r = Some (Inr sl)"
  shows "\<exists>path. scope_path_of sl = Some (ScopePath path) \<and>
    spine_path (ms_spine m) (pr_anchor (sl_principal sl)) = Some (Inr path)"
proof -
  let ?sp = "ms_spine m" and ?a = "pr_anchor (sl_principal sl)"
  let ?us = "unit_of ?sp ` anchor_ancestors ?sp (slice_anchors (sl_principal sl) (sl_promotion sl))"
  note sl = select_slice_Inr [OF wf ok]
  have sp: "spine_wf ?sp" using wf by (simp add: model_state_wf_def)
  have a: "fgrn_kind ?a = KOrgUnit" using wf model_principal_fgrn [OF sl(1)]
    by (auto simp: model_state_wf_def list_all_iff principal_wf_def)
  then have "spine_contains ?sp ?a" using sl(2) by (simp add: slice_anchors_def)
  then obtain ps where ps: "climbs (sp_units ?sp) ?a ps" using spine_wf_climbs [OF sp] by blast
  have up: "x \<in> ou_fgrn ` set (sl_org_units sl)" if "x \<in> set ps" for x
    using that climbs_members [OF ps] a sl(6) by (auto simp: slice_anchors_def image_image)
  have "\<forall>u \<in> set (sl_org_units sl). u = unit_of ?sp (ou_fgrn u)" using sl(6) by auto
  then have "map_of (slice_parents sl) x = map_of (sp_units ?sp) x" if "x \<in> set ps" for x
    using map_of_slice_parents [of "sl_org_units sl" ?sp "[]" x] up [OF that] climbs_keys [OF ps that]
    by (auto simp: slice_parents_def unit_of_def map_of_eq_None_iff)
  moreover have "{?a} \<inter> set (tl ps) = {}" using climbs_distinct [OF ps] climbs_hd [OF ps] by (cases ps) auto
  ultimately have "scope_walk (slice_parents sl) ?a {?a} [?a] = [?a] @ tl ps"
    using scope_walk_climbs [OF ps] by blast
  then have "scope_walk (slice_parents sl) ?a {?a} [?a] = ps" using climbs_hd [OF ps] by (cases ps) auto
  moreover have "\<forall>u \<in> set (rev ps). fgrn_kind u = KOrgUnit \<and> fgrn_org u = sp_org ?sp"
    using climbs_keys [OF ps] sp by (auto simp: spine_wf_def)
  ultimately have "scope_path_of sl = Some (ScopePath (rev ps))"
    using scope_path_try_new_ok [of "rev ps" "sp_org ?sp"] climbs_hd [OF ps] by (simp add: scope_path_of_def)
  then show ?thesis using spine_path_climbs [OF ps] by blast
qed


section \<open>The entity hierarchy of a slice\<close>

definition entity_edges :: "cedar_entity list \<Rightarrow> (entity_uid \<times> entity_uid) set" where
  "entity_edges es = {(ce_uid e, p) | e p. e \<in> set es \<and> p \<in> ce_parents e}"

lemma entity_edges_append: "entity_edges (xs @ ys) = entity_edges xs \<union> entity_edges ys"
  by (auto simp: entity_edges_def)

lemma collect_map_set: "collect_results (map f xs) = Inr ys \<Longrightarrow> set ys = {y. \<exists>x \<in> set xs. f x = Inr y}"
  by (induction xs arbitrary: ys) auto

lemma collect_map_ok: "collect_results (map f xs) = Inr ys \<Longrightarrow> x \<in> set xs \<Longrightarrow> \<exists>y. f x = Inr y"
  by (induction xs arbitrary: ys) auto

lemma cedar_uid_Inr: "cedar_uid cd t f = Inr u \<Longrightarrow> u = (t, fgrn_display f)"
  by (auto simp: cedar_uid_def)

lemma collect_uids:
  "collect_results (map (\<lambda>s. cedar_uid cd t (g s)) xs) = Inr ys \<Longrightarrow> ys = map (\<lambda>s. (t, fgrn_display (g s))) xs"
  by (induction xs arbitrary: ys) (auto dest: cedar_uid_Inr)

lemma org_unit_entity_Inr:
  "org_unit_entity cd sl u = Inr e \<Longrightarrow>
     ce_uid e = (''OrgUnit'', fgrn_display (ou_fgrn u)) \<and>
     ce_parents e = {(''OrgUnit'', fgrn_display p) | p. ou_parent u = Some p \<and> p \<in> ou_fgrn ` set (sl_org_units sl)}"
  by (auto simp: org_unit_entity_def entity_no_attrs_def list_ex_iff dest!: cedar_uid_Inr split: option.splits if_splits)

lemma pset_entity_Inr: "pset_entity cd s = Inr e \<Longrightarrow> ce_parents e = {}"
  by (auto simp: pset_entity_def entity_no_attrs_def)

lemma principal_entity_Inr:
  assumes "principal_entity cd sl = Inr e"
  shows "ce_uid e = (cedar_principal_type (pr_kind (sl_principal sl)), fgrn_display (pr_fgrn (sl_principal sl)))"
    "ce_parents e = {(''PSet'', fgrn_display (ps_fgrn s)) | s. s \<in> set (sl_principal_sets sl) \<and>
        ps_contains s (pr_fgrn (sl_principal sl))} \<union>
      {(''OrgUnit'', fgrn_display a) | a. a = pr_anchor (sl_principal sl) \<and> fgrn_kind a = KOrgUnit}"
proof -
  obtain ys where ys: "collect_results (map (\<lambda>s. cedar_uid cd ''PSet'' (ps_fgrn s))
      (filter (\<lambda>s. ps_contains s (pr_fgrn (sl_principal sl))) (sl_principal_sets sl))) = Inr ys"
    using assms by (auto simp: principal_entity_def Let_def)
  have "set ys = {(''PSet'', fgrn_display (ps_fgrn s)) | s. s \<in> set (sl_principal_sets sl) \<and>
        ps_contains s (pr_fgrn (sl_principal sl))}"
    by (auto simp: collect_uids [OF ys])
  then show "ce_uid e = (cedar_principal_type (pr_kind (sl_principal sl)), fgrn_display (pr_fgrn (sl_principal sl)))"
    "ce_parents e = {(''PSet'', fgrn_display (ps_fgrn s)) | s. s \<in> set (sl_principal_sets sl) \<and>
        ps_contains s (pr_fgrn (sl_principal sl))} \<union>
      {(''OrgUnit'', fgrn_display a) | a. a = pr_anchor (sl_principal sl) \<and> fgrn_kind a = KOrgUnit}"
    using assms ys
    by (auto simp: principal_entity_def Let_def entity_no_attrs_def dest!: cedar_uid_Inr split: if_splits)
qed


lemma resource_entity_Inr:
  "resource_entity cd sl res = Inr e \<Longrightarrow>
     ce_uid e = (''Resource'', fgrn_display res) \<and>
     ce_parents e = {(promotion_anchor_type (fgrn_kind (pm_anchor q)), fgrn_display (pm_anchor q)) | q. sl_promotion sl = Some q}"
  by (auto simp: resource_entity_def entity_no_attrs_def dest!: cedar_uid_Inr split: option.splits)

definition unit_edges_of :: "entity_slice \<Rightarrow> (entity_uid \<times> entity_uid) set" where
  "unit_edges_of sl = {((''OrgUnit'', fgrn_display (ou_fgrn u)), (''OrgUnit'', fgrn_display p)) | u p.
     u \<in> set (sl_org_units sl) \<and> ou_parent u = Some p \<and> p \<in> ou_fgrn ` set (sl_org_units sl)}"

lemma slice_entities_edges:
  assumes "slice_entities cd sl res = Inr es"
    and pu: "pu = (cedar_principal_type (pr_kind (sl_principal sl)), fgrn_display (pr_fgrn (sl_principal sl)))"
  shows "entity_edges es = unit_edges_of sl \<union>
    {(pu, (''PSet'', fgrn_display (ps_fgrn s))) | s. s \<in> set (sl_principal_sets sl) \<and>
       ps_contains s (pr_fgrn (sl_principal sl))} \<union>
    {(pu, (''OrgUnit'', fgrn_display a)) | a. a = pr_anchor (sl_principal sl) \<and> fgrn_kind a = KOrgUnit} \<union>
    {((''Resource'', fgrn_display res),
      (promotion_anchor_type (fgrn_kind (pm_anchor q)), fgrn_display (pm_anchor q))) | q. sl_promotion sl = Some q}"
proof -
  obtain us ss p r where es: "collect_results (map (org_unit_entity cd sl) (sl_org_units sl)) = Inr us"
      "collect_results (map (pset_entity cd) (sl_principal_sets sl)) = Inr ss"
      "principal_entity cd sl = Inr p" "resource_entity cd sl res = Inr r" "es = us @ ss @ [p, r]"
    using assms(1) by (auto simp: slice_entities_def)
  have "entity_edges us = unit_edges_of sl"
  proof (intro set_eqI iffI)
    fix x assume "x \<in> entity_edges us"
    then obtain u e q where "u \<in> set (sl_org_units sl)" "org_unit_entity cd sl u = Inr e" "q \<in> ce_parents e"
        "x = (ce_uid e, q)"
      unfolding entity_edges_def collect_map_set [OF es(1)] by blast
    then show "x \<in> unit_edges_of sl" using org_unit_entity_Inr [of cd sl u e] by (auto simp: unit_edges_of_def)
  next
    fix x assume "x \<in> unit_edges_of sl"
    then obtain u p where u: "u \<in> set (sl_org_units sl)" "ou_parent u = Some p" "p \<in> ou_fgrn ` set (sl_org_units sl)"
        "x = ((''OrgUnit'', fgrn_display (ou_fgrn u)), (''OrgUnit'', fgrn_display p))"
      by (auto simp: unit_edges_of_def)
    obtain e where e: "org_unit_entity cd sl u = Inr e" using collect_map_ok [OF es(1) u(1)] by blast
    then have "e \<in> set us" using collect_map_set [OF es(1)] u(1) by auto
    moreover have "x = (ce_uid e, (''OrgUnit'', fgrn_display p))" "(''OrgUnit'', fgrn_display p) \<in> ce_parents e"
      using org_unit_entity_Inr [OF e] u by auto
    ultimately show "x \<in> entity_edges us" unfolding entity_edges_def by blast
  qed
  moreover have "entity_edges ss = {}"
    unfolding entity_edges_def collect_map_set [OF es(2)] by (auto dest: pset_entity_Inr)
  moreover have "entity_edges [p, r] = {(ce_uid p, x) | x. x \<in> ce_parents p} \<union> {(ce_uid r, x) | x. x \<in> ce_parents r}"
    by (auto simp: entity_edges_def)
  ultimately show ?thesis
    unfolding es(5) entity_edges_append pu
    using principal_entity_Inr [OF es(3)] resource_entity_Inr [OF es(4)] by auto
qed


lemma principal_type_cases: "cedar_principal_type k = ''User'' \<or> cedar_principal_type k = ''Machine''"
  by (cases k) simp_all

lemma promotion_anchor_not_set: "promotion_anchor_type k \<noteq> ''PSet''" "''PSet'' \<noteq> promotion_anchor_type k"
  by (cases k; simp)+

lemma spine_contains_wf: "spine_wf sp \<Longrightarrow> spine_contains sp z \<Longrightarrow> fgrn_wf z"
  by (auto simp: spine_wf_def spine_contains_def hm_contains_iff)

lemma slice_set_ancestors:
  assumes "slice_entities cd sl res = Inr es"
    and pu: "pu = (cedar_principal_type (pr_kind (sl_principal sl)), fgrn_display (pr_fgrn (sl_principal sl)))"
  shows "(pu, (''PSet'', x)) \<in> (entity_edges es)\<^sup>+ \<longleftrightarrow>
    (\<exists>s \<in> set (sl_principal_sets sl). ps_contains s (pr_fgrn (sl_principal sl)) \<and> x = fgrn_display (ps_fgrn s))"
proof -
  note edges = slice_entities_edges [OF assms]
  have into: "(y, (''PSet'', x)) \<in> entity_edges es \<longleftrightarrow> y = pu \<and>
      (\<exists>s \<in> set (sl_principal_sets sl). ps_contains s (pr_fgrn (sl_principal sl)) \<and> x = fgrn_display (ps_fgrn s))" for y
    unfolding edges unit_edges_of_def by (auto simp: promotion_anchor_not_set)
  show ?thesis
  proof
    assume "(pu, (''PSet'', x)) \<in> (entity_edges es)\<^sup>+"
    then obtain y where "(y, (''PSet'', x)) \<in> entity_edges es" by (blast dest: tranclD2)
    then show "\<exists>s \<in> set (sl_principal_sets sl). ps_contains s (pr_fgrn (sl_principal sl)) \<and> x = fgrn_display (ps_fgrn s)"
      unfolding into by (rule conjunct2)
  next
    assume "\<exists>s \<in> set (sl_principal_sets sl). ps_contains s (pr_fgrn (sl_principal sl)) \<and> x = fgrn_display (ps_fgrn s)"
    then have "(pu, (''PSet'', x)) \<in> entity_edges es" unfolding into by (rule conjI [OF refl])
    then show "(pu, (''PSet'', x)) \<in> (entity_edges es)\<^sup>+" by (rule r_into_trancl)
  qed
qed

lemma fgrn_display_inj: "fgrn_wf f \<Longrightarrow> fgrn_wf g \<Longrightarrow> fgrn_display f = fgrn_display g \<longleftrightarrow> f = g"
  using fgrn_wf_eqI by (auto simp: fgrn_display_def)

lemma slice_unit_ancestors:
  assumes wf: "model_state_wf m" and sl: "select_slice m prin r0 rv = Some (Inr sl)"
    and es: "slice_entities cd sl res = Inr es"
    and pu: "pu = (cedar_principal_type (pr_kind (sl_principal sl)), fgrn_display (pr_fgrn (sl_principal sl)))"
    and x: "spine_contains (ms_spine m) x"
  shows "(pu, (''OrgUnit'', fgrn_display x)) \<in> (entity_edges es)\<^sup>+ \<longleftrightarrow>
    (pr_anchor (sl_principal sl), x) \<in> (parent_rel (sp_units (ms_spine m)))\<^sup>*"
proof -
  let ?sp = "ms_spine m" and ?a = "pr_anchor (sl_principal sl)"
  let ?E = "entity_edges es" and ?R = "parent_rel (sp_units ?sp)"
  note S = select_slice_Inr [OF wf sl]
  note edges = slice_entities_edges [OF es pu]
  have sp: "spine_wf ?sp" using wf by (simp add: model_state_wf_def)
  have a: "fgrn_kind ?a = KOrgUnit" using wf model_principal_fgrn [OF S(1)]
    by (auto simp: model_state_wf_def list_all_iff principal_wf_def)
  have anc: "z \<in> ou_fgrn ` set (sl_org_units sl)" if "(?a, z) \<in> ?R\<^sup>*" for z
    using that a S(6) by (auto simp: slice_anchors_def image_image)
  have wfz: "fgrn_wf z" if "z \<in> ou_fgrn ` set (sl_org_units sl)" for z
    using that S(6) spine_contains_wf [OF sp anchor_ancestors_contained [OF sp S(2)]] by auto
  have par: "(ou_fgrn u, p) \<in> ?R" if "u \<in> set (sl_org_units sl)" "ou_parent u = Some p" for u p
  proof -
    have "spine_contains ?sp (ou_fgrn u)" "u = unit_of ?sp (ou_fgrn u)"
      using that(1) S(6) anchor_ancestors_contained [OF sp S(2)] by auto
    then have "spine_parent ?sp (ou_fgrn u) = Inr (Some p)" using spine_unit_of(1) [OF sp] that(2) by metis
    then show ?thesis by (simp add: spine_parent_def parent_rel_def)
  qed
  have forward: "fst y = ''PSet'' \<or> (\<exists>z. y = (''OrgUnit'', fgrn_display z) \<and> (?a, z) \<in> ?R\<^sup>*)" if "(pu, y) \<in> ?E\<^sup>+" for y
    using that
  proof (induction rule: trancl_induct)
    case (base y)
    then show ?case unfolding edges unit_edges_of_def pu
      using principal_type_cases [of "pr_kind (sl_principal sl)"] by auto
  next
    case (step y z)
    then obtain y' where y: "y = (''OrgUnit'', fgrn_display y')" "(?a, y') \<in> ?R\<^sup>*"
    proof -
      have "fst y \<noteq> ''PSet''" using step.hyps(2) unfolding edges unit_edges_of_def pu
        using principal_type_cases [of "pr_kind (sl_principal sl)"] by auto
      then show ?thesis using step.IH that by blast
    qed
    then obtain u p where u: "u \<in> set (sl_org_units sl)" "ou_parent u = Some p"
        "fgrn_display (ou_fgrn u) = fgrn_display y'" "z = (''OrgUnit'', fgrn_display p)"
      using step.hyps(2) principal_type_cases [of "pr_kind (sl_principal sl)"]
      unfolding edges unit_edges_of_def pu by auto
    have "ou_fgrn u = y'" using fgrn_display_inj u(1,3) wfz anc [OF y(2)] by blast
    then show ?case using par [OF u(1,2)] y(2) u(4) by (auto intro: rtrancl_into_rtrancl)
  qed
  have backward: "(pu, (''OrgUnit'', fgrn_display z)) \<in> ?E\<^sup>+" if "(?a, z) \<in> ?R\<^sup>*" for z
    using that
  proof (induction rule: rtrancl_induct)
    case base
    then show ?case using a edges by auto
  next
    case (step y z)
    obtain u where u: "u \<in> set (sl_org_units sl)" "ou_fgrn u = y" using anc [OF step.hyps(1)] by auto
    have "ou_parent u = Some z" using step.hyps(2) u S(6) by (auto simp: parent_rel_def unit_of_def)
    moreover have "z \<in> ou_fgrn ` set (sl_org_units sl)"
      using anc rtrancl_into_rtrancl [OF step.hyps] by blast
    ultimately have "((''OrgUnit'', fgrn_display y), (''OrgUnit'', fgrn_display z)) \<in> ?E"
      using u unfolding edges unit_edges_of_def by blast
    then show ?case using step.IH by (rule trancl_into_trancl [rotated])
  qed
  show ?thesis
  proof
    assume "(pu, (''OrgUnit'', fgrn_display x)) \<in> ?E\<^sup>+"
    then obtain z where "fgrn_display x = fgrn_display z" "(?a, z) \<in> ?R\<^sup>*" using forward by fastforce
    then show "(?a, x) \<in> ?R\<^sup>*" using fgrn_display_inj spine_contains_wf [OF sp x] wfz anc by blast
  qed (rule backward)
qed


section \<open>Decisions return\<close>

lemma spine_path_returns: "spine_wf sp \<Longrightarrow> spine_path sp a \<noteq> None"
  using spine_path_members [of sp a] by (cases "spine_contains sp a") (auto simp: spine_path_def spine_contains_def)

lemma spine_ancestry_returns: "spine_wf sp \<Longrightarrow> spine_ancestry sp as us \<noteq> None"
proof (induction as arbitrary: us)
  case (Cons a as)
  obtain res where "spine_path sp a = Some res" using spine_path_returns [OF Cons.prems] by blast
  then show ?case using Cons
    by (cases res) (auto simp: outcome_then_def split: sum.splits)
qed simp

lemma memory_slice_Inr:
  assumes "memory_slice st q = Some (Inr sl)"
  shows "sl_revision sl \<in> {1..length (mst_history st)}"
    "select_slice (mst_history st ! (sl_revision sl - 1)) (sq_principal q) (sq_resource q) (sl_revision sl) = Some (Inr sl)"
    "\<And>r. sq_revision q = Some r \<Longrightarrow> sl_revision sl = r"
proof -
  have rev: "sl_revision sl = r" if "select_slice m p x r = Some (Inr sl)" for m p x r
    using that by (auto simp: select_slice_def split: option.splits)
  show "sl_revision sl \<in> {1..length (mst_history st)}"
    "select_slice (mst_history st ! (sl_revision sl - 1)) (sq_principal q) (sq_resource q) (sl_revision sl) = Some (Inr sl)"
    "\<And>r. sq_revision q = Some r \<Longrightarrow> sl_revision sl = r"
    using assms rev by (auto simp: memory_slice_def store_locked_def Let_def split: if_splits option.splits)
qed

lemma select_slice_returns:
  assumes "model_state_wf m" shows "select_slice m p res rv \<noteq> None"
proof (cases "model_principal m p")
  case (Some x)
  obtain r where "spine_ancestry (ms_spine m) (slice_anchors x (model_promotion m res)) [] = Some r"
    using spine_ancestry_returns [of "ms_spine m"] assms by (auto simp: model_state_wf_def)
  then show ?thesis using Some by (cases r) (simp_all add: select_slice_def)
qed (simp add: select_slice_def)

lemma memory_slice_returns:
  assumes "store_reachable st" shows "memory_slice st q \<noteq> None"
proof -
  have wf: "\<not> mst_poisoned st" "\<forall>m \<in> set (mst_history st). model_state_wf m"
    using store_reachable_wf [OF assms] by (simp_all add: list_all_iff memory_store_wf_def)
  define r where "r = (case sq_revision q of Some r \<Rightarrow> r | None \<Rightarrow> length (mst_history st))"
  show ?thesis
  proof (cases "r = 0 \<or> r > length (mst_history st)")
    case True
    then show ?thesis using wf(1) by (simp add: memory_slice_def store_locked_def r_def [symmetric])
  next
    case False
    then have "r - 1 < length (mst_history st)" by linarith
    then have "model_state_wf (mst_history st ! (r - 1))" using wf(2) nth_mem by blast
    then show ?thesis using select_slice_returns False wf(1)
      by (simp add: memory_slice_def store_locked_def r_def [symmetric])
  qed
qed

definition memory_view :: "memory_store \<Rightarrow> store_view" where
  "memory_view st = make_view memory_slice memory_latest_revision st"

lemma evaluate_link_returns: "store_reachable st \<Longrightarrow> evaluate_link cd snap (memory_view st) a res rv l \<noteq> None"
  using memory_slice_returns [of st "slice_at_revision (slice_query_new l res) rv"]
  by (auto simp: evaluate_link_def memory_view_def make_view_def outcome_then_def split: sum.splits)

lemma evaluate_rest_returns: "store_reachable st \<Longrightarrow> evaluate_rest cd snap (memory_view st) a res rv ls d \<noteq> None"
proof (induction ls arbitrary: d)
  case (Cons l ls)
  obtain x where "evaluate_link cd snap (memory_view st) a res rv l = Some x"
    using evaluate_link_returns [OF Cons.prems] by blast
  then show ?case using Cons by (cases x) auto
qed simp

lemma link_scope_path:
  assumes "store_reachable st" "evaluate_link cd snap (memory_view st) a res rv l = Some (Inr (d, sl))"
  shows "\<exists>path m. rv \<in> {1..length (mst_history st)} \<and> m = mst_history st ! (rv - 1) \<and>
    model_principal m l = Some (sl_principal sl) \<and> scope_path_of sl = Some (ScopePath path) \<and>
    spine_path (ms_spine m) (pr_anchor (sl_principal sl)) = Some (Inr path)"
proof -
  let ?q = "slice_at_revision (slice_query_new l res) rv"
  have "memory_slice st ?q = Some (Inr sl)"
    using evaluate_link_slice [OF assms(2)] by (simp add: memory_view_def make_view_def)
  then have sl: "rv \<in> {1..length (mst_history st)}" "select_slice (mst_history st ! (rv - 1)) l res rv = Some (Inr sl)"
    using memory_slice_Inr [of st ?q sl] by (auto simp: slice_at_revision_def slice_query_new_def)
  then have wf: "model_state_wf (mst_history st ! (rv - 1))"
    using store_reachable_wf [OF assms(1)] by (auto simp: list_all_iff)
  show ?thesis using scope_path_of_slice [OF wf sl(2)] select_slice_Inr(1) [OF wf sl(2)] sl(1) by auto
qed

lemma decide_returns:
  assumes "store_reachable st" shows "decide cd snap (memory_view st) q \<noteq> None"
proof (cases "query_links q")
  case Nil
  then show ?thesis by (simp add: decide_def outcome_then_None_iff split: option.splits)
next
  case (Cons first rest)
  have scope: "scope_path_of sl \<noteq> None"
    if "evaluate_link cd snap (memory_view st) (dq_action q) (dq_resource q) rv first = Some (Inr (d, sl))" for rv d sl
    using link_scope_path [OF assms that] by auto
  show ?thesis
    using scope evaluate_link_returns [OF assms] evaluate_rest_returns [OF assms]
    by (simp add: decide_def Cons outcome_then_None_iff split: option.splits) blast
qed

section \<open>Properties of the engine\<close>

lemma decide_chain_intersection_parts:
  assumes "decide cd snap st q = Some (Inr rec)"
  shows "dr_is_allow rec \<longleftrightarrow> (\<forall>l \<in> set (query_links q). \<exists>sl.
      evaluate_link cd snap st (dq_action q) (dq_resource q) (dr_revision rec) l = Some (Inr (DAllow, sl)))"
    "dr_snapshot_version rec = sn_version snap"
    "case dq_revision q of Some r \<Rightarrow> dr_revision rec = r | None \<Rightarrow> sv_latest_revision st = Inr (dr_revision rec)"
proof -
  obtain first rest d sl where d: "query_links q = first # rest"
    "evaluate_link cd snap st (dq_action q) (dq_resource q) (dr_revision rec) first = Some (Inr (d, sl))"
    "evaluate_rest cd snap st (dq_action q) (dq_resource q) (dr_revision rec) rest d = Some (Inr (dr_decision rec))"
    "dr_snapshot_version rec = sn_version snap"
    "case dq_revision q of Some r \<Rightarrow> dr_revision rec = r | None \<Rightarrow> sv_latest_revision st = Inr (dr_revision rec)"
    using assms by (rule decide_OK)
  then show "dr_snapshot_version rec = sn_version snap"
    "case dq_revision q of Some r \<Rightarrow> dr_revision rec = r | None \<Rightarrow> sv_latest_revision st = Inr (dr_revision rec)"
    by simp_all
  show "dr_is_allow rec \<longleftrightarrow> (\<forall>l \<in> set (query_links q). \<exists>sl.
      evaluate_link cd snap st (dq_action q) (dq_resource q) (dr_revision rec) l = Some (Inr (DAllow, sl)))"
    using evaluate_rest_allow [OF d(3)] d(1,2) by (auto simp: dr_is_allow_def)
qed


definition ex_snapshot :: "string snapshot" where
  "ex_snapshot = \<lparr>sn_policies = [], sn_policy_text = [], sn_version = SnapshotVersion []\<rparr>"

definition ex_decision_query :: decision_query where
  "ex_decision_query = decision_query_new ex_alice (Verb ''read'') ex_doc"

definition decided :: "('e, 'a) outcome \<Rightarrow> bool" where
  "decided x = (case x of Some (Inr _) \<Rightarrow> True | _ \<Rightarrow> False)"

lemma decidedE: "decided x \<Longrightarrow> (\<And>y. x = Some (Inr y) \<Longrightarrow> P) \<Longrightarrow> P"
  by (auto simp: decided_def split: option.splits sum.splits)

declare path_loop.simps [code]

lemma ex_decided: "decided (decide accepting_cedar ex_snapshot (memory_view ex_store) ex_decision_query)"
  by code_simp


text \<open>
  C16. Every decision can be replayed: on a reachable store, a query that was decided, asked again at
  the revision its record names after any further writes, gives the same record.
\<close>

theorem decision_replay:
  assumes "store_reachable st" "decide cd snap (memory_view st) q = Some (Inr rec)"
  shows "decide cd snap (memory_view (apply_all_writes memory_apply st ws)) (decision_at_revision q (dr_revision rec)) =
    Some (Inr rec)"
  using memory.decide_replay [of st cd snap q rec ws] store_reachable_wf [OF assms(1)] assms(2)
  by (simp add: memory_view_def)

theorem decision_replay_witness:
  "\<exists>rec. decide accepting_cedar ex_snapshot (memory_view (apply_all_writes memory_apply ex_store
      [RemoveGrant ex_doc ex_staff])) (decision_at_revision ex_decision_query (dr_revision rec)) = Some (Inr rec)"
  using ex_decided
  by (rule decidedE) (blast dest: decision_replay [OF ex_store_reachable])

text \<open>
  The engine always returns on a reachable store, never reaching the \<open>unreachable!\<close> of the scope
  path; and the scope path of a record is the spine path, root first, of the acting principal's
  anchor at the revision of the record.
\<close>

theorem decide_returns_scope_path:
  assumes "store_reachable st"
  shows "\<exists>res. decide cd snap (memory_view st) q = Some res \<and>
    (\<forall>rec. res = Inr rec \<longrightarrow> (\<exists>m p. dr_revision rec \<in> {1..length (mst_history st)} \<and>
       m = mst_history st ! (dr_revision rec - 1) \<and> model_principal m (hd (query_links q)) = Some p \<and>
       spine_path (ms_spine m) (pr_anchor p) = Some (Inr (scope_units (dr_scope_path rec)))))"
proof -
  have "decide cd snap (memory_view st) q \<noteq> None" using assms by (rule decide_returns)
  then obtain res where res: "decide cd snap (memory_view st) q = Some res" by blast
  have "\<exists>m p. dr_revision rec \<in> {1..length (mst_history st)} \<and>
       m = mst_history st ! (dr_revision rec - 1) \<and> model_principal m (hd (query_links q)) = Some p \<and>
       spine_path (ms_spine m) (pr_anchor p) = Some (Inr (scope_units (dr_scope_path rec)))" if r: "res = Inr rec" for rec
  proof -
    obtain first rest d sl where d: "query_links q = first # rest"
      "evaluate_link cd snap (memory_view st) (dq_action q) (dq_resource q) (dr_revision rec) first = Some (Inr (d, sl))"
      "scope_path_of sl = Some (dr_scope_path rec)"
      using res r by (metis decide_OK)
    then show ?thesis using link_scope_path [OF assms d(2)] by auto
  qed
  with res show ?thesis by blast
qed

theorem decide_returns_scope_path_witness:
  "\<exists>res. decide accepting_cedar ex_snapshot (memory_view ex_store) ex_decision_query = Some res"
  using decide_returns_scope_path [OF ex_store_reachable] by blast


lemma cedar_hierarchy_of_slice_parts:
  assumes "store_reachable st" "memory_slice st q = Some (Inr sl)" "slice_entities cd sl (sq_resource q) = Inr es"
    "pu = (cedar_principal_type (pr_kind (sl_principal sl)), fgrn_display (sq_principal q))"
  shows "s \<in> set (sl_principal_sets sl) \<Longrightarrow>
      (pu, (''PSet'', fgrn_display (ps_fgrn s))) \<in> (entity_edges es)\<^sup>+ \<longleftrightarrow> ps_contains s (sq_principal q)"
    "spine_contains (ms_spine (mst_history st ! (sl_revision sl - 1))) x \<Longrightarrow>
      (pu, (''OrgUnit'', fgrn_display x)) \<in> (entity_edges es)\<^sup>+ \<longleftrightarrow>
        spine_is_at_or_below (ms_spine (mst_history st ! (sl_revision sl - 1))) (pr_anchor (sl_principal sl)) x = Some (Inr True)"
proof -
  let ?m = "mst_history st ! (sl_revision sl - 1)"
  note M = memory_slice_Inr [OF assms(2)]
  have wf: "model_state_wf ?m" using M(1) store_reachable_wf [OF assms(1)] by (auto simp: list_all_iff)
  note S = select_slice_Inr [OF wf M(2)]
  have p: "pr_fgrn (sl_principal sl) = sq_principal q" "sl_principal sl \<in> set (ms_principals ?m)"
    using model_principal_fgrn [OF S(1)] by simp_all
  then have pu: "pu = (cedar_principal_type (pr_kind (sl_principal sl)), fgrn_display (pr_fgrn (sl_principal sl)))"
    using assms(4) by simp
  have sets: "set (sl_principal_sets sl) \<subseteq> set (ms_sets ?m)" "distinct (map ps_fgrn (ms_sets ?m))"
    "\<forall>s \<in> set (ms_sets ?m). fgrn_wf (ps_fgrn s)"
    using S(4) set_transitive_principal_sets(2) [OF wf] wf
    by (auto simp: model_state_wf_def list_all_iff principal_set_wf_def)
  show "(pu, (''PSet'', fgrn_display (ps_fgrn s))) \<in> (entity_edges es)\<^sup>+ \<longleftrightarrow> ps_contains s (sq_principal q)"
    if s: "s \<in> set (sl_principal_sets sl)"
  proof -
    have "s' = s" if "s' \<in> set (sl_principal_sets sl)" "fgrn_display (ps_fgrn s) = fgrn_display (ps_fgrn s')" for s'
      using that s sets fgrn_display_inj by (auto simp: distinct_map inj_on_def subset_iff)
    then show ?thesis unfolding slice_set_ancestors [OF assms(3) pu] p(1) using s by blast
  qed
  have sp: "spine_wf (ms_spine ?m)" using wf by (simp add: model_state_wf_def)
  have "fgrn_kind (pr_anchor (sl_principal sl)) = KOrgUnit"
    using wf p(2) by (auto simp: model_state_wf_def list_all_iff principal_wf_def)
  then have a: "spine_contains (ms_spine ?m) (pr_anchor (sl_principal sl))"
    using S(2) by (simp add: slice_anchors_def)
  show "(pu, (''OrgUnit'', fgrn_display x)) \<in> (entity_edges es)\<^sup>+ \<longleftrightarrow>
      spine_is_at_or_below (ms_spine ?m) (pr_anchor (sl_principal sl)) x = Some (Inr True)"
    if x: "spine_contains (ms_spine ?m) x"
    unfolding slice_unit_ancestors [OF wf M(2) assms(3) pu x] spine_is_at_or_below_iff [OF sp a x] by simp
qed


definition ex_slice :: entity_slice where
  "ex_slice =
     \<lparr>sl_principal = \<lparr>pr_fgrn = ex_alice, pr_kind = Human, pr_anchor = ex_eng\<rparr>,
      sl_principal_sets =
        [\<lparr>ps_fgrn = ex_team, ps_anchor = ex_acme, ps_members = [ex_alice]\<rparr>,
         \<lparr>ps_fgrn = ex_staff, ps_anchor = ex_acme, ps_members = [ex_team]\<rparr>],
      sl_org_units = [\<lparr>ou_fgrn = ex_acme, ou_parent = None\<rparr>, \<lparr>ou_fgrn = ex_eng, ou_parent = Some ex_acme\<rparr>],
      sl_grants = [\<lparr>gr_resource = ex_doc, gr_actions = [Verb ''read''], gr_to = ex_staff\<rparr>],
      sl_promotion = None, sl_revision = 5\<rparr>"


section \<open>Flat queries\<close>

definition policy_query_wf :: "'n policy_query \<Rightarrow> bool" where
  "policy_query_wf q \<longleftrightarrow>
     segment_wf (prf_user_id (pq_principal q)) \<and> qualified_action_wf (pq_action q) \<and>
     (case pq_resource q of
        None \<Rightarrow> True
      | Some r \<Rightarrow> segment_wf (ent_segment (rr_entity r)) \<and> segment_wf (rid_segment (rr_id r)))"

definition action_verb_text :: "qualified_action \<Rightarrow> string" where
  "action_verb_text a = ns_str (qa_namespace a) @ ''--'' @ ent_str (qa_entity a) @ ''--'' @ act_str (qa_action a)"

definition resource_key :: "'n policy_query \<Rightarrow> string \<times> string" where
  "resource_key q = (case pq_resource q of Some r \<Rightarrow> (ent_str (rr_entity r), rid_str (rr_id r)) | None \<Rightarrow> (''app'', ''app''))"

lemma resource_key_wf:
  "policy_query_wf q \<Longrightarrow> valid_segment (fst (resource_key q)) \<and> valid_segment (snd (resource_key q))"
proof -
  have "valid_segment ''app''" by code_simp
  then show "policy_query_wf q \<Longrightarrow> ?thesis"
    by (auto simp: policy_query_wf_def resource_key_def ent_str_def rid_str_def split: option.splits)
qed

lemma action_verb_text_valid:
  assumes "qualified_action_wf a"
  shows "valid_verb (action_verb_text a) \<longleftrightarrow>
    length (action_verb_text a) \<le> 64 \<and> is_ascii_lowercase (hd (action_verb_text a))"
proof -
  have "segment_wf (ns_segment (qa_namespace a))" using assms namespace_wf_segment by (simp add: qualified_action_wf_def)
  then have "list_all segment_char (action_verb_text a)" "action_verb_text a \<noteq> []"
    using assms by (auto simp: action_verb_text_def ns_str_def ent_str_def act_str_def qualified_action_wf_def valid_segment_def
        segment_char_def)
  then show ?thesis by (simp add: valid_verb_def)
qed

lemma map_query_eq:
  assumes "policy_query_wf q"
  shows "map_query org q = Some (and_then (map_err CoreError (verb_try_new (action_verb_text (pq_action q)))) (\<lambda>v.
    Inr (decision_query_new (fgrn_principal org (NativeId (seg_str (prf_user_id (pq_principal q))))) v
      (fgrn_new org KResource (NativeId (fst (resource_key q) @ ''/'' @ snd (resource_key q)))
        (Some (Segment (fst (resource_key q)))) (Some (NativeId (snd (resource_key q))))))))"
proof -
  have u: "native_id_try_new (seg_str (prf_user_id (pq_principal q))) = Inr (NativeId (seg_str (prf_user_id (pq_principal q))))"
    using assms valid_segment_native_id by (simp add: policy_query_wf_def native_id_try_new_Inr_iff)
  obtain t n where tn: "resource_key q = (t, n)" by fastforce
  then have v: "valid_segment t" "valid_native_id n" using resource_key_wf [OF assms] valid_segment_native_id by auto
  then have r: "(case pq_resource q of
      Some r \<Rightarrow> and_then (segment_try_new (ent_str (rr_entity r))) (\<lambda>t.
        and_then (native_id_try_new (rid_str (rr_id r))) (\<lambda>n. Inr (t, n)))
    | None \<Rightarrow> and_then (segment_try_new ''app'') (\<lambda>t. and_then (native_id_try_new ''app'') (\<lambda>n. Inr (t, n)))) =
      Inr (Segment t, NativeId n)"
    using tn by (auto simp: resource_key_def segment_try_new_Inr_iff native_id_try_new_Inr_iff split: option.splits)
  show ?thesis
    using v fgrn_resource_Some [of "Segment t" "NativeId n" org]
    unfolding map_query_def u r tn action_verb_text_def [symmetric]
    by (cases "verb_try_new (action_verb_text (pq_action q))") simp_all
qed

lemma segment_double_sep:
  "valid_segment s \<Longrightarrow> \<not> contains_str s ''--'' \<and> s \<noteq> [] \<and> last s \<noteq> CHR ''-''"
  by (auto simp: valid_segment_def ends_with_single)

lemma action_verb_text_inj:
  assumes "qualified_action_wf a" "qualified_action_wf b" "action_verb_text a = action_verb_text b"
  shows "qualified_action_display a = qualified_action_display b"
proof -
  have wf: "valid_segment (ns_str (qa_namespace x))" "valid_segment (ent_str (qa_entity x))"
    if "qualified_action_wf x" for x
    using that namespace_wf_segment by (auto simp: qualified_action_wf_def ns_str_def ent_str_def)
  have 1: "ns_str (qa_namespace a) = ns_str (qa_namespace b) \<and>
      ent_str (qa_entity a) @ ''--'' @ act_str (qa_action a) = ent_str (qa_entity b) @ ''--'' @ act_str (qa_action b)"
    using assms(3) segment_double_sep [OF wf(1) [OF assms(1)]] segment_double_sep [OF wf(1) [OF assms(2)]]
    unfolding action_verb_text_def by (intro double_sep_unique) auto
  then have "ent_str (qa_entity a) = ent_str (qa_entity b) \<and> act_str (qa_action a) = act_str (qa_action b)"
    using segment_double_sep [OF wf(2) [OF assms(1)]] segment_double_sep [OF wf(2) [OF assms(2)]]
    by (intro double_sep_unique) auto
  with 1 show ?thesis by (simp add: qualified_action_display_def)
qed

lemma map_query_faithful_parts:
  assumes "policy_query_wf q" "policy_query_wf q'"
  shows "\<exists>r. map_query org q = Some r \<and> (is_ok r \<longleftrightarrow>
      length (action_verb_text (pq_action q)) \<le> 64 \<and> is_ascii_lowercase (hd (action_verb_text (pq_action q))))"
    "map_query org q = Some (Inr d) \<Longrightarrow> map_query org q' = Some (Inr d) \<Longrightarrow>
      prf_user_id (pq_principal q) = prf_user_id (pq_principal q') \<and>
      qualified_action_display (pq_action q) = qualified_action_display (pq_action q') \<and> resource_key q = resource_key q'"
proof -
  have wf: "qualified_action_wf (pq_action q)" "qualified_action_wf (pq_action q')"
    using assms by (simp_all add: policy_query_wf_def)
  have "is_ok (verb_try_new (action_verb_text (pq_action q))) \<longleftrightarrow> valid_verb (action_verb_text (pq_action q))"
    unfolding is_ok_iff verb_try_new_Inr_iff by (auto intro: exI [of _ "Verb (action_verb_text (pq_action q))"])
  then show "\<exists>r. map_query org q = Some r \<and> (is_ok r \<longleftrightarrow>
      length (action_verb_text (pq_action q)) \<le> 64 \<and> is_ascii_lowercase (hd (action_verb_text (pq_action q))))"
    unfolding map_query_eq [OF assms(1)] action_verb_text_valid [OF wf(1), symmetric]
    by (cases "verb_try_new (action_verb_text (pq_action q))") auto
  assume d: "map_query org q = Some (Inr d)" "map_query org q' = Some (Inr d)"
  then have "action_verb_text (pq_action q) = action_verb_text (pq_action q')"
    "seg_str (prf_user_id (pq_principal q)) = seg_str (prf_user_id (pq_principal q'))" "resource_key q = resource_key q'"
    unfolding map_query_eq [OF assms(1)] map_query_eq [OF assms(2)]
    by (auto simp: decision_query_new_def verb_try_new_Inr_iff fgrn_principal_def fgrn_new_def prod_eq_iff)
  then show "prf_user_id (pq_principal q) = prf_user_id (pq_principal q') \<and>
      qualified_action_display (pq_action q) = qualified_action_display (pq_action q') \<and> resource_key q = resource_key q'"
    using action_verb_text_inj [OF wf] segment.expand by blast
qed

text \<open>
  The adapter from flat queries is faithful. It never reaches the \<open>unreachable!\<close> of
  \<open>Fgrn::resource\<close>; it fails only when the joined action exceeds 64 characters or starts with a
  digit; and two queries map to the same decision query only when they have the same user, the same
  action and the same resource, where a query with no resource and one for \<open>app/app\<close> count as the same.
\<close>

theorem map_query_faithful:
  assumes "policy_query_wf q" "policy_query_wf q'"
  shows "(\<exists>r. map_query org q = Some r \<and> (is_ok r \<longleftrightarrow>
      length (action_verb_text (pq_action q)) \<le> 64 \<and> is_ascii_lowercase (hd (action_verb_text (pq_action q))))) \<and>
    (\<forall>d. map_query org q = Some (Inr d) \<and> map_query org q' = Some (Inr d) \<longrightarrow>
      prf_user_id (pq_principal q) = prf_user_id (pq_principal q') \<and>
      qualified_action_display (pq_action q) = qualified_action_display (pq_action q') \<and> resource_key q = resource_key q')"
  using map_query_faithful_parts [OF assms] by blast


definition ex_policy_query :: "nat policy_query" where
  "ex_policy_query =
     \<lparr>pq_principal = principal_ref_new (Segment ''alice''),
      pq_action = \<lparr>qa_namespace = UserNs (Segment ''todo''), qa_action = Action (Segment ''read''), qa_entity = Entity (Segment ''list'')\<rparr>,
      pq_resource = None, pq_context = policy_context_new\<rparr>"

theorem map_query_faithful_witness:
  "\<exists>r. map_query (Segment ''acme'') ex_policy_query = Some r \<and> is_ok r"
proof -
  have wf: "policy_query_wf ex_policy_query" by code_simp
  have "length (action_verb_text (pq_action ex_policy_query)) \<le> 64 \<and>
      is_ascii_lowercase (hd (action_verb_text (pq_action ex_policy_query)))" by code_simp
  then show ?thesis using map_query_faithful [OF wf wf, of "Segment ''acme''"] by blast
qed

end
