(* ===== verification/Axum_Guard.thy ===== *)
theory Axum_Guard
  imports Proxy_Pipeline Cedar_Engine
begin

text \<open>
  The embedding library \<open>lib/forgeguard-axum\<close>: the projection of identity and decision record into
  \<open>X-Fg-*\<close> headers (\<open>headers.rs\<close>), enforcement outcomes (\<open>outcome.rs\<close>), the guard's state (\<open>guard.rs\<close>,
  \<open>mode.rs\<close>, \<open>signing.rs\<close>), the middleware (\<open>middleware.rs\<close>) and the row-level-security bridge
  (\<open>rls.rs\<close>) with the predicates of its SQL templates. The \<open>http\<close> crate's header types are an argument.
  The request id and the clock are arguments; the decision sink is the list of what it was given.
\<close>

section \<open>Header projection\<close>

definition identity_headers :: "'n identity \<Rightarrow> headers" where
  "identity_headers i =
     [(X_FG_USER_ID, seg_str (id_user_id i))] @
     (case id_tenant_id i of Some t \<Rightarrow> [(X_FG_TENANT_ID, seg_str t)] | None \<Rightarrow> []) @
     (if id_groups i \<noteq> [] then [(X_FG_GROUPS, join '','' (map seg_str (id_groups i)))] else []) @
     [(X_FG_AUTH_PROVIDER, id_resolver i)]"

definition record_headers :: "decision_record \<Rightarrow> headers" where
  "record_headers r =
     [(X_FG_SCOPE_PATH, scope_path_display (dr_scope_path r))] @
     (if dr_entitlements r \<noteq> [] then [(X_FG_ENTITLEMENTS, join '','' (map verb_str (dr_entitlements r)))] else []) @
     [(X_FG_REVISION, show_nat (dr_revision r))]"

definition projected_headers :: "'n identity option \<Rightarrow> decision_record option \<Rightarrow> headers" where
  "projected_headers identity rec =
     (case identity of Some i \<Rightarrow> identity_headers i | None \<Rightarrow> []) @
     (case rec of Some r \<Rightarrow> record_headers r | None \<Rightarrow> [])"

definition build_fg_headers ::
    "('sk, 'vk, 'sig) crypto \<Rightarrow> 'n identity option \<Rightarrow> decision_record option \<Rightarrow> ('sk \<times> key_id) option \<Rightarrow> string \<Rightarrow> u64 \<Rightarrow> headers" where
  "build_fg_headers cr identity rec signing trace_id now =
     (let hs = projected_headers identity rec in
      case signing of
        None \<Rightarrow> hs
      | Some (key, kid) \<Rightarrow>
          if hs = [] then hs
          else hs @ signing_tail cr (sign cr key kid (canonical_payload trace_id now hs) now trace_id))"

section \<open>Outcomes and state\<close>

datatype axum_effect = EffAllowed | EffDenied | EffWouldAllow | EffWouldDeny

record enforcement_outcome =
  eo_record :: "decision_record option"
  eo_mode :: enforcement_mode
  eo_effect :: axum_effect

fun effect_from_forward :: "policy_effect \<Rightarrow> axum_effect option" where
  "effect_from_forward NotEvaluated = None"
| "effect_from_forward Allowed = Some EffAllowed"
| "effect_from_forward WouldAllow = Some EffWouldAllow"
| "effect_from_forward WouldDeny = Some EffWouldDeny"

record ('r, 'p, 'n, 'e, 'sk) forge_guard =
  fg_config :: "('r, 'p, 'n) pipeline_config"
  fg_identity_chain :: "'n resolver list"
  fg_policy_engine :: "('n, decision_record, 'e) policy_engine"
  fg_signing :: "('sk \<times> key_id) option"
  fg_default_mode :: enforcement_mode

definition forge_guard_new ::
    "('r, 'p, 'n) pipeline_config \<Rightarrow> 'n resolver list \<Rightarrow> ('n, decision_record, 'e) policy_engine
      \<Rightarrow> ('r, 'p, 'n, 'e, 'sk) forge_guard" where
  "forge_guard_new cfg chain engine =
     \<lparr>fg_config = cfg, fg_identity_chain = chain, fg_policy_engine = engine, fg_signing = None, fg_default_mode = Enforce\<rparr>"

definition with_signing :: "('r, 'p, 'n, 'e, 'sk) forge_guard \<Rightarrow> 'sk \<times> key_id \<Rightarrow> ('r, 'p, 'n, 'e, 'sk) forge_guard" where
  "with_signing fg signing = fg\<lparr>fg_signing := Some signing\<rparr>"

definition with_default_mode :: "('r, 'p, 'n, 'e, 'sk) forge_guard \<Rightarrow> enforcement_mode \<Rightarrow> ('r, 'p, 'n, 'e, 'sk) forge_guard" where
  "with_default_mode fg mode = fg\<lparr>fg_default_mode := mode\<rparr>"

text \<open>The route marker that \<open>observe()\<close> makes, an extension of the request.\<close>

definition mode_override_observe :: enforcement_mode where
  "mode_override_observe = Observe"

section \<open>The middleware\<close>

definition PROTECTED_FG_HEADERS :: "string list" where
  "PROTECTED_FG_HEADERS =
     [X_FG_USER_ID, X_FG_TENANT_ID, X_FG_GROUPS, X_FG_AUTH_PROVIDER, X_FG_PRINCIPAL, X_FG_SCOPE_PATH,
      X_FG_ENTITLEMENTS, X_FG_REVISION]"

record http_lib =
  hl_to_str :: "string \<Rightarrow> bool"
  hl_name :: "string \<Rightarrow> string option"
  hl_value :: "string \<Rightarrow> bool"

record http_request =
  hr_method :: string
  hr_path :: string
  hr_query :: "string option"
  hr_headers :: headers
  hr_client_ip :: "ip_addr option"
  hr_mode_override :: "enforcement_mode option"

record 'n guarded_request =
  gq_headers :: headers
  gq_identity :: "'n identity option"
  gq_flags :: "(string, 'n flag_value) hash_map option"
  gq_decision :: "decision_record option"

datatype 'n layer_response = RespondText nat string | RespondJson nat "'n json" | NextRun "'n guarded_request"

text \<open>\<open>HeaderMap::remove\<close> and \<open>HeaderMap::insert\<close>: all values of the name go, one value comes.\<close>

definition header_remove :: "string \<Rightarrow> headers \<Rightarrow> headers" where
  "header_remove n hs = filter (\<lambda>h. fst h \<noteq> n) hs"

definition header_insert :: "string \<Rightarrow> string \<Rightarrow> headers \<Rightarrow> headers" where
  "header_insert n v hs = header_remove n hs @ [(n, v)]"

fun insert_fg_headers :: "http_lib \<Rightarrow> headers \<Rightarrow> headers \<Rightarrow> headers" where
  "insert_fg_headers hl [] hs = hs"
| "insert_fg_headers hl ((name, val) # xs) hs =
     (case hl_name hl name of
        None \<Rightarrow> insert_fg_headers hl xs hs
      | Some n \<Rightarrow>
          if hl_value hl val then insert_fg_headers hl xs (header_insert n val hs)
          else insert_fg_headers hl xs hs)"

definition axum_request_input :: "http_lib \<Rightarrow> http_request \<Rightarrow> (proxy_error, request_input) result" where
  "axum_request_input hl req =
     and_then (request_input_new (hr_method req) (hr_path req)
         (filter (\<lambda>h. hl_to_str hl (snd h)) (hr_headers req)) (hr_client_ip req)) (\<lambda>input.
     Inr (case hr_query req of Some q \<Rightarrow> with_query_string input q | None \<Rightarrow> input))"

definition axum_forward ::
    "http_lib \<Rightarrow> ('sk, 'vk, 'sig) crypto \<Rightarrow> ('r, 'p, 'n, 'e, 'sk) forge_guard \<Rightarrow> http_request \<Rightarrow> string \<Rightarrow> u64
      \<Rightarrow> 'n identity option \<Rightarrow> (string, 'n flag_value) hash_map option \<Rightarrow> decision_record option \<Rightarrow> 'n guarded_request" where
  "axum_forward hl cr fg req trace_id now identity flags rec =
     \<lparr>gq_headers = insert_fg_headers hl (build_fg_headers cr identity rec (fg_signing fg) trace_id now)
        (foldl (\<lambda>hs n. header_remove n hs) (hr_headers req) PROTECTED_FG_HEADERS),
      gq_identity = identity, gq_flags = flags, gq_decision = rec\<rparr>"

definition forgeguard_layer ::
    "('r, 'p, 'x, 'n) pipeline_env \<Rightarrow> http_lib \<Rightarrow> ('sk, 'vk, 'sig) crypto \<Rightarrow> ('r, 'p, 'n, 'e, 'sk) forge_guard
      \<Rightarrow> http_request \<Rightarrow> string \<Rightarrow> u64 \<Rightarrow> ('n layer_response \<times> enforcement_outcome list) option" where
  "forgeguard_layer env hl cr fg req trace_id now =
     (case axum_request_input hl req of
        Inl _ \<Rightarrow> Some (RespondText 400 ''{\"error\":\"invalid request\"}'', [])
      | Inr input \<Rightarrow>
          (let mode = (case hr_mode_override req of Some m \<Rightarrow> m | None \<Rightarrow> fg_default_mode fg) in
           map_option (\<lambda>out. case out of
               Forward identity flags _ rec effect \<Rightarrow>
                 (NextRun (axum_forward hl cr fg req trace_id now identity flags rec),
                  case effect_from_forward effect of
                    Some e \<Rightarrow> [\<lparr>eo_record = rec, eo_mode = mode, eo_effect = e\<rparr>]
                  | None \<Rightarrow> [])
             | Reject status body policy_denied rec \<Rightarrow>
                 (RespondJson status body,
                  if policy_denied then [\<lparr>eo_record = rec, eo_mode = mode, eo_effect = EffDenied\<rparr>] else [])
             | Health body \<Rightarrow> (RespondJson 200 body, [])
             | Debug body \<Rightarrow> (RespondText 200 body, []))
             (evaluate_pipeline env (fg_config fg) input (fg_identity_chain fg) (fg_policy_engine fg) mode)))"

section \<open>Row-level security\<close>

record rls_context =
  rls_scope_path :: string
  rls_granted_ids :: "string list"
  rls_principal_id :: string

definition rls_from_request :: "'n guarded_request option \<Rightarrow> rls_context" where
  "rls_from_request gq =
     (let rec = Option.bind gq gq_decision; identity = Option.bind gq gq_identity in
      \<lparr>rls_scope_path = (case rec of Some r \<Rightarrow> scope_path_display (dr_scope_path r) | None \<Rightarrow> []),
       rls_granted_ids = (case rec of Some r \<Rightarrow> map nid_str (dr_granted_ids r) | None \<Rightarrow> []),
       rls_principal_id = (case identity of Some i \<Rightarrow> seg_str (id_user_id i) | None \<Rightarrow> [])\<rparr>)"

record rls_statement =
  st_sql :: string
  st_params :: "string list"

definition session_statements :: "rls_context \<Rightarrow> rls_statement list" where
  "session_statements c =
     map (\<lambda>(var, val). \<lparr>st_sql = ''SELECT set_config('' @ quoted var @ '', $1, true)'', st_params = [val]\<rparr>)
       [(''fg.scope_path'', rls_scope_path c), (''fg.granted_ids'', join '','' (rls_granted_ids c)),
        (''fg.principal_id'', rls_principal_id c)]"

text \<open>
  The policies of the SQL templates. A statement sets the session variable its text names; a variable that
  is not set reads as \<open>NULL\<close>, which every template treats as the empty string.
\<close>

datatype rls_template = Owner | Scope | ScopeWithGrants | GrantsOnly

record rls_row =
  rw_id :: string
  rw_scope_path :: string
  rw_owner_id :: string

definition session_setting :: "rls_statement list \<Rightarrow> string \<Rightarrow> string" where
  "session_setting stmts var =
     foldl (\<lambda>v st. if st_sql st = ''SELECT set_config('' @ quoted var @ '', $1, true)'' then hd (st_params st) else v) []
       stmts"

definition sql_scope :: "string \<Rightarrow> string \<Rightarrow> bool" where
  "sql_scope setting row_scope \<longleftrightarrow>
     setting \<noteq> [] \<and> (row_scope = setting \<or> starts_with row_scope (setting @ ''/''))"

definition sql_grants :: "string \<Rightarrow> string \<Rightarrow> bool" where
  "sql_grants setting row_id \<longleftrightarrow> setting \<noteq> [] \<and> row_id \<in> set (split_on CHR '','' setting)"

fun rls_policy :: "rls_template \<Rightarrow> (string \<Rightarrow> string) \<Rightarrow> rls_row \<Rightarrow> bool" where
  "rls_policy Owner setting r \<longleftrightarrow> setting ''fg.principal_id'' \<noteq> [] \<and> rw_owner_id r = setting ''fg.principal_id''"
| "rls_policy Scope setting r \<longleftrightarrow> sql_scope (setting ''fg.scope_path'') (rw_scope_path r)"
| "rls_policy ScopeWithGrants setting r \<longleftrightarrow>
     sql_scope (setting ''fg.scope_path'') (rw_scope_path r) \<or> sql_grants (setting ''fg.granted_ids'') (rw_id r)"
| "rls_policy GrantsOnly setting r \<longleftrightarrow> sql_grants (setting ''fg.granted_ids'') (rw_id r)"

section \<open>Headers that reach the application\<close>

definition header_values :: "string \<Rightarrow> headers \<Rightarrow> string list" where
  "header_values n hs = map snd (filter (\<lambda>h. fst h = n) hs)"

definition FG_HEADER_NAMES :: "string list" where
  "FG_HEADER_NAMES = PROTECTED_FG_HEADERS @ [X_FG_TRACE_ID, X_FG_TIMESTAMP, X_FG_KEY_ID, X_FG_SIGNATURE]"

lemmas fg_header_defs = X_FG_USER_ID_def X_FG_TENANT_ID_def X_FG_GROUPS_def X_FG_AUTH_PROVIDER_def X_FG_PRINCIPAL_def
  X_FG_SCOPE_PATH_def X_FG_ENTITLEMENTS_def X_FG_REVISION_def X_FG_TRACE_ID_def X_FG_TIMESTAMP_def X_FG_KEY_ID_def
  X_FG_SIGNATURE_def

lemma header_values_remove:
  "header_values n (header_remove m hs) = (if n = m then [] else header_values n hs)"
  by (auto simp: header_values_def header_remove_def filter_filter intro!: filter_cong arg_cong [of _ _ "map snd"])

lemma header_values_insert:
  "header_values n (header_insert m v hs) = (if n = m then [v] else header_values n hs)"
proof -
  have "header_values n (xs @ ys) = header_values n xs @ header_values n ys" for xs ys by (simp add: header_values_def)
  then show ?thesis by (simp add: header_insert_def header_values_remove) (simp add: header_values_def)
qed

lemma header_values_strip:
  "header_values n (foldl (\<lambda>hs m. header_remove m hs) hs ms) = (if n \<in> set ms then [] else header_values n hs)"
  by (induction ms arbitrary: hs) (auto simp: header_values_remove)

lemma header_values_insert_all:
  assumes "\<forall>h \<in> set xs. hl_name hl (fst h) = Some (fst h)" "distinct (map fst xs)"
  shows "header_values n (insert_fg_headers hl xs hs) =
    (case map_of xs n of Some v \<Rightarrow> if hl_value hl v then [v] else header_values n hs | None \<Rightarrow> header_values n hs)"
  using assms
proof (induction hl xs hs rule: insert_fg_headers.induct)
  case (2 hl name val xs hs)
  have name: "hl_name hl name = Some name" using 2(4) by simp
  have rest: "\<forall>h \<in> set xs. hl_name hl (fst h) = Some (fst h)" "distinct (map fst xs)" using 2(4,5) by simp_all
  have "map_of xs name = None" using 2(5) by (simp add: map_of_eq_None_iff)
  then show ?case using 2(2,3) [OF name _ rest] name
    by (auto simp: header_values_insert split: option.splits)
qed simp

lemma projected_header_names:
  "set (map fst (projected_headers i r)) \<subseteq> set PROTECTED_FG_HEADERS" "distinct (map fst (projected_headers i r))"
  by (auto simp: projected_headers_def identity_headers_def record_headers_def PROTECTED_FG_HEADERS_def fg_header_defs
      split: option.splits)

lemma signing_tail_names:
  "map fst (signing_tail cr sp) = [X_FG_TRACE_ID, X_FG_TIMESTAMP, X_FG_KEY_ID, X_FG_SIGNATURE]"
  by (simp add: signing_tail_def)

lemma signing_names_unprotected:
  "set [X_FG_TRACE_ID, X_FG_TIMESTAMP, X_FG_KEY_ID, X_FG_SIGNATURE] \<inter> set PROTECTED_FG_HEADERS = {}"
  by (simp add: PROTECTED_FG_HEADERS_def fg_header_defs)

lemma fg_headers_split:
  "\<exists>tail. build_fg_headers cr i r s t now = projected_headers i r @ tail \<and>
    (tail = [] \<or> map fst tail = [X_FG_TRACE_ID, X_FG_TIMESTAMP, X_FG_KEY_ID, X_FG_SIGNATURE])"
  by (auto simp: build_fg_headers_def Let_def signing_tail_names split: option.splits)

lemma fg_header_names:
  "set (map fst (build_fg_headers cr i r s t now)) \<subseteq> set FG_HEADER_NAMES" "distinct (map fst (build_fg_headers cr i r s t now))"
proof -
  obtain tail where t: "build_fg_headers cr i r s t now = projected_headers i r @ tail"
      "tail = [] \<or> map fst tail = [X_FG_TRACE_ID, X_FG_TIMESTAMP, X_FG_KEY_ID, X_FG_SIGNATURE]"
    using fg_headers_split [of cr i r s t now] by (elim exE conjE) (rule that)
  have d: "distinct [X_FG_TRACE_ID, X_FG_TIMESTAMP, X_FG_KEY_ID, X_FG_SIGNATURE]" by (simp add: fg_header_defs)
  have "set (map fst tail) \<inter> set PROTECTED_FG_HEADERS = {} \<and> distinct (map fst tail) \<and> set (map fst tail) \<subseteq> set FG_HEADER_NAMES"
  proof (cases "tail = []")
    case False
    then have m: "map fst tail = [X_FG_TRACE_ID, X_FG_TIMESTAMP, X_FG_KEY_ID, X_FG_SIGNATURE]" using t(2) by simp
    show ?thesis unfolding m using signing_names_unprotected d by (simp add: FG_HEADER_NAMES_def)
  qed simp
  then show "set (map fst (build_fg_headers cr i r s t now)) \<subseteq> set FG_HEADER_NAMES"
    "distinct (map fst (build_fg_headers cr i r s t now))"
    using projected_header_names [of i r] unfolding t(1) by (auto simp: FG_HEADER_NAMES_def)
qed

lemma fg_headers_protected:
  assumes "n \<in> set PROTECTED_FG_HEADERS"
  shows "map_of (build_fg_headers cr i r s t now) n = map_of (projected_headers i r) n"
proof -
  obtain tail where t: "build_fg_headers cr i r s t now = projected_headers i r @ tail"
      "tail = [] \<or> map fst tail = [X_FG_TRACE_ID, X_FG_TIMESTAMP, X_FG_KEY_ID, X_FG_SIGNATURE]"
    using fg_headers_split [of cr i r s t now] by (elim exE conjE) (rule that)
  have "n \<notin> set (map fst tail)" using t(2) signing_names_unprotected assms by fastforce
  then have "map_of tail n = None" by (simp add: map_of_eq_None_iff)
  then show ?thesis unfolding t(1) by (simp add: map_add_def split: option.splits)
qed

lemma axum_headers_authentic_parts:
  assumes "\<forall>n \<in> set FG_HEADER_NAMES. hl_name hl n = Some n"
    "forgeguard_layer env hl cr fg req trace_id now = Some (NextRun gq, outcomes)"
  shows "n \<in> set PROTECTED_FG_HEADERS \<Longrightarrow> header_values n (gq_headers gq) =
      (case map_of (projected_headers (gq_identity gq) (gq_decision gq)) n of
         Some v \<Rightarrow> if hl_value hl v then [v] else [] | None \<Rightarrow> [])"
    "\<exists>input mode mt effect. axum_request_input hl req = Inr input \<and>
       evaluate_pipeline env (fg_config fg) input (fg_identity_chain fg) (fg_policy_engine fg) mode =
         Some (Forward (gq_identity gq) (gq_flags gq) mt (gq_decision gq) effect)"
proof -
  define mode where "mode = (case hr_mode_override req of Some m \<Rightarrow> m | None \<Rightarrow> fg_default_mode fg)"
  obtain input identity flags mt rec effect where run: "axum_request_input hl req = Inr input"
      "evaluate_pipeline env (fg_config fg) input (fg_identity_chain fg) (fg_policy_engine fg) mode =
         Some (Forward identity flags mt rec effect)"
      "gq = axum_forward hl cr fg req trace_id now identity flags rec"
  proof -
    obtain input out where out: "axum_request_input hl req = Inr input"
        "evaluate_pipeline env (fg_config fg) input (fg_identity_chain fg) (fg_policy_engine fg) mode = Some out"
      using assms(2) by (auto simp: forgeguard_layer_def mode_def [symmetric] split: sum.splits)
    then show ?thesis using that assms(2)
      by (cases out) (auto simp: forgeguard_layer_def mode_def [symmetric])
  qed
  then have gq: "gq_identity gq = identity" "gq_flags gq = flags" "gq_decision gq = rec"
    by (simp_all add: axum_forward_def)
  then show "\<exists>input mode mt effect. axum_request_input hl req = Inr input \<and>
       evaluate_pipeline env (fg_config fg) input (fg_identity_chain fg) (fg_policy_engine fg) mode =
         Some (Forward (gq_identity gq) (gq_flags gq) mt (gq_decision gq) effect)"
    using run(1,2) by blast
  show "header_values n (gq_headers gq) =
      (case map_of (projected_headers (gq_identity gq) (gq_decision gq)) n of
         Some v \<Rightarrow> if hl_value hl v then [v] else [] | None \<Rightarrow> [])" if n: "n \<in> set PROTECTED_FG_HEADERS"
  proof -
    let ?xs = "build_fg_headers cr identity rec (fg_signing fg) trace_id now"
    have "\<forall>h \<in> set ?xs. hl_name hl (fst h) = Some (fst h)"
      using assms(1) fg_header_names(1) [of cr identity rec "fg_signing fg" trace_id now] by (auto simp: subset_iff)
    then show ?thesis
      using header_values_insert_all [OF _ fg_header_names(2), of cr identity rec "fg_signing fg" trace_id now hl n]
        fg_headers_protected [OF n, of cr identity rec "fg_signing fg" trace_id now] n
      unfolding gq by (simp add: run(3) axum_forward_def header_values_strip split: option.splits)
  qed
qed

text \<open>
  C10. No client can smuggle an identity or decision header through the middleware. When the middleware
  passes a request on, its pipeline forwarded it, and every protected header of the request has
  exactly the value projected from the identity and decision record of that pipeline run, or no value
  when they project none, whatever headers the client sent.
\<close>

theorem axum_headers_authentic:
  assumes "\<forall>n \<in> set FG_HEADER_NAMES. hl_name hl n = Some n"
    "forgeguard_layer env hl cr fg req trace_id now = Some (NextRun gq, outcomes)"
  shows "(\<forall>n \<in> set PROTECTED_FG_HEADERS. header_values n (gq_headers gq) =
      (case map_of (projected_headers (gq_identity gq) (gq_decision gq)) n of
         Some v \<Rightarrow> if hl_value hl v then [v] else [] | None \<Rightarrow> [])) \<and>
    (\<exists>input mode mt effect. axum_request_input hl req = Inr input \<and>
       evaluate_pipeline env (fg_config fg) input (fg_identity_chain fg) (fg_policy_engine fg) mode =
         Some (Forward (gq_identity gq) (gq_flags gq) mt (gq_decision gq) effect))"
  using axum_headers_authentic_parts [OF assms] by blast

definition ex_http :: http_lib where
  "ex_http = \<lparr>hl_to_str = (\<lambda>_. True), hl_name = Some, hl_value = (\<lambda>_. True)\<rparr>"

definition ex_guard :: "((string \<times> route_value) list, (string \<times> public_auth_mode) list, nat, unit, unit) forge_guard" where
  "ex_guard = with_signing (forge_guard_new ex_config ex_chain (static_engine (static_engine_new PAllow))) ((), KeyId ''k1'')"

definition ex_http_request :: http_request where
  "ex_http_request = \<lparr>hr_method = ''GET'', hr_path = ''/lists'', hr_query = None,
     hr_headers = [(''x-api-key'', ''k1''), (X_FG_USER_ID, ''root''), (X_FG_GROUPS, ''admin'')],
     hr_client_ip = None, hr_mode_override = None\<rparr>"

theorem axum_headers_authentic_witness:
  "\<exists>gq outcomes. forgeguard_layer ex_env ex_http toy_crypto ex_guard ex_http_request ''t1'' 5 = Some (NextRun gq, outcomes) \<and>
     header_values X_FG_USER_ID (gq_headers gq) = [''alice''] \<and> header_values X_FG_GROUPS (gq_headers gq) = []"
proof -
  let ?run = "forgeguard_layer ex_env ex_http toy_crypto ex_guard ex_http_request ''t1'' 5"
  have "(case ?run of Some (NextRun gq, _) \<Rightarrow>
      map_of (projected_headers (gq_identity gq) (gq_decision gq)) X_FG_USER_ID = Some ''alice'' \<and>
      map_of (projected_headers (gq_identity gq) (gq_decision gq)) X_FG_GROUPS = None | _ \<Rightarrow> False)"
    by code_simp
  then obtain gq outcomes where run: "?run = Some (NextRun gq, outcomes)"
      "map_of (projected_headers (gq_identity gq) (gq_decision gq)) X_FG_USER_ID = Some ''alice''"
      "map_of (projected_headers (gq_identity gq) (gq_decision gq)) X_FG_GROUPS = None"
    by (auto split: option.splits prod.splits layer_response.splits)
  have names: "\<forall>n \<in> set FG_HEADER_NAMES. hl_name ex_http n = Some n" by (simp add: ex_http_def)
  have "X_FG_USER_ID \<in> set PROTECTED_FG_HEADERS" "X_FG_GROUPS \<in> set PROTECTED_FG_HEADERS"
    by (simp_all add: PROTECTED_FG_HEADERS_def)
  with axum_headers_authentic [OF names run(1)] run
  show ?thesis by (intro exI [of _ gq] exI [of _ outcomes]) (simp add: ex_http_def)
qed

text \<open>The proxy and the library project an identity in the same way.\<close>

lemma identity_headers_eq_injected:
  "identity_headers i = inject_headers (identity_projection_new to_json i None None)"
  by (auto simp: identity_headers_def inject_headers_def identity_projection_new_def split: option.splits)

lemma axum_signature_verifies_parts:
  assumes "crypto_laws cr"
  shows "projected_headers i r \<noteq> [] \<Longrightarrow>
      \<exists>sg. build_fg_headers cr i r (Some (key, kid)) t now =
          projected_headers i r @ [(X_FG_TRACE_ID, t), (X_FG_TIMESTAMP, show_u64 now), (X_FG_KEY_ID, key_id_str kid), (X_FG_SIGNATURE, sg)] \<and>
        and_then (parse_signature_header cr sg)
          (sig_verify cr (ed_public cr key) (canonical_payload t now (projected_headers i r))) = Inr ()"
    "build_fg_headers cr None None (Some (key, kid)) t now = []"
proof -
  show "\<exists>sg. build_fg_headers cr i r (Some (key, kid)) t now =
          projected_headers i r @ [(X_FG_TRACE_ID, t), (X_FG_TIMESTAMP, show_u64 now), (X_FG_KEY_ID, key_id_str kid), (X_FG_SIGNATURE, sg)] \<and>
        and_then (parse_signature_header cr sg)
          (sig_verify cr (ed_public cr key) (canonical_payload t now (projected_headers i r))) = Inr ()"
    if "projected_headers i r \<noteq> []"
  proof -
    define s where "s = ed_sign cr key (canonical_payload t now (projected_headers i r))"
    have "parse_signature_header cr (''v1:'' @ b64_encode cr (sig_to_bytes cr s)) = Inr s"
      by (rule parse_signature_header_sign [OF assms])
    moreover have "ed_verify cr (ed_public cr key) (canonical_payload t now (projected_headers i r)) s"
      using assms by (simp add: crypto_laws_def s_def)
    ultimately show ?thesis using that
      by (intro exI [of _ "''v1:'' @ b64_encode cr (sig_to_bytes cr s)"])
        (simp add: build_fg_headers_def Let_def signing_tail_def sign_def signature_header_value_def s_def
          timestamp_header_value_def key_id_header_value_def sig_verify_def)
  qed
  show "build_fg_headers cr None None (Some (key, kid)) t now = []"
    by (simp add: build_fg_headers_def projected_headers_def)
qed

text \<open>
  What the library signs verifies. With a signing key and anything to project, the headers it adds are the
  projected ones followed by trace id, timestamp, key id and signature, and the signature header parses and
  verifies under the key's public half over the canonical payload of the projected headers. With no
  identity and no record there is nothing to sign and no signature is made.
\<close>

theorem axum_signature_verifies:
  assumes "crypto_laws cr"
  shows "(projected_headers i r \<noteq> [] \<longrightarrow>
      (\<exists>sg. build_fg_headers cr i r (Some (key, kid)) t now =
          projected_headers i r @ [(X_FG_TRACE_ID, t), (X_FG_TIMESTAMP, show_u64 now), (X_FG_KEY_ID, key_id_str kid), (X_FG_SIGNATURE, sg)] \<and>
        and_then (parse_signature_header cr sg)
          (sig_verify cr (ed_public cr key) (canonical_payload t now (projected_headers i r))) = Inr ())) \<and>
    build_fg_headers cr None None (Some (key, kid)) t now = []"
  using axum_signature_verifies_parts [OF assms] by blast

definition ex_decision :: "fgrn list \<Rightarrow> native_id list \<Rightarrow> decision_record" where
  "ex_decision us gs = \<lparr>dr_decision = DAllow, dr_snapshot_version = SnapshotVersion [], dr_revision = 3,
     dr_scope_path = ScopePath us, dr_entitlements = [], dr_granted_ids = gs\<rparr>"

theorem axum_signature_verifies_witness:
  "\<exists>sg. (X_FG_SIGNATURE, sg) \<in>
     set (build_fg_headers toy_crypto (None :: nat identity option) (Some (ex_decision [ex_acme] [])) (Some ((), KeyId ''k1'')) ''t1'' 5)"
proof -
  have "projected_headers (None :: nat identity option) (Some (ex_decision [ex_acme] [])) \<noteq> []"
    by (simp add: projected_headers_def record_headers_def)
  with axum_signature_verifies [OF toy_crypto_laws, of "None :: nat identity option" "Some (ex_decision [ex_acme] [])" "()" "KeyId ''k1''" "''t1''" 5]
  obtain sg where "build_fg_headers toy_crypto (None :: nat identity option) (Some (ex_decision [ex_acme] [])) (Some ((), KeyId ''k1'')) ''t1'' 5 =
      projected_headers (None :: nat identity option) (Some (ex_decision [ex_acme] [])) @
        [(X_FG_TRACE_ID, ''t1''), (X_FG_TIMESTAMP, show_u64 5), (X_FG_KEY_ID, key_id_str (KeyId ''k1'')), (X_FG_SIGNATURE, sg)]"
    by blast
  then show ?thesis by (intro exI [of _ sg]) simp
qed

text \<open>
  The names of the signing headers are not stripped: without a signing key a client's own signature headers
  reach the application.
\<close>

lemma unsigned_guard_passes_signature_headers:
  assumes "\<forall>n \<in> set FG_HEADER_NAMES. hl_name hl n = Some n" "fg_signing fg = None"
    "n \<in> set [X_FG_TRACE_ID, X_FG_TIMESTAMP, X_FG_KEY_ID, X_FG_SIGNATURE]"
  shows "header_values n (gq_headers (axum_forward hl cr fg req t now i flags rec)) = header_values n (hr_headers req)"
proof -
  let ?xs = "build_fg_headers cr i rec None t now"
  have "\<forall>h \<in> set ?xs. hl_name hl (fst h) = Some (fst h)"
    using assms(1) fg_header_names(1) [of cr i rec None t now] by (auto simp: subset_iff)
  moreover have n: "n \<notin> set PROTECTED_FG_HEADERS" using assms(3) signing_names_unprotected by blast
  then have "map_of ?xs n = None"
    using projected_header_names(1) [of i rec] by (auto simp: build_fg_headers_def map_of_eq_None_iff)
  ultimately show ?thesis
    using header_values_insert_all [OF _ fg_header_names(2), of cr i rec None t now hl n] n
    by (simp add: axum_forward_def assms(2) header_values_strip)
qed

section \<open>Rows that the session shows\<close>

lemma join_Nil_iff: "join sep xs = [] \<longleftrightarrow> xs = [] \<or> xs = [[]] \<or> (sep = [] \<and> (\<forall>x \<in> set xs. x = []))"
  by (induction sep xs rule: join.induct) auto

lemma split_on_join:
  "xs \<noteq> [] \<Longrightarrow> \<forall>x \<in> set xs. d \<notin> set x \<Longrightarrow> split_on d (join [d] xs) = xs"
  by (induction "[d]" xs rule: join.induct) auto

lemma split_on_join_more:
  "xs \<noteq> [] \<Longrightarrow> \<forall>x \<in> set xs. d \<notin> set x \<Longrightarrow> split_on d (join [d] xs @ d # s) = xs @ split_on d s"
  by (induction "[d]" xs rule: join.induct) auto

lemma join_append:
  "xs \<noteq> [] \<Longrightarrow> ys \<noteq> [] \<Longrightarrow> join sep (xs @ ys) = join sep xs @ sep @ join sep ys"
  by (induction sep xs rule: join.induct) (auto simp: join_Cons)

lemma join_prefix_iff:
  assumes "us \<noteq> []" "vs \<noteq> []" "\<forall>x \<in> set us. d \<notin> set x" "\<forall>x \<in> set vs. d \<notin> set x"
  shows "(join [d] vs = join [d] us \<or> starts_with (join [d] vs) (join [d] us @ [d])) \<longleftrightarrow> (\<exists>ws. vs = us @ ws)"
proof
  assume "join [d] vs = join [d] us \<or> starts_with (join [d] vs) (join [d] us @ [d])"
  then consider "join [d] vs = join [d] us" | s where "join [d] vs = join [d] us @ d # s"
    by (auto simp: starts_with_iff)
  then show "\<exists>ws. vs = us @ ws"
  proof cases
    case 1
    then show ?thesis using split_on_join [OF assms(1,3)] split_on_join [OF assms(2,4)] by simp
  next
    case 2
    then have "vs = us @ split_on d s"
      using split_on_join_more [OF assms(1,3), of s] split_on_join [OF assms(2,4)] by simp
    then show ?thesis ..
  qed
next
  assume "\<exists>ws. vs = us @ ws"
  then obtain ws where ws: "vs = us @ ws" by (elim exE)
  show "join [d] vs = join [d] us \<or> starts_with (join [d] vs) (join [d] us @ [d])"
  proof (cases "ws = []")
    case False
    then show ?thesis by (simp add: ws join_append [OF assms(1)] starts_with_iff)
  qed (simp add: ws)
qed

lemma session_setting_statements:
  "session_setting (session_statements c) ''fg.scope_path'' = rls_scope_path c"
  "session_setting (session_statements c) ''fg.granted_ids'' = join '','' (rls_granted_ids c)"
  "session_setting (session_statements c) ''fg.principal_id'' = rls_principal_id c"
  by (simp_all add: session_setting_def session_statements_def quoted_def)

definition scope_ids :: "scope_path \<Rightarrow> string list" where
  "scope_ids p = map (\<lambda>u. nid_str (fgrn_id u)) (scope_units p)"

text \<open>
  C28. The session variables of a request show exactly the rows that its decision allows, in each of the four
  templates: in \<open>owner\<close> mode the rows of the authenticated user, in \<open>scope\<close> mode the rows at or below
  the principal's unit, in \<open>grants-only\<close> mode the rows granted, in \<open>scope-with-grants\<close> mode both. The
  separators must not occur in the identifiers: no slash in a unit's id and no comma in a granted id.
\<close>

theorem rls_session_exact:
  assumes "gq_identity gq = Some i" "gq_decision gq = Some rec"
    and "seg_str (id_user_id i) \<noteq> []" "scope_ids (dr_scope_path rec) \<noteq> []" "scope_ids q \<noteq> []"
    and "\<forall>x \<in> set (scope_ids (dr_scope_path rec)) \<union> set (scope_ids q). x \<noteq> [] \<and> CHR ''/'' \<notin> set x"
    and "\<forall>g \<in> set (dr_granted_ids rec). nid_str g \<noteq> [] \<and> CHR '','' \<notin> set (nid_str g)"
    and "rw_scope_path row = scope_path_display q"
  shows "rls_policy t (session_setting (session_statements (rls_from_request (Some gq)))) row \<longleftrightarrow>
    (let scoped = (\<exists>ws. scope_ids q = scope_ids (dr_scope_path rec) @ ws);
         granted = (rw_id row \<in> nid_str ` set (dr_granted_ids rec)) in
     case t of Owner \<Rightarrow> rw_owner_id row = seg_str (id_user_id i) | Scope \<Rightarrow> scoped | ScopeWithGrants \<Rightarrow> scoped \<or> granted
     | GrantsOnly \<Rightarrow> granted)"
proof -
  let ?us = "scope_ids (dr_scope_path rec)" and ?gs = "map nid_str (dr_granted_ids rec)"
  have "join ''/'' ?us \<noteq> []" using assms(4,6) by (auto simp: join_Nil_iff)
  then have scope: "sql_scope (join ''/'' ?us) (rw_scope_path row) \<longleftrightarrow> (\<exists>ws. scope_ids q = ?us @ ws)"
    using join_prefix_iff [OF assms(4,5), of "CHR ''/''"] assms(6,8)
    by (simp add: sql_scope_def scope_path_display_def scope_ids_def)
  have grants: "sql_grants (join '','' ?gs) (rw_id row) \<longleftrightarrow> rw_id row \<in> nid_str ` set (dr_granted_ids rec)"
  proof (cases "?gs = []")
    case False
    then have "join '','' ?gs \<noteq> []" using assms(7) by (auto simp: join_Nil_iff)
    moreover have "split_on CHR '','' (join '','' ?gs) = ?gs" using assms(7) False by (intro split_on_join) auto
    ultimately show ?thesis by (simp add: sql_grants_def)
  qed (simp add: sql_grants_def)
  have ctx: "rls_from_request (Some gq) =
      \<lparr>rls_scope_path = join ''/'' ?us, rls_granted_ids = ?gs, rls_principal_id = seg_str (id_user_id i)\<rparr>"
    by (simp add: rls_from_request_def assms(1,2) scope_path_display_def scope_ids_def)
  show ?thesis
    using scope grants assms(3) by (cases t) (simp_all add: session_setting_statements ctx)
qed

text \<open>Without a decision record no template but \<open>owner\<close> shows a row, and without the middleware none does.\<close>

lemma rls_fail_closed:
  "gq_decision gq = None \<Longrightarrow> t \<noteq> Owner \<Longrightarrow>
    \<not> rls_policy t (session_setting (session_statements (rls_from_request (Some gq)))) row"
  "\<not> rls_policy t (session_setting (session_statements (rls_from_request None))) row"
  by (cases t; simp add: session_setting_statements rls_from_request_def sql_scope_def sql_grants_def)+

definition ex_guarded :: "decision_record \<Rightarrow> nat guarded_request" where
  "ex_guarded rec = \<lparr>gq_headers = [],
     gq_identity = Some \<lparr>id_user_id = Segment ''alice'', id_tenant_id = None, id_groups = [], id_expiry = None,
       id_resolver = ''static_api_key'', id_extra = None, id_principal_kind = principal_ref_kind.User\<rparr>,
     gq_flags = None, gq_decision = Some rec\<rparr>"

theorem rls_session_exact_witness:
  "rls_policy Scope (session_setting (session_statements (rls_from_request
     (Some (ex_guarded (ex_decision [ex_acme] [NativeId ''7'']))))))
     \<lparr>rw_id = ''1'', rw_scope_path = ''root/eng'', rw_owner_id = ''bob''\<rparr>"
proof -
  have "scope_path_display (ScopePath [ex_acme, ex_eng]) = ''root/eng''" by code_simp
  then show ?thesis
    using rls_session_exact [of "ex_guarded (ex_decision [ex_acme] [NativeId ''7''])" _ "ex_decision [ex_acme] [NativeId ''7'']"
        "ScopePath [ex_acme, ex_eng]" "\<lparr>rw_id = ''1'', rw_scope_path = ''root/eng'', rw_owner_id = ''bob''\<rparr>" Scope]
    by (simp add: ex_guarded_def ex_decision_def scope_ids_def ex_acme_def ex_eng_def fgrn_org_unit_def fgrn_new_def)
qed

text \<open>
  The hypotheses on separators of the previous property are not promised by the identifier types: a native
  id may hold a comma or a slash, and then the session shows rows of somebody else. With the single grant
  of the resource \<open>1,2\<close> the row \<open>2\<close> is visible, and a principal of the unit \<open>eng\<close> sees the rows of
  its sibling unit \<open>eng/ops\<close>.
\<close>

theorem rls_separator_leak:
  "is_ok (native_id_try_new ''1,2'') \<and>
   rls_policy GrantsOnly (session_setting (session_statements (rls_from_request
     (Some (ex_guarded (ex_decision [ex_acme] [NativeId ''1,2'']))))))
     \<lparr>rw_id = ''2'', rw_scope_path = ''root'', rw_owner_id = ''bob''\<rparr> \<and>
   is_ok (native_id_try_new ''eng/ops'') \<and>
   rls_policy Scope (session_setting (session_statements (rls_from_request
     (Some (ex_guarded (ex_decision [ex_acme, ex_eng] []))))))
     \<lparr>rw_id = ''2'', rw_scope_path = scope_path_display (ScopePath [ex_acme, fgrn_org_unit (Segment ''acme'') (NativeId ''eng/ops'')]),
       rw_owner_id = ''bob''\<rparr>"
  by code_simp

end
