(* ===== verification/Cp_Engine.thy ===== *)
theory Cp_Engine
  imports Snapshots Policy_Query
begin

text \<open>
  The control plane's own Cedar engine (\<open>crates/authz-core/src/engine_cp\<close>): the entities and the
  request of one query (\<open>entities.rs\<close>) and the decision (\<open>engine.rs\<close>). The Cedar library is the record
  of \<open>Snapshots\<close>; what tenant isolation needs of it is the hypothesis \<open>tenant_scoping\<close>.
\<close>

section \<open>Entities and requests\<close>

definition cp_uid :: "('ps, 'en, 'rq) cedar \<Rightarrow> string \<Rightarrow> string \<Rightarrow> (string, entity_uid) result" where
  "cp_uid cd t i =
     and_then (map_err (\<lambda>e. ''bad entity type '' @ t @ '': '' @ e) (cd_type_name cd t)) (\<lambda>_. Inr (t, i))"

definition org_id_attr :: "string \<Rightarrow> (string \<times> string) list" where
  "org_id_attr v = [(''org_id'', v)]"

definition cp_entity ::
    "('ps, 'en, 'rq) cedar \<Rightarrow> string \<Rightarrow> entity_uid \<Rightarrow> (string \<times> string) list \<Rightarrow> entity_uid set \<Rightarrow> (string, cedar_entity) result" where
  "cp_entity cd label u attrs parents =
     (let e = \<lparr>ce_uid = u, ce_attrs = attrs, ce_parents = parents\<rparr> in
      and_then (map_err (\<lambda>m. label @ '' entity: '' @ m) (cd_entity cd e)) (\<lambda>_. Inr e))"

fun cp_group_entities ::
    "('ps, 'en, 'rq) cedar \<Rightarrow> string \<Rightarrow> group_name list \<Rightarrow> (string, cedar_entity list) result" where
  "cp_group_entities cd group_type [] = Inr []"
| "cp_group_entities cd group_type (g # gs) =
     and_then (cp_uid cd group_type (seg_str g)) (\<lambda>u.
     and_then (cp_entity cd ''group'' u [] {}) (\<lambda>e.
     and_then (cp_group_entities cd group_type gs) (\<lambda>es. Inr (e # es))))"

definition cp_principal_entities ::
    "('ps, 'en, 'rq) cedar \<Rightarrow> principal_ref \<Rightarrow> group_name list \<Rightarrow> project_id \<Rightarrow> tenant_id \<Rightarrow> (string, cedar_entity list) result" where
  "cp_principal_entities cd p groups project tenant =
     and_then (cp_uid cd (prf_vp_entity_type p project) (vp_raw (prf_to_fgrn p project tenant))) (\<lambda>u.
     case prf_kind p of
       Machine \<Rightarrow> and_then (cp_entity cd ''machine'' u (org_id_attr (seg_str tenant)) {}) (\<lambda>e. Inr [e])
     | User \<Rightarrow>
         and_then (cp_group_entities cd (vp_group_entity_type project) groups) (\<lambda>gs.
         and_then (cp_entity cd ''user'' u (org_id_attr (seg_str tenant)) (ce_uid ` set gs)) (\<lambda>e. Inr (gs @ [e]))))"

definition resource_org_id :: "resource_ref \<Rightarrow> tenant_id \<Rightarrow> string" where
  "resource_org_id r tenant =
     (case rr_org_source r of OwnId \<Rightarrow> rid_str (rr_id r) | RequestTenant \<Rightarrow> seg_str tenant)"

definition cp_resource_entities ::
    "('ps, 'en, 'rq) cedar \<Rightarrow> resource_ref option \<Rightarrow> project_id \<Rightarrow> tenant_id \<Rightarrow> (string, cedar_entity list) result" where
  "cp_resource_entities cd resource project tenant =
     (case resource of
        None \<Rightarrow> Inr []
      | Some r \<Rightarrow>
          and_then (cp_uid cd (rr_vp_entity_type r project) (vp_raw (rr_to_fgrn r project tenant))) (\<lambda>u.
          and_then (cp_entity cd ''resource'' u (org_id_attr (resource_org_id r tenant)) {}) (\<lambda>e. Inr [e])))"

definition cp_entity_list ::
    "('ps, 'en, 'rq) cedar \<Rightarrow> principal_ref \<Rightarrow> group_name list \<Rightarrow> resource_ref option \<Rightarrow> project_id \<Rightarrow> tenant_id
      \<Rightarrow> (string, cedar_entity list) result" where
  "cp_entity_list cd p groups resource project tenant =
     and_then (cp_principal_entities cd p groups project tenant) (\<lambda>ps.
     and_then (cp_resource_entities cd resource project tenant) (\<lambda>rs. Inr (ps @ rs)))"

definition build_cp_entities ::
    "('ps, 'en, 'rq) cedar \<Rightarrow> principal_ref \<Rightarrow> group_name list \<Rightarrow> resource_ref option \<Rightarrow> project_id \<Rightarrow> tenant_id
      \<Rightarrow> (string, 'en) result" where
  "build_cp_entities cd p groups resource project tenant =
     and_then (cp_entity_list cd p groups resource project tenant) (\<lambda>es.
     map_err (\<lambda>m. ''entities: '' @ m) (cd_entities cd es))"

definition build_cp_request ::
    "('ps, 'en, 'rq) cedar \<Rightarrow> principal_ref \<Rightarrow> qualified_action \<Rightarrow> resource_ref option \<Rightarrow> project_id \<Rightarrow> tenant_id
      \<Rightarrow> (string, 'rq) result" where
  "build_cp_request cd p action resource project tenant =
     and_then (cp_uid cd (prf_vp_entity_type p project) (vp_raw (prf_to_fgrn p project tenant))) (\<lambda>pu.
     and_then (cp_uid cd (vp_action_type action project) (vp_action_id action)) (\<lambda>au.
     case resource of
       None \<Rightarrow> Inl ''cp:* queries always carry a resource''
     | Some r \<Rightarrow>
         and_then (cp_uid cd (rr_vp_entity_type r project) (vp_raw (rr_to_fgrn r project tenant))) (\<lambda>ru.
         map_err (\<lambda>m. ''request: '' @ m) (cd_request cd pu au ru))))"

section \<open>The decision\<close>

definition cp_decide ::
    "('ps, 'en, 'rq) cedar \<Rightarrow> 'ps snapshot \<Rightarrow> project_id \<Rightarrow> 'n policy_query \<Rightarrow> policy_decision" where
  "cp_decide cd snap project q =
     (case px_tenant_id (pq_context q) of
        None \<Rightarrow> PDeny NoMatchingPolicy
      | Some tenant \<Rightarrow>
          (case and_then (build_cp_entities cd (pq_principal q) (px_groups (pq_context q)) (pq_resource q) project tenant)
                  (\<lambda>entities.
                and_then (build_cp_request cd (pq_principal q) (pq_action q) (pq_resource q) project tenant)
                  (\<lambda>request. Inr (entities, request))) of
             Inr (entities, request) \<Rightarrow>
               if cd_is_authorized cd request (sn_policies snap) entities then PAllow else PDeny NoMatchingPolicy
           | Inl e \<Rightarrow> PDeny (EvaluationError e)))"

definition cp_evaluate ::
    "('ps, 'en, 'rq) cedar \<Rightarrow> 'ps snapshot \<Rightarrow> project_id \<Rightarrow> 'n policy_query \<Rightarrow> (authz_error, 'd evaluated_decision) result" where
  "cp_evaluate cd snap project q = Inr (decision_bare (cp_decide cd snap project q))"

definition cp_engine :: "('ps, 'en, 'rq) cedar \<Rightarrow> 'ps snapshot \<Rightarrow> project_id \<Rightarrow> ('n, 'd, authz_error) policy_engine" where
  "cp_engine cd snap project = \<lparr>pe_evaluate = cp_evaluate cd snap project, pe_cache_stats = None\<rparr>"

section \<open>Tenant isolation\<close>

text \<open>
  What the library promises for policies whose permits all carry the compiled clause
  \<open>when { principal.org_id == resource.org_id }\<close>: \<open>Entities::from_entities\<close> refuses two entities with one
  uid, and an allow means that the principal and the resource of the request both have the
  attribute, with the same value.
\<close>

definition tenant_scoping :: "('ps, 'en, 'rq) cedar \<Rightarrow> 'ps \<Rightarrow> bool" where
  "tenant_scoping cd ps \<longleftrightarrow>
     (\<forall>es en. cd_entities cd es = Inr en \<longrightarrow> distinct (map ce_uid es)) \<and>
     (\<forall>es en p a r rq. cd_entities cd es = Inr en \<longrightarrow> cd_request cd p a r = Inr rq \<longrightarrow> cd_is_authorized cd rq ps en \<longrightarrow>
        (\<exists>pe \<in> set es. \<exists>re \<in> set es. \<exists>v. ce_uid pe = p \<and> ce_uid re = r \<and>
           map_of (ce_attrs pe) ''org_id'' = Some v \<and> map_of (ce_attrs re) ''org_id'' = Some v))"

lemma cp_uid_Inr: "cp_uid cd t i = Inr u \<Longrightarrow> u = (t, i)"
  by (auto simp: cp_uid_def)

lemma cp_entity_Inr: "cp_entity cd l u at ps = Inr e \<Longrightarrow> e = \<lparr>ce_uid = u, ce_attrs = at, ce_parents = ps\<rparr>"
  by (auto simp: cp_entity_def Let_def)

lemma cp_principal_entity:
  "cp_principal_entities cd p groups project tenant = Inr es \<Longrightarrow>
     \<exists>e \<in> set es. ce_uid e = (prf_vp_entity_type p project, vp_raw (prf_to_fgrn p project tenant)) \<and>
       ce_attrs e = org_id_attr (seg_str tenant)"
  by (cases "prf_kind p") (auto simp: cp_principal_entities_def dest!: cp_uid_Inr cp_entity_Inr)

lemma cp_resource_entity:
  "cp_resource_entities cd (Some r) project tenant = Inr es \<Longrightarrow>
     \<exists>e \<in> set es. ce_uid e = (rr_vp_entity_type r project, vp_raw (rr_to_fgrn r project tenant)) \<and>
       ce_attrs e = org_id_attr (resource_org_id r tenant)"
  by (auto simp: cp_resource_entities_def dest!: cp_uid_Inr cp_entity_Inr)

lemma cp_decide_allow:
  assumes "cp_decide cd snap project q = PAllow"
  obtains tenant r es en rq where "px_tenant_id (pq_context q) = Some tenant" "pq_resource q = Some r"
    "cp_entity_list cd (pq_principal q) (px_groups (pq_context q)) (Some r) project tenant = Inr es"
    "cd_entities cd es = Inr en"
    "cd_request cd (prf_vp_entity_type (pq_principal q) project, vp_raw (prf_to_fgrn (pq_principal q) project tenant))
       (vp_action_type (pq_action q) project, vp_action_id (pq_action q))
       (rr_vp_entity_type r project, vp_raw (rr_to_fgrn r project tenant)) = Inr rq"
    "cd_is_authorized cd rq (sn_policies snap) en"
  using assms
  by (auto simp: cp_decide_def build_cp_entities_def build_cp_request_def dest!: cp_uid_Inr
      split: option.splits sum.splits if_splits)

lemma distinct_uid_eq: "distinct (map ce_uid es) \<Longrightarrow> a \<in> set es \<Longrightarrow> b \<in> set es \<Longrightarrow> ce_uid a = ce_uid b \<Longrightarrow> a = b"
  by (auto simp: distinct_map inj_on_def)

text \<open>
  C7. Tenant isolation of the control plane. Under tenant-scoped policies, the engine allows a query
  only when the query has a tenant and a resource, and the resource is scoped to the tenant of the
  request: a resource that is an organization of its own is the requester's organization.
\<close>

theorem cp_tenant_isolation:
  assumes "tenant_scoping cd (sn_policies snap)" "cp_decide cd snap project q = PAllow"
  shows "\<exists>tenant r. px_tenant_id (pq_context q) = Some tenant \<and> pq_resource q = Some r \<and>
    (rr_org_source r = OwnId \<longrightarrow> rid_str (rr_id r) = seg_str tenant)"
proof -
  obtain tenant r es en rq where q: "px_tenant_id (pq_context q) = Some tenant" "pq_resource q = Some r"
    "cp_entity_list cd (pq_principal q) (px_groups (pq_context q)) (Some r) project tenant = Inr es"
    "cd_entities cd es = Inr en"
    "cd_request cd (prf_vp_entity_type (pq_principal q) project, vp_raw (prf_to_fgrn (pq_principal q) project tenant))
       (vp_action_type (pq_action q) project, vp_action_id (pq_action q))
       (rr_vp_entity_type r project, vp_raw (rr_to_fgrn r project tenant)) = Inr rq"
    "cd_is_authorized cd rq (sn_policies snap) en"
    using assms(2) by (rule cp_decide_allow)
  obtain pe re v where e: "pe \<in> set es" "re \<in> set es"
      "ce_uid pe = (prf_vp_entity_type (pq_principal q) project, vp_raw (prf_to_fgrn (pq_principal q) project tenant))"
      "ce_uid re = (rr_vp_entity_type r project, vp_raw (rr_to_fgrn r project tenant))"
      "map_of (ce_attrs pe) ''org_id'' = Some v" "map_of (ce_attrs re) ''org_id'' = Some v"
    using assms(1) q(4-6) unfolding tenant_scoping_def by blast
  have d: "distinct (map ce_uid es)" using assms(1) q(4) unfolding tenant_scoping_def by blast
  obtain ps rs where l: "cp_principal_entities cd (pq_principal q) (px_groups (pq_context q)) project tenant = Inr ps"
      "cp_resource_entities cd (Some r) project tenant = Inr rs" "es = ps @ rs"
    using q(3) by (auto simp: cp_entity_list_def)
  obtain pe' where pe': "pe' \<in> set es" "ce_uid pe' = ce_uid pe" "ce_attrs pe' = org_id_attr (seg_str tenant)"
    using cp_principal_entity [OF l(1)] l(3) e(3) by auto
  obtain re' where re': "re' \<in> set es" "ce_uid re' = ce_uid re" "ce_attrs re' = org_id_attr (resource_org_id r tenant)"
    using cp_resource_entity [OF l(2)] l(3) e(4) by auto
  have "pe' = pe" "re' = re" using distinct_uid_eq [OF d] pe'(1,2) re'(1,2) e(1,2) by blast+
  then have "resource_org_id r tenant = seg_str tenant" using e(5,6) pe'(3) re'(3) by (simp add: org_id_attr_def)
  then have "rr_org_source r = OwnId \<longrightarrow> rid_str (rr_id r) = seg_str tenant" by (auto simp: resource_org_id_def)
  with q(1,2) show ?thesis by blast
qed

text \<open>A concrete library that satisfies the hypothesis: it checks exactly the tenant clause.\<close>

definition same_org :: "cedar_entity list \<Rightarrow> entity_uid \<Rightarrow> entity_uid \<Rightarrow> bool" where
  "same_org es p r =
     list_ex (\<lambda>pe. ce_uid pe = p \<and> list_ex (\<lambda>re. ce_uid re = r \<and>
       map_of (ce_attrs pe) ''org_id'' \<noteq> None \<and> map_of (ce_attrs pe) ''org_id'' = map_of (ce_attrs re) ''org_id'') es) es"

definition scoping_cedar :: "(string, cedar_entity list, entity_uid \<times> entity_uid) cedar" where
  "scoping_cedar =
     \<lparr>cd_type_name = \<lambda>_. Inr (), cd_policy_set = Inr, cd_entity = \<lambda>_. Inr (),
      cd_entities = \<lambda>es. if distinct (map ce_uid es) then Inr es else Inl ''duplicate'',
      cd_request = \<lambda>p a r. Inr (p, r), cd_is_authorized = \<lambda>(p, r) _ es. same_org es p r, cd_debug = dquoted\<rparr>"

definition ex_cp_query :: "nat policy_query" where
  "ex_cp_query =
     \<lparr>pq_principal = principal_ref_new (Segment ''alice''),
      pq_action = \<lparr>qa_namespace = UserNs (Segment ''cp''), qa_action = Action (Segment ''read''),
                   qa_entity = Entity (Segment ''organization'')\<rparr>,
      pq_resource = Some \<lparr>rr_namespace = UserNs (Segment ''cp''), rr_entity = Entity (Segment ''organization''),
                          rr_id = ResourceId (Segment ''acme''), rr_cedar_entity_type = None, rr_org_source = OwnId\<rparr>,
      pq_context = with_tenant policy_context_new (Segment ''acme'')\<rparr>"

theorem cp_tenant_isolation_witness:
  "\<exists>tenant r. px_tenant_id (pq_context ex_cp_query) = Some tenant \<and> pq_resource ex_cp_query = Some r \<and>
    (rr_org_source r = OwnId \<longrightarrow> rid_str (rr_id r) = seg_str tenant)"
proof (rule cp_tenant_isolation)
  show "cp_decide scoping_cedar \<lparr>sn_policies = [], sn_policy_text = [], sn_version = SnapshotVersion []\<rparr> (Segment ''fg'') ex_cp_query = PAllow"
    by code_simp
  show "tenant_scoping scoping_cedar (sn_policies \<lparr>sn_policies = [], sn_policy_text = [], sn_version = SnapshotVersion []\<rparr>)"
    by (fastforce simp: tenant_scoping_def scoping_cedar_def same_org_def list_ex_iff split: if_splits)
qed

end
