(* ===== verification/Key_Ring.thy ===== *)
theory Key_Ring
  imports Org_Lifecycle Rbac Signing Json
begin

text \<open>
  The request-signing keys of an organization in the control plane: errors (\<open>error.rs\<close>), key entries, their
  status and the pure operations on the list of keys (\<open>signing_key.rs\<close>), and the transitions that the
  event stores append (\<open>model_event_store/support.rs\<close>). A timestamp counts nanoseconds. Reading and
  printing RFC 3339 dates, which chrono does, are arguments.
\<close>

section \<open>Errors\<close>

datatype cp_error =
    CpConfig string
  | CpConflict string
  | CpNotFound string
  | CpRevisionMismatch nat
  | CpInvalidEtag string
  | CpStore string
  | CpValidation group_validation_error
  | CpDeleteConflict "string list" "(string \<times> nat) list"

section \<open>Key entries\<close>

record chrono_lib =
  ch_to_rfc3339 :: "timestamp \<Rightarrow> string"
  ch_parse_rfc3339 :: "string \<Rightarrow> (string, timestamp) result"
  ch_serde :: "timestamp \<Rightarrow> string"

text \<open>A date printed in RFC 3339 is read back.\<close>

definition chrono_laws :: "chrono_lib \<Rightarrow> bool" where
  "chrono_laws ch \<longleftrightarrow> (\<forall>t. ch_parse_rfc3339 ch (ch_to_rfc3339 ch t) = Inr t)"

definition HOUR :: timestamp where "HOUR = 3600 * 1000000000"

definition ROTATION_GRACE_HOURS :: int where "ROTATION_GRACE_HOURS = 24"

datatype key_status = KeyActive | KeyRotating timestamp | KeyRevoked

fun key_status_display :: "chrono_lib \<Rightarrow> key_status \<Rightarrow> string" where
  "key_status_display ch KeyActive = ''Active''"
| "key_status_display ch (KeyRotating t) = ''Rotating('' @ ch_to_rfc3339 ch t @ '')''"
| "key_status_display ch KeyRevoked = ''Revoked''"

definition key_status_from_str :: "chrono_lib \<Rightarrow> string \<Rightarrow> (cp_error, key_status) result" where
  "key_status_from_str ch s =
     (if s = ''Active'' then Inr KeyActive
      else if s = ''Revoked'' then Inr KeyRevoked
      else case Option.bind (strip_prefix ''Rotating('' s) (strip_suffix '')'') of
          Some inner \<Rightarrow>
            and_then (map_err (\<lambda>e. CpStore (''invalid expires_at in Rotating: '' @ e)) (ch_parse_rfc3339 ch inner)) (\<lambda>t.
            Inr (KeyRotating t))
        | None \<Rightarrow> Inl (CpStore (''unknown SigningKeyStatus: '' @ s)))"

record signing_key_entry =
  ke_key_id :: string
  ke_public_key_pem :: string
  ke_status :: key_status
  ke_created_at :: timestamp
  ke_expires_at :: "timestamp option"

definition signing_key_entry_new ::
    "string \<Rightarrow> string \<Rightarrow> key_status \<Rightarrow> timestamp \<Rightarrow> timestamp option \<Rightarrow> (cp_error, signing_key_entry) result" where
  "signing_key_entry_new key_id pem status created_at expires_at =
     (if key_id = [] then Inl (CpStore ''key_id must not be empty'')
      else Inr \<lparr>ke_key_id = key_id, ke_public_key_pem = pem, ke_status = status, ke_created_at = created_at,
             ke_expires_at = expires_at\<rparr>)"

definition key_is_active :: "signing_key_entry \<Rightarrow> timestamp \<Rightarrow> bool" where
  "key_is_active e now =
     (case ke_status e of KeyActive \<Rightarrow> True | KeyRotating t \<Rightarrow> now < t | KeyRevoked \<Rightarrow> False)"

definition key_revoke :: "signing_key_entry \<Rightarrow> signing_key_entry" where
  "key_revoke e = e\<lparr>ke_status := KeyRevoked, ke_expires_at := None\<rparr>"

definition begin_rotating :: "timestamp \<Rightarrow> signing_key_entry \<Rightarrow> signing_key_entry" where
  "begin_rotating t e = e\<lparr>ke_status := KeyRotating t, ke_expires_at := Some t\<rparr>"

record generate_key_result =
  gk_key_id :: string
  gk_private_key_pem :: string
  gk_public_key_pem :: string
  gk_created_at :: timestamp

definition to_entry :: "generate_key_result \<Rightarrow> (cp_error, signing_key_entry) result" where
  "to_entry g = signing_key_entry_new (gk_key_id g) (gk_public_key_pem g) KeyActive (gk_created_at g) None"

text \<open>The JSON that the derived serializers write: the status is an object tagged by \<open>status\<close>.\<close>

fun key_status_json :: "chrono_lib \<Rightarrow> key_status \<Rightarrow> 'n json" where
  "key_status_json ch KeyActive = JObj [(''status'', JStr ''Active'')]"
| "key_status_json ch (KeyRotating t) = JObj [(''status'', JStr ''Rotating''), (''expires_at'', JStr (ch_serde ch t))]"
| "key_status_json ch KeyRevoked = JObj [(''status'', JStr ''Revoked'')]"

definition signing_key_entry_json :: "chrono_lib \<Rightarrow> signing_key_entry \<Rightarrow> 'n json" where
  "signing_key_entry_json ch e =
     JObj [(''key_id'', JStr (ke_key_id e)), (''public_key_pem'', JStr (ke_public_key_pem e)),
       (''status'', key_status_json ch (ke_status e)), (''created_at'', JStr (ch_serde ch (ke_created_at e))),
       (''expires_at'', case ke_expires_at e of Some t \<Rightarrow> JStr (ch_serde ch t) | None \<Rightarrow> JNull)]"

section \<open>Rotation and revocation\<close>

text \<open>\<open>Iterator::position\<close>.\<close>

fun position :: "('a \<Rightarrow> bool) \<Rightarrow> 'a list \<Rightarrow> nat option" where
  "position P [] = None"
| "position P (x # xs) = (if P x then Some 0 else map_option Suc (position P xs))"

definition rotate_entries ::
    "signing_key_entry list \<Rightarrow> string \<Rightarrow> signing_key_entry \<Rightarrow> timestamp \<Rightarrow> timestamp
      \<Rightarrow> (cp_error, signing_key_entry list) result" where
  "rotate_entries existing target new_entry now grace =
     and_then (ok_or (position (\<lambda>e. ke_key_id e = target) existing)
         (CpNotFound (''signing key '' @ quoted target @ '' not found''))) (\<lambda>i.
     case ke_status (existing ! i) of
       KeyActive \<Rightarrow> Inr (existing[i := begin_rotating (now + grace) (existing ! i)] @ [new_entry])
     | KeyRotating _ \<Rightarrow> Inl (CpConflict (''signing key '' @ quoted target @ '' is already rotating''))
     | KeyRevoked \<Rightarrow> Inl (CpConflict (''signing key '' @ quoted target @ '' is revoked'')))"

definition revoke_entries :: "signing_key_entry list \<Rightarrow> string \<Rightarrow> signing_key_entry list option" where
  "revoke_entries existing target =
     Option.bind (position (\<lambda>e. ke_key_id e = target) existing) (\<lambda>i.
     if ke_status (existing ! i) = KeyRevoked then None else Some (existing[i := key_revoke (existing ! i)]))"

type_synonym key_transition = "signing_key_entry list \<Rightarrow> (cp_error, (string \<times> signing_key_entry list) option) result"

definition generate_key_transition :: "signing_key_entry \<Rightarrow> string \<Rightarrow> key_transition" where
  "generate_key_transition new_entry key_id keys = Inr (Some (key_id, keys @ [new_entry]))"

definition revoke_key_transition :: "string \<Rightarrow> key_transition" where
  "revoke_key_transition target keys = Inr (map_option (Pair target) (revoke_entries keys target))"

definition rotate_key_transition :: "string \<Rightarrow> signing_key_entry \<Rightarrow> timestamp \<Rightarrow> timestamp \<Rightarrow> key_transition" where
  "rotate_key_transition target new_entry now grace keys =
     and_then (rotate_entries keys target new_entry now grace) (\<lambda>updated. Inr (Some (target, updated)))"

section \<open>Looking a key up\<close>

definition find_key :: "signing_key_entry list \<Rightarrow> string \<Rightarrow> signing_key_entry option" where
  "find_key keys key_id = find (\<lambda>e. ke_key_id e = key_id) keys"

text \<open>
  \<open>SigningKeyStore::get_key\<close> of the control plane: the organization's item is read (\<open>None\<close> when there is none),
  its keys are decoded, and the entry must be active; \<open>pem\<close> parses a public key.
\<close>

definition cp_get_key ::
    "chrono_lib \<Rightarrow> (string \<Rightarrow> (string, 'item option) result) \<Rightarrow> ('item \<Rightarrow> (string, signing_key_entry list) result)
      \<Rightarrow> (string \<Rightarrow> (authn_error, 'vk) result) \<Rightarrow> timestamp \<Rightarrow> 'vk key_store" where
  "cp_get_key ch get_item keys_of pem now org_id key_id =
     and_then (map_err InvalidCredential (get_item org_id)) (\<lambda>found.
     and_then (ok_or found (InvalidCredential (''organization '' @ quoted org_id @ '' not found''))) (\<lambda>item.
     and_then (map_err InvalidCredential (keys_of item)) (\<lambda>keys.
     and_then (ok_or (find_key keys key_id)
         (InvalidCredential (''signing key '' @ quoted key_id @ '' not found for org '' @ quoted org_id))) (\<lambda>e.
     if \<not> key_is_active e now then
       Inl (InvalidCredential (''key '' @ quoted key_id @ '' for org '' @ quoted org_id @
         '' is not active (status: '' @ key_status_display ch (ke_status e) @ '')''))
     else pem (ke_public_key_pem e)))))"

section \<open>Life of a key\<close>

lemma position_Some:
  "position P xs = Some i \<Longrightarrow> i < length xs \<and> P (xs ! i) \<and> find P xs = Some (xs ! i)"
  by (induction xs arbitrary: i) (auto split: if_splits)

lemma position_None: "position P xs = None \<longleftrightarrow> find P xs = None"
  by (induction xs) auto

text \<open>Replacing the entry of a key by another of the same key id changes only what is found under that id.\<close>

lemma find_key_update:
  assumes "position (\<lambda>e. ke_key_id e = k) ks = Some i" "ke_key_id e = k"
  shows "find_key (ks[i := e]) k' = (if k' = k then Some e else find_key ks k')"
  using assms unfolding find_key_def
  by (induction ks arbitrary: i) (auto split: if_splits nat.splits)

lemma find_key_append:
  "find_key (ks @ es) k = (case find_key ks k of Some e \<Rightarrow> Some e | None \<Rightarrow> find_key es k)"
  unfolding find_key_def by (induction ks) auto

lemma find_key_id: "find_key ks k = Some e \<Longrightarrow> ke_key_id e = k"
  unfolding find_key_def by (induction ks) (auto split: if_splits)

lemma position_find_key:
  "position (\<lambda>e. ke_key_id e = k) ks = Some i \<Longrightarrow> find_key ks k = Some (ks ! i)"
  unfolding find_key_def using position_Some by metis

text \<open>The three operations in terms of what is found under each key id.\<close>

lemma rotate_entries_find:
  assumes "rotate_entries ks target new now grace = Inr ks'"
  obtains old where "find_key ks target = Some old" "ke_status old = KeyActive"
    "\<And>k. find_key ks' k = (if k = target then Some (begin_rotating (now + grace) old)
       else case find_key ks k of Some e \<Rightarrow> Some e | None \<Rightarrow> if k = ke_key_id new then Some new else None)"
proof -
  obtain i where i: "position (\<lambda>e. ke_key_id e = target) ks = Some i" "ke_status (ks ! i) = KeyActive"
      "ks' = ks[i := begin_rotating (now + grace) (ks ! i)] @ [new]"
  proof -
    obtain i where i: "position (\<lambda>e. ke_key_id e = target) ks = Some i"
      using assms by (auto simp: rotate_entries_def)
    then show ?thesis using that [OF i] assms by (cases "ke_status (ks ! i)") (simp_all add: rotate_entries_def)
  qed
  have "ke_key_id (begin_rotating (now + grace) (ks ! i)) = target"
    using position_Some [OF i(1)] by (simp add: begin_rotating_def)
  note upd = find_key_update [OF i(1) this]
  have "find_key [new] k = (if k = ke_key_id new then Some new else None)" for k by (simp add: find_key_def)
  then show thesis
    using that [OF position_find_key [OF i(1)] i(2)] by (simp add: i(3) find_key_append upd split: option.splits)
qed

lemma revoke_entries_find:
  assumes "revoke_entries ks target = Some ks'"
  obtains old where "find_key ks target = Some old" "ke_status old \<noteq> KeyRevoked"
    "\<And>k. find_key ks' k = (if k = target then Some (key_revoke old) else find_key ks k)"
proof -
  obtain i where i: "position (\<lambda>e. ke_key_id e = target) ks = Some i" "ke_status (ks ! i) \<noteq> KeyRevoked"
      "ks' = ks[i := key_revoke (ks ! i)]"
    using assms by (auto simp: revoke_entries_def bind_eq_Some_conv split: if_splits)
  have "ke_key_id (key_revoke (ks ! i)) = target" using position_Some [OF i(1)] by (simp add: key_revoke_def)
  note upd = find_key_update [OF i(1) this]
  show thesis using that [OF position_find_key [OF i(1)] i(2)] by (simp add: i(3) upd)
qed

lemma revoke_entries_None:
  "revoke_entries ks target = None \<longleftrightarrow>
    (case find_key ks target of Some e \<Rightarrow> ke_status e = KeyRevoked | None \<Rightarrow> True)"
proof (cases "position (\<lambda>e. ke_key_id e = target) ks")
  case None
  then have "find_key ks target = None" by (simp add: find_key_def position_None)
  then show ?thesis using None by (simp add: revoke_entries_def)
next
  case (Some i)
  then show ?thesis using position_find_key [OF Some] by (simp add: revoke_entries_def)
qed

text \<open>
  A step of the key ring of an organization: any transition that changes it, with a key id that is new to
  the ring where a key is made.
\<close>

inductive ring_step :: "signing_key_entry list \<Rightarrow> signing_key_entry list \<Rightarrow> bool" where
  generate: "generate_key_transition e k ks = Inr (Some (k', ks')) \<Longrightarrow> find_key ks (ke_key_id e) = None \<Longrightarrow> ring_step ks ks'"
| revoke: "revoke_key_transition k ks = Inr (Some (k', ks')) \<Longrightarrow> ring_step ks ks'"
| rotate: "rotate_key_transition k e now grace ks = Inr (Some (k', ks')) \<Longrightarrow> find_key ks (ke_key_id e) = None \<Longrightarrow> ring_step ks ks'"

inductive_cases ring_stepE: "ring_step ks ks'"

text \<open>What may become of an entry: same key material, and a status that does not allow more.\<close>

definition key_narrows :: "signing_key_entry \<Rightarrow> signing_key_entry \<Rightarrow> bool" where
  "key_narrows e e' \<longleftrightarrow>
     ke_key_id e' = ke_key_id e \<and> ke_public_key_pem e' = ke_public_key_pem e \<and> ke_created_at e' = ke_created_at e \<and>
     (case ke_status e of
        KeyActive \<Rightarrow> True | KeyRotating t \<Rightarrow> ke_status e' \<in> {KeyRotating t, KeyRevoked} | KeyRevoked \<Rightarrow> ke_status e' = KeyRevoked)"

lemma key_narrows_refl: "key_narrows e e"
  by (simp add: key_narrows_def split: key_status.splits)

lemma key_narrows_trans: "key_narrows a b \<Longrightarrow> key_narrows b c \<Longrightarrow> key_narrows a c"
  by (auto simp: key_narrows_def split: key_status.splits)

lemma ring_step_narrows:
  assumes "ring_step ks ks'" "find_key ks k = Some e"
  shows "\<exists>e'. find_key ks' k = Some e' \<and> key_narrows e e'"
  using assms(1)
proof (cases rule: ring_step.cases)
  case (generate new k0 k')
  then show ?thesis using assms(2) by (auto simp: generate_key_transition_def find_key_append key_narrows_refl)
next
  case (revoke k0 k')
  then have "revoke_entries ks k0 = Some ks'" by (auto simp: revoke_key_transition_def)
  then obtain old where o: "find_key ks k0 = Some old" "ke_status old \<noteq> KeyRevoked"
      "\<And>k. find_key ks' k = (if k = k0 then Some (key_revoke old) else find_key ks k)"
    by (rule revoke_entries_find) blast
  show ?thesis
  proof (cases "k = k0")
    case True
    then show ?thesis using o assms(2) by (auto simp: key_narrows_def key_revoke_def split: key_status.splits)
  next
    case False
    then show ?thesis using o(3) [of k] assms(2) by (simp add: key_narrows_refl)
  qed
next
  case (rotate k0 new now grace k')
  then have "rotate_entries ks k0 new now grace = Inr ks'" by (auto simp: rotate_key_transition_def)
  then obtain old where o: "find_key ks k0 = Some old" "ke_status old = KeyActive"
      "\<And>k. find_key ks' k = (if k = k0 then Some (begin_rotating (now + grace) old)
       else case find_key ks k of Some e \<Rightarrow> Some e | None \<Rightarrow> if k = ke_key_id new then Some new else None)"
    by (rule rotate_entries_find) blast
  show ?thesis
  proof (cases "k = k0")
    case True
    then show ?thesis using o assms(2) by (auto simp: key_narrows_def begin_rotating_def)
  next
    case False
    then show ?thesis using o(3) [of k] assms(2) by (simp add: key_narrows_refl)
  qed
qed

lemma ring_steps_narrow:
  "ring_step\<^sup>*\<^sup>* ks ks' \<Longrightarrow> find_key ks k = Some e \<Longrightarrow> \<exists>e'. find_key ks' k = Some e' \<and> key_narrows e e'"
proof (induction rule: rtranclp_induct)
  case (step a b)
  then obtain e1 where e1: "find_key a k = Some e1" "key_narrows e e1" by blast
  obtain e2 where "find_key b k = Some e2" "key_narrows e1 e2" using ring_step_narrows [OF step(2) e1(1)] by blast
  then show ?case using key_narrows_trans [OF e1(2)] by blast
qed (simp add: key_narrows_refl)

lemma key_narrows_active: "key_narrows e e' \<Longrightarrow> ke_status e \<noteq> KeyActive \<Longrightarrow> key_is_active e' now \<Longrightarrow> key_is_active e now"
  by (auto simp: key_narrows_def key_is_active_def split: key_status.splits)


definition ex_key :: "string \<Rightarrow> signing_key_entry" where
  "ex_key k = \<lparr>ke_key_id = k, ke_public_key_pem = ''PEM'' @ k, ke_status = KeyActive, ke_created_at = 0, ke_expires_at = None\<rparr>"

definition ex_chrono :: chrono_lib where
  "ex_chrono = \<lparr>ch_to_rfc3339 = (\<lambda>t. show_nat (nat t)), ch_parse_rfc3339 = (\<lambda>_. Inl ''bad date''), ch_serde = (\<lambda>t. show_nat (nat t))\<rparr>"


text \<open>
  Rotation hands over without a gap. Rotating an active key succeeds; the new key is accepted at every
  time, the old key exactly until the end of the grace period, and every other key is accepted when it was
  before. Rotating an unknown key is a not-found error, and rotating a key that is already rotating or
  revoked is a conflict, and both leave the keys alone.
\<close>

theorem rotate_entries_correct:
  assumes "find_key ks (ke_key_id new) = None" "ke_status new = KeyActive"
  shows "(case find_key ks target of
      None \<Rightarrow> \<exists>m. rotate_entries ks target new now grace = Inl (CpNotFound m)
    | Some old \<Rightarrow>
        if ke_status old \<noteq> KeyActive then \<exists>m. rotate_entries ks target new now grace = Inl (CpConflict m)
        else \<exists>ks'. rotate_entries ks target new now grace = Inr ks' \<and>
          (\<forall>k t. (\<exists>e. find_key ks' k = Some e \<and> key_is_active e t) \<longleftrightarrow>
             (if k = ke_key_id new then True else if k = target then t < now + grace
              else (\<exists>e. find_key ks k = Some e \<and> key_is_active e t))))"
proof (cases "position (\<lambda>e. ke_key_id e = target) ks")
  case None
  then have "find_key ks target = None" by (simp add: find_key_def position_None)
  then show ?thesis using None by (simp add: rotate_entries_def)
next
  case (Some i)
  note old = position_find_key [OF Some]
  show ?thesis
  proof (cases "ke_status (ks ! i) = KeyActive")
    case False
    then show ?thesis using Some old by (auto simp: rotate_entries_def split: key_status.splits)
  next
    case True
    then obtain ks' where ks': "rotate_entries ks target new now grace = Inr ks'"
      using Some by (simp add: rotate_entries_def)
    then obtain old' where o: "find_key ks target = Some old'" "ke_status old' = KeyActive"
        "\<And>k. find_key ks' k = (if k = target then Some (begin_rotating (now + grace) old')
         else case find_key ks k of Some e \<Rightarrow> Some e | None \<Rightarrow> if k = ke_key_id new then Some new else None)"
      by (rule rotate_entries_find) blast
    have "target \<noteq> ke_key_id new" using assms(1) o(1) by auto
    then have "(\<exists>e. find_key ks' k = Some e \<and> key_is_active e t) \<longleftrightarrow>
        (if k = ke_key_id new then True else if k = target then t < now + grace
         else (\<exists>e. find_key ks k = Some e \<and> key_is_active e t))" for k t
      using assms o(3) [of k] by (auto simp: key_is_active_def begin_rotating_def split: option.splits)
    then show ?thesis using ks' old True by simp
  qed
qed

theorem rotate_entries_correct_witness:
  "\<exists>ks'. rotate_entries [ex_key ''k1''] ''k1'' (ex_key ''k2'') 0 (ROTATION_GRACE_HOURS * HOUR) = Inr ks'"
  using rotate_entries_correct [of "[ex_key ''k1'']" "ex_key ''k2''" "''k1''" 0 "ROTATION_GRACE_HOURS * HOUR"]
  by (auto simp: find_key_def ex_key_def)

text \<open>The printed status is read back.\<close>

lemma key_status_round_trip:
  assumes "chrono_laws ch"
  shows "key_status_from_str ch (key_status_display ch s) = Inr s"
proof (cases s)
  case (KeyRotating t)
  have "strip_suffix '')'' (ch_to_rfc3339 ch t @ '')'') = Some (ch_to_rfc3339 ch t)"
    by (simp add: strip_suffix_def ends_with_def)
  then show ?thesis using assms
    by (simp add: key_status_from_str_def KeyRotating chrono_laws_def strip_prefix_def starts_with_def)
qed (simp_all add: key_status_from_str_def)

end
