(* ===== verification/Org_Store.thy ===== *)
theory Org_Store
  imports Key_Ring Proxy_Pipeline Snapshots
begin

text \<open>
  The read model of organizations in the control plane: the proxy configuration of an organization
  (\<open>config.rs\<close>, \<open>core/src/config_version.rs\<close>), entity tags and conditional requests (\<open>etag.rs\<close>), organization
  records with their configuration and tag, and the in-memory organization store with its write-through
  hooks (\<open>store/mod.rs\<close>, \<open>store/groups.rs\<close>). JSON text (serde_json), xxHash and chrono are arguments.
  A \<open>BTreeMap\<close> is the list of its entries in the order of the keys.
\<close>

section \<open>Ordered maps\<close>

fun btm_insert :: "'k::linorder \<Rightarrow> 'v \<Rightarrow> ('k \<times> 'v) list \<Rightarrow> ('k \<times> 'v) list" where
  "btm_insert k v [] = [(k, v)]"
| "btm_insert k v ((k', v') # m) =
     (if k < k' then (k, v) # (k', v') # m
      else if k = k' then (k, v) # m
      else (k', v') # btm_insert k v m)"

abbreviation btm_wf :: "('k::linorder \<times> 'v) list \<Rightarrow> bool" where
  "btm_wf m \<equiv> sorted_wrt (<) (map fst m)"

lemma btm_insert_keys: "fst ` set (btm_insert k v m) = insert k (fst ` set m)"
  by (induction k v m rule: btm_insert.induct) (simp_all add: insert_commute)

lemma btm_insert_wf: "btm_wf m \<Longrightarrow> btm_wf (btm_insert k v m)"
proof (induction m)
  case (Cons e m)
  obtain k' v' where e: "e = (k', v')" by (cases e)
  have lt: "\<forall>x \<in> fst ` set m. k' < x" and wf: "btm_wf m" using Cons.prems by (simp_all add: e)
  show ?case
  proof (cases "k < k'")
    case True
    then show ?thesis using lt wf by (auto simp: e)
  next
    case False
    show ?thesis
    proof (cases "k = k'")
      case True
      then show ?thesis using lt wf by (simp add: e)
    next
      case ne: False
      then have "k' < k" using False by simp
      then have "\<forall>x \<in> fst ` set (btm_insert k v m). k' < x" using lt by (simp add: btm_insert_keys)
      then show ?thesis using False ne Cons.IH [OF wf] by (simp add: e)
    qed
  qed
qed simp

lemma btm_insert_lookup: "btm_wf m \<Longrightarrow> map_of (btm_insert k v m) = (map_of m)(k \<mapsto> v)"
proof (induction m)
  case (Cons e m)
  then show ?case by (cases e) (auto simp: fun_eq_iff)
qed auto

lemma btm_remove_wf: "btm_wf m \<Longrightarrow> btm_wf (hm_remove k m)"
  by (induction m) (auto simp: hm_remove_def)

interpretation btm: map_contract "[]" btm_insert hm_remove map_of btm_wf
  by unfold_locales (auto simp: btm_insert_wf btm_remove_wf btm_insert_lookup hm_remove_lookup)

section \<open>Proxy configuration\<close>

record config_version =
  cv_raw :: string
  cv_date :: int

definition config_version_try_new :: "(string \<Rightarrow> int option) \<Rightarrow> string \<Rightarrow> (core_error, config_version) result" where
  "config_version_try_new parse_date raw =
     (case parse_date raw of
        None \<Rightarrow> Inl (InvalidConfigVersion raw)
      | Some d \<Rightarrow> Inr \<lparr>cv_raw = raw, cv_date = d\<rparr>)"

record route_entry =
  rt_method :: http_method
  rt_path :: string
  rt_action :: string
  rt_resource_param :: "string option"
  rt_feature_gate :: "string option"

record public_route_entry =
  pe_method :: http_method
  pe_path :: string
  pe_auth_mode :: public_auth_mode

record 'n org_config =
  oc_version :: config_version
  oc_project_id :: segment
  oc_upstream_url :: string
  oc_default_policy :: default_policy
  oc_namespace :: string
  oc_tenant :: tenant_config
  oc_vp_store_id :: "string option"
  oc_cognito_user_pool_id :: "string option"
  oc_routes :: "route_entry list"
  oc_public_routes :: "public_route_entry list"
  oc_features :: "(string \<times> 'n json) list"

text \<open>The derived serializers: fields in order, a field that is skipped when absent only if present.\<close>

definition json_strs :: "string list \<Rightarrow> 'n json" where
  "json_strs xs = JArr (map JStr xs)"

definition json_opt :: "string option \<Rightarrow> 'n json" where
  "json_opt x = (case x of Some s \<Rightarrow> JStr s | None \<Rightarrow> JNull)"

definition skip_none :: "string \<Rightarrow> string option \<Rightarrow> (string \<times> 'n json) list" where
  "skip_none k x = (case x of Some s \<Rightarrow> [(k, JStr s)] | None \<Rightarrow> [])"

definition route_entry_json :: "route_entry \<Rightarrow> 'n json" where
  "route_entry_json r =
     JObj ([(''method'', JStr (http_method_display (rt_method r))), (''path'', JStr (rt_path r)),
        (''action'', JStr (rt_action r))] @ skip_none ''resource_param'' (rt_resource_param r) @
       skip_none ''feature_gate'' (rt_feature_gate r))"

definition public_route_entry_json :: "public_route_entry \<Rightarrow> 'n json" where
  "public_route_entry_json r =
     JObj [(''method'', JStr (http_method_display (pe_method r))), (''path'', JStr (pe_path r)),
       (''auth_mode'', JStr (case pe_auth_mode r of ModeAnonymous \<Rightarrow> ''anonymous'' | ModeOpportunistic \<Rightarrow> ''opportunistic''))]"

definition org_config_json :: "'n org_config \<Rightarrow> 'n json" where
  "org_config_json c =
     JObj ([(''version'', JStr (cv_raw (oc_version c))), (''project_id'', JStr (seg_str (oc_project_id c))),
        (''upstream_url'', JStr (oc_upstream_url c)),
        (''default_policy'', JStr (case oc_default_policy c of Passthrough \<Rightarrow> ''passthrough'' | DenyByDefault \<Rightarrow> ''deny'')),
        (''namespace'', JStr (oc_namespace c)),
        (''tenant'', JObj [(''enabled'', JBool (tc_enabled (oc_tenant c))),
           (''principal_attribute'', JStr (tc_principal_attribute (oc_tenant c))),
           (''resource_attribute'', JStr (tc_resource_attribute (oc_tenant c)))])] @
       skip_none ''vp_store_id'' (oc_vp_store_id c) @
       skip_none ''cognito_user_pool_id'' (oc_cognito_user_pool_id c) @
       [(''routes'', JArr (map route_entry_json (oc_routes c))),
        (''public_routes'', JArr (map public_route_entry_json (oc_public_routes c))),
        (''features'', JObj (oc_features c))])"

definition organization_json :: "chrono_lib \<Rightarrow> organization \<Rightarrow> 'n json" where
  "organization_json ch org =
     JObj [(''org_id'', JStr (seg_str (o_id org))), (''name'', JStr (o_name org)), (''status'', JStr (org_status_str (o_status org))),
       (''cognito_pool_id'', json_opt (o_cognito_pool_id org)), (''cognito_jwks_url'', json_opt (o_cognito_jwks_url org)),
       (''policy_store_id'', json_opt (o_policy_store_id org)), (''created_at'', JStr (ch_serde ch (o_created_at org))),
       (''updated_at'', JStr (ch_serde ch (o_updated_at org)))]"

definition rbac_entry_json :: "rbac_entry \<Rightarrow> 'n json" where
  "rbac_entry_json e =
     JObj [(''name'', JStr (re_name e)), (''description'', json_opt (re_description e)), (''inherits'', json_strs (re_inherits e)),
       (''allow'', json_strs (re_allow e)), (''tenant_scoped'', JBool (re_tenant_scoped e))]"

section \<open>Entity tags\<close>

datatype etag = Etag (etag_str: string)

definition etag_try_new :: "string \<Rightarrow> (cp_error, etag) result" where
  "etag_try_new raw = (if raw = [] then Inl (CpInvalidEtag raw) else Inr (Etag raw))"

datatype if_match = Wildcard | StrongTag etag

datatype if_none_match_result = NotMatched | Matched | WildcardMatched | WildcardOnDraft

definition parse_if_match :: "string \<Rightarrow> if_match option" where
  "parse_if_match raw =
     (let trimmed = trim raw in
      if trimmed = [] then None
      else if trimmed = ''*'' then Some Wildcard
      else map_option StrongTag (to_ok (etag_try_new trimmed)))"

fun check_if_none_match :: "if_match option \<Rightarrow> etag option \<Rightarrow> if_none_match_result" where
  "check_if_none_match None s = NotMatched"
| "check_if_none_match (Some Wildcard) (Some s) = WildcardMatched"
| "check_if_none_match (Some Wildcard) None = WildcardOnDraft"
| "check_if_none_match (Some (StrongTag h)) s = (if s = Some h then Matched else NotMatched)"

record 'n json_lib =
  jl_to_string :: "'n json \<Rightarrow> string"
  jl_xxh64 :: "string \<Rightarrow> u64"

definition compute_etag_json :: "'n json_lib \<Rightarrow> 'n json \<Rightarrow> etag" where
  "compute_etag_json jl v = Etag (dquoted (hex16 (jl_xxh64 jl (jl_to_string jl v))))"

section \<open>Records\<close>

record 'n configured_config =
  cc_config :: "'n org_config"
  cc_etag :: etag

definition configured_compute :: "'n json_lib \<Rightarrow> 'n org_config \<Rightarrow> 'n configured_config" where
  "configured_compute jl c = \<lparr>cc_config = c, cc_etag = compute_etag_json jl (org_config_json c)\<rparr>"

record 'n org_record =
  or_org :: organization
  or_configured :: "'n configured_config option"

definition or_config :: "'n org_record \<Rightarrow> 'n org_config option" where
  "or_config r = map_option cc_config (or_configured r)"

record etaged_group =
  eg_entry :: rbac_entry
  eg_etag :: etag

definition compute_group_etag :: "'n json_lib \<Rightarrow> rbac_entry \<Rightarrow> string" where
  "compute_group_etag jl e = dquoted (hex16 (jl_xxh64 jl (jl_to_string jl (rbac_entry_json e))))"

definition etaged_group_compute :: "'n json_lib \<Rightarrow> rbac_entry \<Rightarrow> etaged_group" where
  "etaged_group_compute jl e = \<lparr>eg_entry = e, eg_etag = Etag (compute_group_etag jl e)\<rparr>"

section \<open>The in-memory organization store\<close>

record 'n org_store =
  os_orgs :: "(organization_id \<times> 'n org_record) list"
  os_signing_keys :: "(organization_id \<times> signing_key_entry list) list"
  os_groups :: "((organization_id \<times> string) \<times> etaged_group) list"
  os_memberships :: "((organization_id \<times> string) \<times> string list) list"

definition org_store_new :: "(organization_id \<times> 'n org_record) list \<Rightarrow> 'n org_store" where
  "org_store_new orgs = \<lparr>os_orgs = orgs, os_signing_keys = [], os_groups = [], os_memberships = []\<rparr>"

definition os_get :: "'n org_store \<Rightarrow> organization_id \<Rightarrow> 'n org_record option" where
  "os_get st i = map_of (os_orgs st) i"

definition os_list :: "'n org_store \<Rightarrow> nat \<Rightarrow> nat \<Rightarrow> 'n org_record list" where
  "os_list st offset limit = take limit (drop offset (map snd (os_orgs st)))"

definition write_through_org :: "'n json_lib \<Rightarrow> organization \<Rightarrow> 'n org_config option \<Rightarrow> 'n org_store \<Rightarrow> 'n org_store" where
  "write_through_org jl org config st =
     st\<lparr>os_orgs := btm_insert (o_id org)
          \<lparr>or_org = org, or_configured = map_option (configured_compute jl) config\<rparr> (os_orgs st)\<rparr>"

definition write_through_signing_keys :: "organization_id \<Rightarrow> signing_key_entry list \<Rightarrow> 'n org_store \<Rightarrow> 'n org_store" where
  "write_through_signing_keys i keys st = st\<lparr>os_signing_keys := btm_insert i keys (os_signing_keys st)\<rparr>"

definition os_list_keys :: "'n org_store \<Rightarrow> organization_id \<Rightarrow> signing_key_entry list" where
  "os_list_keys st i = (case map_of (os_signing_keys st) i of Some ks \<Rightarrow> ks | None \<Rightarrow> [])"

definition write_through_group :: "organization_id \<Rightarrow> etaged_group \<Rightarrow> 'n org_store \<Rightarrow> 'n org_store" where
  "write_through_group i g st = st\<lparr>os_groups := btm_insert (i, re_name (eg_entry g)) g (os_groups st)\<rparr>"

definition write_through_group_delete :: "organization_id \<Rightarrow> string \<Rightarrow> 'n org_store \<Rightarrow> 'n org_store" where
  "write_through_group_delete i name st = st\<lparr>os_groups := hm_remove (i, name) (os_groups st)\<rparr>"

definition os_get_group :: "'n org_store \<Rightarrow> organization_id \<Rightarrow> string \<Rightarrow> etaged_group option" where
  "os_get_group st i name = map_of (os_groups st) (i, name)"

text \<open>\<open>BTreeMap::range((org_id, "")..)\<close> while the organization is the given one.\<close>

definition org_range :: "'n org_store \<Rightarrow> organization_id \<Rightarrow> ((organization_id \<times> string) \<times> etaged_group) list" where
  "org_range st i =
     takeWhile (\<lambda>e. fst (fst e) = i) (dropWhile (\<lambda>e. fst e < (i, [])) (os_groups st))"

definition os_list_groups :: "'n org_store \<Rightarrow> organization_id \<Rightarrow> etaged_group list" where
  "os_list_groups st i = map snd (org_range st i)"

definition os_list_inheritors :: "'n org_store \<Rightarrow> organization_id \<Rightarrow> string \<Rightarrow> string list" where
  "os_list_inheritors st i name =
     map (snd \<circ> fst) (filter (\<lambda>e. name \<in> set (re_inherits (eg_entry (snd e)))) (org_range st i))"

definition os_count_memberships :: "'n org_store \<Rightarrow> organization_id \<Rightarrow> string \<Rightarrow> (string \<times> nat) list" where
  "os_count_memberships st i name =
     foldl (\<lambda>counts ((oid, user), groups).
       if oid = i \<and> name \<in> set groups then
         btm_insert user (Suc (case map_of counts user of Some n \<Rightarrow> n | None \<Rightarrow> 0)) counts
       else counts) [] (os_memberships st)"

text \<open>Organizations read from the configuration file, in the order in which the map iterates.\<close>

record 'n raw_org_entry =
  rw_name :: string
  rw_config :: "'n org_config option"
  rw_status :: org_status

fun build_orgs ::
    "'n json_lib \<Rightarrow> timestamp \<Rightarrow> (string \<times> 'n raw_org_entry) list \<Rightarrow> (organization_id \<times> 'n org_record) list
      \<Rightarrow> (cp_error, (organization_id \<times> 'n org_record) list) result" where
  "build_orgs jl now [] orgs = Inr orgs"
| "build_orgs jl now ((raw_id, e) # es) orgs =
     and_then (map_err (\<lambda>x. CpConfig (''invalid organization id '' @ dquoted raw_id @ '': '' @ core_error_display x))
         (typed_id_new raw_id)) (\<lambda>i.
     build_orgs jl now es (btm_insert i
       \<lparr>or_org = organization_new i (rw_name e) (rw_status e) now,
        or_configured = map_option (configured_compute jl) (rw_config e)\<rparr> orgs))"

definition build_org_store ::
    "'n json_lib \<Rightarrow> (string \<Rightarrow> (string, (string \<times> 'n raw_org_entry) list) result) \<Rightarrow> timestamp \<Rightarrow> string
      \<Rightarrow> (cp_error, 'n org_store) result" where
  "build_org_store jl from_str now text_of_file =
     and_then (map_err CpConfig (from_str text_of_file)) (\<lambda>raw.
     and_then (build_orgs jl now raw []) (\<lambda>orgs. Inr (org_store_new orgs)))"

text \<open>Key material: \<open>priv_pem\<close> and \<open>pub_pem\<close> encode the generated key, \<open>bytes\<close> are the random bytes of its id.\<close>

definition generate_key_id :: "nat list \<Rightarrow> string" where
  "generate_key_id bytes = ''key-'' @ concat (map (\<lambda>b. [hex_digit (b div 16), hex_digit (b mod 16)]) bytes)"

definition generate_key_material ::
    "(string, string) result \<Rightarrow> (string, string) result \<Rightarrow> nat list \<Rightarrow> timestamp \<Rightarrow> (cp_error, generate_key_result) result" where
  "generate_key_material priv_pem pub_pem bytes now =
     and_then (map_err (\<lambda>e. CpStore (''failed to encode private key: '' @ e)) priv_pem) (\<lambda>sk.
     and_then (map_err (\<lambda>e. CpStore (''failed to encode public key: '' @ e)) pub_pem) (\<lambda>pk.
     Inr \<lparr>gk_key_id = generate_key_id bytes, gk_private_key_pem = sk, gk_public_key_pem = pk, gk_created_at = now\<rparr>))"

section \<open>Invariant and reads\<close>

definition org_store_wf :: "'n org_store \<Rightarrow> bool" where
  "org_store_wf st \<longleftrightarrow> btm_wf (os_orgs st) \<and> btm_wf (os_signing_keys st) \<and> btm_wf (os_groups st) \<and>
     (\<forall>((i, name), g) \<in> set (os_groups st). re_name (eg_entry g) = name)"

lemma btm_insert_member: "x \<in> set (btm_insert k v m) \<Longrightarrow> x = (k, v) \<or> x \<in> set m"
  by (induction m) (auto split: if_splits)

lemma write_through_wf:
  assumes "org_store_wf st"
  shows "org_store_wf (write_through_org jl org config st)" "org_store_wf (write_through_signing_keys i keys st)"
    "org_store_wf (write_through_group i g st)" "org_store_wf (write_through_group_delete i name st)"
proof -
  note d = org_store_wf_def write_through_org_def write_through_signing_keys_def write_through_group_def
    write_through_group_delete_def
  show "org_store_wf (write_through_org jl org config st)" "org_store_wf (write_through_signing_keys i keys st)"
    "org_store_wf (write_through_group_delete i name st)"
    using assms by (simp_all add: d btm_insert_wf btm_remove_wf) (auto simp: hm_remove_def)
  show "org_store_wf (write_through_group i g st)"
    using assms by (auto simp: d btm_insert_wf dest!: btm_insert_member)
qed

text \<open>The range of an organization's groups is all of them, in the order of the names.\<close>

lemma takeWhile_dropWhile_range:
  fixes m :: "(('a::linorder \<times> 'b::linorder) \<times> 'c) list"
  assumes "btm_wf m" "\<And>b. b0 \<le> b"
  shows "takeWhile (\<lambda>e. fst (fst e) = i) (dropWhile (\<lambda>e. fst e < (i, b0)) m) = filter (\<lambda>e. fst (fst e) = i) m"
  using assms(1)
proof (induction m)
  case (Cons e m)
  have lt: "\<forall>x \<in> set m. fst e < fst x" and wf: "btm_wf m" using Cons.prems by auto
  consider "fst (fst e) < i" | "fst (fst e) = i" | "i < fst (fst e)" by fastforce
  then show ?case
  proof cases
    case 1
    then have "fst e < (i, b0)" by (cases e; cases "fst e") (auto simp: less_prod_def')
    then show ?thesis using 1 Cons.IH [OF wf] by auto
  next
    case 2
    then have ge: "\<not> fst e < (i, b0)" using assms(2) by (cases e; cases "fst e") (auto simp: less_prod_def' not_less)
    have "dropWhile (\<lambda>e. fst e < (i, b0)) m = m"
    proof (cases m)
      case (Cons e' m')
      then have "fst e < fst e'" using lt by simp
      then have "\<not> fst e' < (i, b0)" using ge by (meson less_trans not_less_iff_gr_or_eq)
      then show ?thesis using Cons by simp
    qed simp
    then show ?thesis using 2 ge Cons.IH [OF wf] by simp
  next
    case 3
    then have ge: "\<not> fst e < (i, b0)" by (cases e; cases "fst e") (auto simp: less_prod_def')
    have "filter (\<lambda>e. fst (fst e) = i) m = []"
    proof (rule filter_False, rule ballI)
      fix x assume "x \<in> set m"
      then have "fst e < fst x" using lt by blast
      then have "fst (fst e) \<le> fst (fst x)" by (cases "fst e"; cases "fst x") (auto simp: less_prod_def')
      then show "fst (fst x) \<noteq> i" using 3 by auto
    qed
    then show ?thesis using 3 ge by auto
  qed
qed simp

lemma org_range_filter:
  assumes "org_store_wf st"
  shows "org_range st i = filter (\<lambda>e. fst (fst e) = i) (os_groups st)"
  using takeWhile_dropWhile_range [of "os_groups st" "[]" i] assms
  by (simp add: org_range_def org_store_wf_def)

lemma os_list_groups_exact:
  assumes "org_store_wf st"
  shows "set (os_list_groups st i) = {g. \<exists>name. os_get_group st i name = Some g}"
    "sorted_wrt (<) (map (\<lambda>g. re_name (eg_entry g)) (os_list_groups st i))"
proof -
  have wf: "btm_wf (os_groups st)" "\<forall>((i, name), g) \<in> set (os_groups st). re_name (eg_entry g) = name"
    using assms by (auto simp: org_store_wf_def)
  have d: "hm_wf (os_groups st)" using wf(1) strict_sorted_iff by blast
  show "set (os_list_groups st i) = {g. \<exists>name. os_get_group st i name = Some g}"
  proof (rule set_eqI, unfold mem_Collect_eq)
    fix g
    have "g \<in> set (os_list_groups st i) \<longleftrightarrow> (\<exists>e \<in> set (os_groups st). fst (fst e) = i \<and> g = snd e)"
      by (auto simp: os_list_groups_def org_range_filter [OF assms])
    also have "\<dots> \<longleftrightarrow> (\<exists>name. ((i, name), g) \<in> set (os_groups st))" by force
    finally show "g \<in> set (os_list_groups st i) \<longleftrightarrow> (\<exists>name. os_get_group st i name = Some g)"
      by (simp add: os_get_group_def map_of_eq_Some_iff [OF d])
  qed
  have "sorted_wrt (\<lambda>a b. fst a < fst b) (os_groups st)" using wf(1) by (simp add: sorted_wrt_map)
  then have s: "sorted_wrt (\<lambda>a b. fst a < fst b) (filter (\<lambda>e. fst (fst e) = i) (os_groups st))"
    by (rule sorted_wrt_filter)
  have "sorted_wrt (\<lambda>a b. re_name (eg_entry (snd a)) < re_name (eg_entry (snd b)))
      (filter (\<lambda>e. fst (fst e) = i) (os_groups st))"
  proof (rule sorted_wrt_mono_rel [OF _ s])
    fix a b
    assume ab: "a \<in> set (filter (\<lambda>e. fst (fst e) = i) (os_groups st))"
      "b \<in> set (filter (\<lambda>e. fst (fst e) = i) (os_groups st))" "fst a < fst b"
    have "re_name (eg_entry (snd e)) = snd (fst e)" if "e \<in> set (os_groups st)" for e
      using wf(2) that by (cases e; cases "fst e") auto
    then have "re_name (eg_entry (snd a)) = snd (fst a)" "re_name (eg_entry (snd b)) = snd (fst b)" using ab(1,2) by auto
    moreover have "snd (fst a) < snd (fst b)"
      using ab by (cases "fst a"; cases "fst b") (simp add: less_prod_def')
    ultimately show "re_name (eg_entry (snd a)) < re_name (eg_entry (snd b))" by simp
  qed
  then show "sorted_wrt (<) (map (\<lambda>g. re_name (eg_entry g)) (os_list_groups st i))"
    by (simp add: os_list_groups_def org_range_filter [OF assms] sorted_wrt_map)
qed

text \<open>
  A conditional read answers that nothing changed exactly when there is a stored tag and the header is
  the wildcard or that tag, byte for byte after trimming.
\<close>

lemma conditional_read:
  "check_if_none_match (parse_if_match raw) stored \<in> {Matched, WildcardMatched} \<longleftrightarrow>
    (\<exists>s. stored = Some s \<and> (trim raw = ''*'' \<or> (trim raw \<noteq> [] \<and> etag_str s = trim raw)))"
proof (cases stored)
  case (Some s)
  then show ?thesis by (cases s) (auto simp: parse_if_match_def Let_def etag_try_new_def)
qed (auto simp: parse_if_match_def Let_def etag_try_new_def)

end
