(* ===== verification/Event_Store.thy ===== *)
theory Event_Store
  imports Org_Store Cedar_Engine
begin

text \<open>
  The event-sourced model store of the control plane: the in-memory event log (\<open>authz-core/src/event/log.rs\<close>),
  the signed envelopes that the stores append (\<open>model_event_store/support.rs\<close>, \<open>promotion_store.rs\<close>), the
  in-memory model event store with all its operations (\<open>model_event_store/in_memory.rs\<close>) and the fold of an
  organization's log in pages (\<open>ModelEventStore::fold_at\<close>).

  A store operation returns an error and leaves the store alone, or a value and the new store; the outer
  \<open>None\<close> is a panic. An organization without a log has the empty log. Locks are only poisoned by a panic and
  are not modelled. Clock readings, the fresh event id and generated keys are arguments of an operation.
\<close>

section \<open>Environment\<close>

record ('n, 'sk, 'vk, 'sig) cp_env =
  ce_chrono :: chrono_lib
  ce_crypto :: "('sk, 'vk, 'sig) crypto"
  ce_json :: "'n json_lib"
  ce_sha256 :: "string \<Rightarrow> string"

record call_inputs =
  ci_ulid :: string
  ci_occurred_at :: string
  ci_now :: timestamp
  ci_key :: "(cp_error, generate_key_result) result"

abbreviation ce_to_vec :: "('n, 'sk, 'vk, 'sig) cp_env \<Rightarrow> 'n json \<Rightarrow> string" where
  "ce_to_vec env \<equiv> jl_to_string (ce_json env)"

section \<open>The in-memory event log\<close>

definition log_events_after :: "'n event_envelope list \<Rightarrow> nat \<Rightarrow> nat \<Rightarrow> 'n event_envelope list" where
  "log_events_after es after limit = take limit (filter (\<lambda>e. ev_seq e > after) es)"

definition log_latest_revision :: "'n event_envelope list \<Rightarrow> nat" where
  "log_latest_revision es = (if es = [] then 0 else ev_seq (last es))"

section \<open>Events\<close>

definition build_model_event ::
    "('n, 'sk, 'vk, 'sig) cp_env \<Rightarrow> string \<Rightarrow> event_kind \<Rightarrow> actor \<Rightarrow> 'n json \<Rightarrow> 'sk \<Rightarrow> string \<Rightarrow> string \<Rightarrow> nat \<Rightarrow> string
      \<Rightarrow> ('n event_envelope \<times> string) option" where
  "build_model_event env org_id kind actor payload signing_key key_id occurred_at revision ulid =
     (case event_id_try_new ulid of
        Inl _ \<Rightarrow> None
      | Inr event_id \<Rightarrow>
          (let draft = event_draft_new \<lparr>dp_event_id = event_id, dp_seq = revision, dp_kind = kind,
                 dp_occurred_at = occurred_at, dp_actor = actor, dp_payload = payload\<rparr>;
               payload_bytes = ce_to_vec env payload;
               canonical = canonical_event_bytes (ce_to_vec env) (ce_sha256 env) draft org_id;
               signature = ed_sign (ce_crypto env) signing_key canonical in
           Some (envelope_from_signed draft key_id (b64_encode (ce_crypto env) (sig_to_bytes (ce_crypto env) signature)),
             payload_bytes)))"

definition org_payload :: "chrono_lib \<Rightarrow> 'n org_record \<Rightarrow> 'n json" where
  "org_payload ch r = org_event_payload (organization_json ch (or_org r)) (map_option org_config_json (or_config r))"

definition promotion_fgrn :: "string \<Rightarrow> segment \<Rightarrow> native_id \<Rightarrow> (cp_error, fgrn) outcome" where
  "promotion_fgrn org_id resource_type native_id =
     (case segment_try_new org_id of
        Inl e \<Rightarrow> Some (Inl (CpStore (''org id is not a valid FGRN segment: '' @ core_error_display e)))
      | Inr org \<Rightarrow> map_option Inr (fgrn_resource org resource_type native_id))"

definition promotion_event_payload :: "fgrn \<Rightarrow> segment \<Rightarrow> native_id \<Rightarrow> 'n json" where
  "promotion_event_payload f resource_type native_id =
     JObj [(''fgrn'', JStr (fgrn_display f)), (''resource_type'', JStr (seg_str resource_type)),
       (''native_id'', JStr (nid_str native_id))]"

section \<open>The store\<close>

record ('n, 'sk) memory_events =
  me_principals :: "(string \<times> native_id, 'n json) hash_map"
  me_logs :: "string \<Rightarrow> 'n event_envelope list"
  me_signing_key :: 'sk
  me_promotions :: "(string \<times> string \<times> string, string) hash_map"
  me_orgs :: "(string, 'n org_record) hash_map"
  me_signing_keys :: "(string, signing_key_entry list) hash_map"
  me_groups :: "(string \<times> string, rbac_entry) hash_map"
  me_org_store :: "'n org_store option"

definition IN_MEMORY_KEY_ID :: string where "IN_MEMORY_KEY_ID = ''in-memory-test-key''"

text \<open>\<open>seed_key\<close> is the key made from the fixed seed.\<close>

definition memory_events_new :: "'sk \<Rightarrow> 'n org_store option \<Rightarrow> ('n, 'sk) memory_events" where
  "memory_events_new seed_key st =
     \<lparr>me_principals = [], me_logs = (\<lambda>_. []), me_signing_key = seed_key, me_promotions = [], me_orgs = [],
      me_signing_keys = [], me_groups = [], me_org_store = st\<rparr>"

definition check_expected_revision :: "nat \<Rightarrow> nat option \<Rightarrow> (cp_error, unit) result" where
  "check_expected_revision current expected =
     (case expected of
        Some r \<Rightarrow> if current \<noteq> r then Inl (CpRevisionMismatch current) else Inr ()
      | None \<Rightarrow> Inr ())"

definition latest_revision :: "('n, 'sk) memory_events \<Rightarrow> string \<Rightarrow> nat" where
  "latest_revision s org_id = log_latest_revision (me_logs s org_id)"

definition events_after :: "('n, 'sk) memory_events \<Rightarrow> string \<Rightarrow> nat \<Rightarrow> nat \<Rightarrow> 'n event_envelope list" where
  "events_after s org_id after limit = log_events_after (me_logs s org_id) after limit"

definition mint_and_push ::
    "('n, 'sk, 'vk, 'sig) cp_env \<Rightarrow> call_inputs \<Rightarrow> ('n, 'sk) memory_events \<Rightarrow> string \<Rightarrow> event_kind \<Rightarrow> actor \<Rightarrow> 'n json
      \<Rightarrow> (cp_error, nat \<times> ('n, 'sk) memory_events) outcome" where
  "mint_and_push env ci s org_id kind actor payload =
     (let revision = Suc (latest_revision s org_id) in
      map_option (\<lambda>(envelope, _). Inr (revision, s\<lparr>me_logs := (me_logs s)(org_id := me_logs s org_id @ [envelope])\<rparr>))
        (build_model_event env org_id kind actor payload (me_signing_key s) IN_MEMORY_KEY_ID (ci_occurred_at ci)
          revision (ci_ulid ci)))"

definition write_through :: "('n org_store \<Rightarrow> 'n org_store) \<Rightarrow> ('n, 'sk) memory_events \<Rightarrow> ('n, 'sk) memory_events" where
  "write_through f s = s\<lparr>me_org_store := map_option f (me_org_store s)\<rparr>"

definition put_org :: "('n, 'sk, 'vk, 'sig) cp_env \<Rightarrow> 'n org_record \<Rightarrow> ('n, 'sk) memory_events \<Rightarrow> ('n, 'sk) memory_events" where
  "put_org env r s =
     (let s' = write_through (write_through_org (ce_json env) (or_org r) (or_config r)) s in
      s'\<lparr>me_orgs := hm_insert (seg_str (o_id (or_org r))) r (me_orgs s')\<rparr>)"

subsection \<open>Principals and promotions\<close>

definition get_principal :: "('n, 'sk) memory_events \<Rightarrow> string \<Rightarrow> native_id \<Rightarrow> 'n json option" where
  "get_principal s org_id i = map_of (me_principals s) (org_id, i)"

definition upsert_changed ::
    "('n, 'sk, 'vk, 'sig) cp_env \<Rightarrow> call_inputs \<Rightarrow> ('n, 'sk) memory_events \<Rightarrow> string \<Rightarrow> native_id \<Rightarrow> actor \<Rightarrow> 'n json
      \<Rightarrow> (cp_error, nat \<times> ('n, 'sk) memory_events) outcome" where
  "upsert_changed env ci s org_id i actor payload =
     outcome_then (mint_and_push env ci s org_id PrincipalUpserted actor (principal_event_payload i payload)) (\<lambda>(r, s').
     Some (Inr (r, s'\<lparr>me_principals := hm_insert (org_id, i) payload (me_principals s')\<rparr>)))"

definition get_promotion :: "('n, 'sk) memory_events \<Rightarrow> string \<Rightarrow> segment \<Rightarrow> native_id \<Rightarrow> string option" where
  "get_promotion s org_id t i = map_of (me_promotions s) (org_id, seg_str t, nid_str i)"

definition put_promotion ::
    "('n, 'sk, 'vk, 'sig) cp_env \<Rightarrow> call_inputs \<Rightarrow> ('n, 'sk) memory_events \<Rightarrow> string \<Rightarrow> segment \<Rightarrow> native_id \<Rightarrow> actor
      \<Rightarrow> (cp_error, nat \<times> ('n, 'sk) memory_events) outcome" where
  "put_promotion env ci s org_id t i actor =
     outcome_then (promotion_fgrn org_id t i) (\<lambda>f.
     outcome_then (mint_and_push env ci s org_id ResourcePromoted actor (promotion_event_payload f t i)) (\<lambda>(r, s').
     Some (Inr (r, s'\<lparr>me_promotions := hm_insert (org_id, seg_str t, nid_str i) (fgrn_display f) (me_promotions s')\<rparr>))))"

definition tombstone_promotion ::
    "('n, 'sk, 'vk, 'sig) cp_env \<Rightarrow> call_inputs \<Rightarrow> ('n, 'sk) memory_events \<Rightarrow> string \<Rightarrow> segment \<Rightarrow> native_id \<Rightarrow> actor
      \<Rightarrow> (cp_error, nat option \<times> ('n, 'sk) memory_events) outcome" where
  "tombstone_promotion env ci s org_id t i actor =
     (case get_promotion s org_id t i of
        None \<Rightarrow> Some (Inr (None, s))
      | Some stored \<Rightarrow>
          outcome_then (Some (map_err (\<lambda>e. CpStore (''stored promotion fgrn invalid: '' @ core_error_display e)) (fgrn_parse stored))) (\<lambda>f.
          outcome_then (mint_and_push env ci s org_id ResourceTombstoned actor (promotion_event_payload f t i)) (\<lambda>(r, s').
          Some (Inr (Some r, s'\<lparr>me_promotions := hm_remove (org_id, seg_str t, nid_str i) (me_promotions s')\<rparr>)))))"

record promotion_entry =
  pe_fgrn :: string
  pe_native_id :: string

definition list_promotions :: "('n, 'sk) memory_events \<Rightarrow> string \<Rightarrow> segment \<Rightarrow> native_id option \<Rightarrow> nat \<Rightarrow> promotion_entry list" where
  "list_promotions s org_id t after limit =
     (let entries = map (\<lambda>((org, ty, i), f). \<lparr>pe_fgrn = f, pe_native_id = i\<rparr>)
            (filter (\<lambda>((org, ty, i), f). org = org_id \<and> ty = seg_str t) (me_promotions s));
          sorted_entries = sort_key pe_native_id entries;
          retained = (case after of
              Some a \<Rightarrow> filter (\<lambda>e. pe_native_id e > nid_str a) sorted_entries
            | None \<Rightarrow> sorted_entries) in
      take limit retained)"

subsection \<open>Organizations\<close>

definition create_org ::
    "('n, 'sk, 'vk, 'sig) cp_env \<Rightarrow> call_inputs \<Rightarrow> ('n, 'sk) memory_events \<Rightarrow> 'n org_record \<Rightarrow> actor
      \<Rightarrow> (cp_error, nat \<times> ('n, 'sk) memory_events) outcome" where
  "create_org env ci s record actor =
     (let org_id = seg_str (o_id (or_org record)) in
      if hm_contains (me_orgs s) org_id then
        Some (Inl (CpConflict (''organization '' @ quoted org_id @ '' already exists'')))
      else
        outcome_then (mint_and_push env ci s org_id OrgCreated actor (org_payload (ce_chrono env) record)) (\<lambda>(r, s').
        Some (Inr (r, put_org env record s'))))"

definition append_org_state ::
    "('n, 'sk, 'vk, 'sig) cp_env \<Rightarrow> call_inputs \<Rightarrow> ('n, 'sk) memory_events \<Rightarrow> 'n org_record \<Rightarrow> event_kind \<Rightarrow> actor \<Rightarrow> nat option
      \<Rightarrow> (cp_error, nat \<times> ('n, 'sk) memory_events) outcome" where
  "append_org_state env ci s record kind actor expected =
     (let org_id = seg_str (o_id (or_org record)) in
      outcome_then (Some (check_expected_revision (latest_revision s org_id) expected)) (\<lambda>_.
      outcome_then (mint_and_push env ci s org_id kind actor (org_payload (ce_chrono env) record)) (\<lambda>(r, s').
      Some (Inr (r, put_org env record s')))))"

definition update_org ::
    "('n, 'sk, 'vk, 'sig) cp_env \<Rightarrow> call_inputs \<Rightarrow> ('n, 'sk) memory_events \<Rightarrow> 'n org_record \<Rightarrow> actor \<Rightarrow> nat option
      \<Rightarrow> (cp_error, nat \<times> ('n, 'sk) memory_events) outcome" where
  "update_org env ci s record actor expected = append_org_state env ci s record OrgUpdated actor expected"

definition transition_org ::
    "('n, 'sk, 'vk, 'sig) cp_env \<Rightarrow> call_inputs \<Rightarrow> ('n, 'sk) memory_events \<Rightarrow> 'n org_record \<Rightarrow> event_kind \<Rightarrow> actor \<Rightarrow> nat
      \<Rightarrow> (cp_error, nat \<times> ('n, 'sk) memory_events) outcome" where
  "transition_org env ci s record kind actor expected = append_org_state env ci s record kind actor (Some expected)"

subsection \<open>Signing keys of an organization\<close>

definition signing_keys_json :: "chrono_lib \<Rightarrow> signing_key_entry list \<Rightarrow> 'n json" where
  "signing_keys_json ch ks = JArr (map (signing_key_entry_json ch) ks)"

definition append_org_keys ::
    "('n, 'sk, 'vk, 'sig) cp_env \<Rightarrow> call_inputs \<Rightarrow> ('n, 'sk) memory_events \<Rightarrow> string \<Rightarrow> event_kind \<Rightarrow> actor \<Rightarrow> key_transition
      \<Rightarrow> (cp_error, nat option \<times> ('n, 'sk) memory_events) outcome" where
  "append_org_keys env ci s org_id kind actor transition =
     (if \<not> hm_contains (me_orgs s) org_id then
        Some (Inl (CpNotFound (''organization '' @ quoted org_id @ '' not found'')))
      else
        outcome_then (Some (transition (case map_of (me_signing_keys s) org_id of Some ks \<Rightarrow> ks | None \<Rightarrow> []))) (\<lambda>t.
        case t of
          None \<Rightarrow> Some (Inr (None, s))
        | Some (affected, new_keys) \<Rightarrow>
            outcome_then (mint_and_push env ci s org_id kind actor
                (key_event_payload affected (signing_keys_json (ce_chrono env) new_keys))) (\<lambda>(r, s').
            (let s'' = s'\<lparr>me_signing_keys := hm_insert org_id new_keys (me_signing_keys s')\<rparr> in
             Some (Inr (Some r,
               case typed_id_new org_id of
                 Inr i \<Rightarrow> write_through (write_through_signing_keys i new_keys) s''
               | Inl _ \<Rightarrow> s''))))))"

definition generate_org_key ::
    "('n, 'sk, 'vk, 'sig) cp_env \<Rightarrow> call_inputs \<Rightarrow> ('n, 'sk) memory_events \<Rightarrow> string \<Rightarrow> actor
      \<Rightarrow> (cp_error, (generate_key_result \<times> nat) \<times> ('n, 'sk) memory_events) outcome" where
  "generate_org_key env ci s org_id actor =
     outcome_then (Some (ci_key ci)) (\<lambda>result.
     outcome_then (Some (to_entry result)) (\<lambda>new_entry.
     outcome_then (append_org_keys env ci s org_id OrgKeyGenerated actor
         (generate_key_transition new_entry (gk_key_id result))) (\<lambda>(r, s').
     case r of Some revision \<Rightarrow> Some (Inr ((result, revision), s')) | None \<Rightarrow> None)))"

definition revoke_org_key ::
    "('n, 'sk, 'vk, 'sig) cp_env \<Rightarrow> call_inputs \<Rightarrow> ('n, 'sk) memory_events \<Rightarrow> string \<Rightarrow> string \<Rightarrow> actor
      \<Rightarrow> (cp_error, nat option \<times> ('n, 'sk) memory_events) outcome" where
  "revoke_org_key env ci s org_id key_id actor =
     append_org_keys env ci s org_id OrgKeyRevoked actor (revoke_key_transition key_id)"

definition rotate_org_key ::
    "('n, 'sk, 'vk, 'sig) cp_env \<Rightarrow> call_inputs \<Rightarrow> ('n, 'sk) memory_events \<Rightarrow> string \<Rightarrow> string \<Rightarrow> actor
      \<Rightarrow> (cp_error, (generate_key_result \<times> nat) \<times> ('n, 'sk) memory_events) outcome" where
  "rotate_org_key env ci s org_id key_id actor =
     outcome_then (Some (ci_key ci)) (\<lambda>result.
     outcome_then (Some (to_entry result)) (\<lambda>new_entry.
     outcome_then (append_org_keys env ci s org_id OrgKeyRotated actor
         (rotate_key_transition key_id new_entry (ci_now ci) (ROTATION_GRACE_HOURS * HOUR))) (\<lambda>(r, s').
     case r of Some revision \<Rightarrow> Some (Inr ((result, revision), s')) | None \<Rightarrow> None)))"

subsection \<open>Groups\<close>

datatype group_write_outcome = GroupNoOp nat | GroupApplied nat

definition put_group ::
    "('n, 'sk, 'vk, 'sig) cp_env \<Rightarrow> call_inputs \<Rightarrow> ('n, 'sk) memory_events \<Rightarrow> string \<Rightarrow> rbac_entry \<Rightarrow> actor \<Rightarrow> nat option
      \<Rightarrow> (cp_error, group_write_outcome \<times> ('n, 'sk) memory_events) outcome" where
  "put_group env ci s org_id entry actor expected =
     (let name = re_name entry; new_value = rbac_entry_json entry in
      case decide_upsert (map_option rbac_entry_json (map_of (me_groups s) (org_id, name))) new_value of
        NoOp \<Rightarrow> Some (Inr (GroupNoOp (latest_revision s org_id), s))
      | Changed _ \<Rightarrow>
          outcome_then (Some (check_expected_revision (latest_revision s org_id) expected)) (\<lambda>_.
          outcome_then (mint_and_push env ci s org_id GroupPut actor (group_put_payload name new_value)) (\<lambda>(r, s').
          (let s'' = s'\<lparr>me_groups := hm_insert (org_id, name) entry (me_groups s')\<rparr> in
           Some (Inr (GroupApplied r,
             case typed_id_new org_id of
               Inr i \<Rightarrow> write_through (write_through_group i (etaged_group_compute (ce_json env) entry)) s''
             | Inl _ \<Rightarrow> s''))))))"

definition delete_group ::
    "('n, 'sk, 'vk, 'sig) cp_env \<Rightarrow> call_inputs \<Rightarrow> ('n, 'sk) memory_events \<Rightarrow> string \<Rightarrow> string \<Rightarrow> actor \<Rightarrow> nat option
      \<Rightarrow> (cp_error, group_write_outcome \<times> ('n, 'sk) memory_events) outcome" where
  "delete_group env ci s org_id name actor expected =
     (if \<not> hm_contains (me_groups s) (org_id, name) then Some (Inr (GroupNoOp (latest_revision s org_id), s))
      else
        outcome_then (Some (check_expected_revision (latest_revision s org_id) expected)) (\<lambda>_.
        outcome_then (mint_and_push env ci s org_id GroupDeleted actor (group_deleted_payload name)) (\<lambda>(r, s').
        (let s'' = s'\<lparr>me_groups := hm_remove (org_id, name) (me_groups s')\<rparr> in
         Some (Inr (GroupApplied r,
           case typed_id_new org_id of
             Inr i \<Rightarrow> write_through (write_through_group_delete i name) s''
           | Inl _ \<Rightarrow> s''))))))"

subsection \<open>Folding the log in pages\<close>

definition FOLD_PAGE_SIZE :: nat where "FOLD_PAGE_SIZE = 100"

function fold_pages :: "'n event_envelope list \<Rightarrow> nat \<Rightarrow> nat \<Rightarrow> 'n event_envelope list" where
  "fold_pages log target after =
     (let page = log_events_after log after FOLD_PAGE_SIZE in
      if page = [] then []
      else if length page < FOLD_PAGE_SIZE \<or> ev_seq (last page) \<ge> target then page
      else page @ fold_pages log target (ev_seq (last page)))"
  by pat_completeness auto
termination
proof (relation "measure (\<lambda>(log, target, after). length (filter (\<lambda>e. ev_seq e > after) log))")
  fix log :: "'n event_envelope list" and target after page
  assume page: "page = log_events_after log after FOLD_PAGE_SIZE" "page \<noteq> []"
  have "last page \<in> set (filter (\<lambda>e. ev_seq e > after) log)"
    using last_in_set [OF page(2)] set_take_subset unfolding page(1) log_events_after_def by fast
  then have l: "last page \<in> set log" "after < ev_seq (last page)" by auto
  then have "filter (\<lambda>e. ev_seq e > ev_seq (last page)) log =
      filter (\<lambda>e. ev_seq e > ev_seq (last page)) (filter (\<lambda>e. ev_seq e > after) log)"
    by (auto intro: filter_cong)
  moreover have "length (filter (\<lambda>e. ev_seq e > ev_seq (last page)) (filter (\<lambda>e. ev_seq e > after) log)) <
      length (filter (\<lambda>e. ev_seq e > after) log)"
    by (rule length_filter_less [of "last page"]) (use l in auto)
  ultimately show "((log, target, ev_seq (last page)), log, target, after) \<in>
      measure (\<lambda>(log, target, after). length (filter (\<lambda>e. ev_seq e > after) log))" by simp
qed simp

declare fold_pages.simps [simp del]

definition fold_at :: "('n, 'sk) memory_events \<Rightarrow> string \<Rightarrow> nat option \<Rightarrow> (cp_error, 'n folded_state) result" where
  "fold_at s org_id at =
     (let latest = latest_revision s org_id in
      if at = None \<and> latest = 0 then Inr folded_empty
      else
        (let target = (case at of Some r \<Rightarrow> r | None \<Rightarrow> latest) in
         map_err (CpStore \<circ> authz_error_display) (fold_events (fold_pages (me_logs s org_id) target 0) target)))"

section \<open>The store is the fold of its log\<close>

text \<open>What the store answers to reads, as the abstract state of the log's fold.\<close>

fun read_model :: "chrono_lib \<Rightarrow> ('n, 'sk) memory_events \<Rightarrow> string \<Rightarrow> 'n model" where
  "read_model ch s org (MPrincipal i) = map_option Doc (map_of (me_principals s) (org, NativeId i))"
| "read_model ch s org (MPromotion t i) = map_option Name (map_of (me_promotions s) (org, t, i))"
| "read_model ch s org MOrg = map_option (\<lambda>r. Doc (org_payload ch r)) (map_of (me_orgs s) org)"
| "read_model ch s org MOrgKeys = map_option (\<lambda>ks. Doc (signing_keys_json ch ks)) (map_of (me_signing_keys s) org)"
| "read_model ch s org (MGroup n) = map_option (\<lambda>e. Doc (rbac_entry_json e)) (map_of (me_groups s) (org, n))"

lemma read_model_updates:
  "read_model ch (s\<lparr>me_principals := hm_insert (org, i) p (me_principals s)\<rparr>) =
     (read_model ch s)(org := (read_model ch s org)(MPrincipal (nid_str i) \<mapsto> Doc p))"
  "read_model ch (s\<lparr>me_promotions := hm_insert (org, t, j) f (me_promotions s)\<rparr>) =
     (read_model ch s)(org := (read_model ch s org)(MPromotion t j \<mapsto> Name f))"
  "read_model ch (s\<lparr>me_promotions := hm_remove (org, t, j) (me_promotions s)\<rparr>) =
     (read_model ch s)(org := (read_model ch s org)(MPromotion t j := None))"
  "read_model ch (s\<lparr>me_orgs := hm_insert org r (me_orgs s)\<rparr>) =
     (read_model ch s)(org := (read_model ch s org)(MOrg \<mapsto> Doc (org_payload ch r)))"
  "read_model ch (s\<lparr>me_signing_keys := hm_insert org ks (me_signing_keys s)\<rparr>) =
     (read_model ch s)(org := (read_model ch s org)(MOrgKeys \<mapsto> Doc (signing_keys_json ch ks)))"
  "read_model ch (s\<lparr>me_groups := hm_insert (org, n) e (me_groups s)\<rparr>) =
     (read_model ch s)(org := (read_model ch s org)(MGroup n \<mapsto> Doc (rbac_entry_json e)))"
  "read_model ch (s\<lparr>me_groups := hm_remove (org, n) (me_groups s)\<rparr>) =
     (read_model ch s)(org := (read_model ch s org)(MGroup n := None))"
  "read_model ch (s\<lparr>me_logs := l\<rparr>) = read_model ch s"
  "read_model ch (s\<lparr>me_org_store := st\<rparr>) = read_model ch s"
  by (rule ext, rule ext, rename_tac o' k, case_tac k; auto simp: hm_insert_lookup hm_remove_lookup)+

text \<open>An event signed for an organization with the store's key.\<close>

definition event_signed :: "('n, 'sk, 'vk, 'sig) cp_env \<Rightarrow> 'sk \<Rightarrow> string \<Rightarrow> 'n event_envelope \<Rightarrow> bool" where
  "event_signed env key org e \<longleftrightarrow>
     ev_signature e = b64_encode (ce_crypto env) (sig_to_bytes (ce_crypto env)
       (ed_sign (ce_crypto env) key (canonical_envelope_bytes (ce_to_vec env) (ce_sha256 env) e org)))"

lemma mint_and_push_Inr:
  assumes "mint_and_push env ci s org kind actor payload = Some (Inr (r, s'))"
  obtains e where "r = Suc (latest_revision s org)" "s' = s\<lparr>me_logs := (me_logs s)(org := me_logs s org @ [e])\<rparr>"
    "ev_seq e = r" "ev_kind e = kind" "ev_payload e = payload" "event_signed env (me_signing_key s) org e"
  using assms
  by (auto simp: mint_and_push_def Let_def build_model_event_def event_id_try_new_def envelope_from_signed_def
      event_draft_new_def event_signed_def canonical_event_bytes_def canonical_envelope_bytes_def
      fields_of_draft_def fields_of_envelope_def split: if_splits)

text \<open>One event is appended to one log, and the store shows what that event writes.\<close>

definition appended ::
    "('n, 'sk, 'vk, 'sig) cp_env \<Rightarrow> ('n, 'sk) memory_events \<Rightarrow> ('n, 'sk) memory_events \<Rightarrow> string \<Rightarrow> bool" where
  "appended env s s' org \<longleftrightarrow>
     (\<exists>e k v. me_logs s' = (me_logs s)(org := me_logs s org @ [e]) \<and> ev_seq e = Suc (latest_revision s org) \<and>
        event_write e = Some (k, v) \<and> event_signed env (me_signing_key s) org e \<and> me_signing_key s' = me_signing_key s \<and>
        read_model (ce_chrono env) s' =
          (read_model (ce_chrono env) s)(org := (read_model (ce_chrono env) s org)(k := v)))"

lemma mint_appended:
  assumes "mint_and_push env ci s org kind actor payload = Some (Inr (r, s1))"
    and "\<And>e. ev_kind e = kind \<Longrightarrow> ev_payload e = payload \<Longrightarrow> event_write e = Some (k, v)"
    and "me_logs s' = me_logs s1" "me_signing_key s' = me_signing_key s1"
    and "read_model (ce_chrono env) s' =
      (read_model (ce_chrono env) s1)(org := (read_model (ce_chrono env) s1 org)(k := v))"
  shows "appended env s s' org \<and> r = Suc (latest_revision s org)"
proof -
  obtain e where e: "r = Suc (latest_revision s org)" "s1 = s\<lparr>me_logs := (me_logs s)(org := me_logs s org @ [e])\<rparr>"
    "ev_seq e = r" "ev_kind e = kind" "ev_payload e = payload" "event_signed env (me_signing_key s) org e"
    using assms(1) by (rule mint_and_push_Inr)
  have "read_model (ce_chrono env) s1 = read_model (ce_chrono env) s" by (simp add: e(2) read_model_updates)
  then show ?thesis
    unfolding appended_def using assms(2) [OF e(4,5)] assms(3-5) e
    by (intro conjI exI [of _ e] exI [of _ k] exI [of _ v]) simp_all
qed

lemma write_through_simps [simp]:
  "me_logs (write_through f s) = me_logs s" "me_signing_key (write_through f s) = me_signing_key s"
  "read_model ch (write_through f s) = read_model ch s"
  "me_orgs (write_through f s) = me_orgs s"
  by (simp_all add: write_through_def read_model_updates)

lemma put_org_simps:
  "me_logs (put_org env r s) = me_logs s" "me_signing_key (put_org env r s) = me_signing_key s"
  "read_model ch (put_org env r s) = (read_model ch s)(seg_str (o_id (or_org r)) :=
     (read_model ch s (seg_str (o_id (or_org r))))(MOrg \<mapsto> Doc (org_payload ch r)))"
proof -
  show "read_model ch (put_org env r s) = (read_model ch s)(seg_str (o_id (or_org r)) :=
     (read_model ch s (seg_str (o_id (or_org r))))(MOrg \<mapsto> Doc (org_payload ch r)))"
    unfolding put_org_def Let_def read_model_updates(4) by simp
qed (simp_all add: put_org_def Let_def)

lemmas payload_defs = principal_event_payload_def promotion_event_payload_def org_payload_def org_event_payload_def
  organization_json_def key_event_payload_def group_put_payload_def group_deleted_payload_def

section \<open>Every operation appends one event or none\<close>

lemma upsert_changed_appends:
  assumes "upsert_changed env ci s org i actor p = Some (Inr (r, s'))"
  shows "appended env s s' org \<and> r = Suc (latest_revision s org)"
proof -
  obtain s1 where s1: "mint_and_push env ci s org PrincipalUpserted actor (principal_event_payload i p) = Some (Inr (r, s1))"
      "s' = s1\<lparr>me_principals := hm_insert (org, i) p (me_principals s1)\<rparr>"
    using assms by (auto simp: upsert_changed_def)
  show ?thesis
    by (rule mint_appended [OF s1(1), where k = "MPrincipal (nid_str i)" and v = "Some (Doc p)"])
      (simp_all add: s1(2) read_model_updates event_write_def text_field_def payload_defs)
qed

lemma put_promotion_appends:
  assumes "put_promotion env ci s org t i actor = Some (Inr (r, s'))"
  shows "appended env s s' org \<and> r = Suc (latest_revision s org)"
proof -
  obtain f s1 where s1: "mint_and_push env ci s org ResourcePromoted actor (promotion_event_payload f t i) = Some (Inr (r, s1))"
      "s' = s1\<lparr>me_promotions := hm_insert (org, seg_str t, nid_str i) (fgrn_display f) (me_promotions s1)\<rparr>"
    using assms by (auto simp: put_promotion_def)
  show ?thesis
    by (rule mint_appended [OF s1(1), where k = "MPromotion (seg_str t) (nid_str i)" and v = "Some (Name (fgrn_display f))"])
      (simp_all add: s1(2) read_model_updates event_write_def text_field_def payload_defs)
qed

lemma tombstone_promotion_appends:
  assumes "tombstone_promotion env ci s org t i actor = Some (Inr (r, s'))"
  shows "(r = None \<and> s' = s) \<or> (appended env s s' org \<and> r = Some (Suc (latest_revision s org)))"
proof (cases "get_promotion s org t i")
  case None
  then show ?thesis using assms by (simp add: tombstone_promotion_def)
next
  case (Some stored)
  then obtain f r1 s1 where s1: "mint_and_push env ci s org ResourceTombstoned actor (promotion_event_payload f t i) = Some (Inr (r1, s1))"
      "s' = s1\<lparr>me_promotions := hm_remove (org, seg_str t, nid_str i) (me_promotions s1)\<rparr>" "r = Some r1"
    using assms by (auto simp: tombstone_promotion_def)
  have "appended env s s' org \<and> r1 = Suc (latest_revision s org)"
    by (rule mint_appended [OF s1(1), where k = "MPromotion (seg_str t) (nid_str i)" and v = None])
      (simp_all add: s1(2) read_model_updates event_write_def text_field_def payload_defs)
  then show ?thesis using s1(3) by simp
qed

lemma org_event_appends:
  assumes "mint_and_push env ci s (seg_str (o_id (or_org rec))) kind actor (org_payload (ce_chrono env) rec) = Some (Inr (r, s1))"
    and "kind \<in> {OrgCreated, OrgUpdated, OrgActivated, OrgSuspended, OrgRestored}"
  shows "appended env s (put_org env rec s1) (seg_str (o_id (or_org rec))) \<and>
    r = Suc (latest_revision s (seg_str (o_id (or_org rec))))"
proof (rule mint_appended [OF assms(1), where k = MOrg and v = "Some (Doc (org_payload (ce_chrono env) rec))"])
  fix e :: "'a event_envelope"
  assume "ev_kind e = kind" "ev_payload e = org_payload (ce_chrono env) rec"
  then show "event_write e = Some (MOrg, Some (Doc (org_payload (ce_chrono env) rec)))"
    using assms(2) by (auto simp: event_write_def Let_def payload_defs)
qed (simp_all add: put_org_simps)

lemma create_org_appends:
  assumes "create_org env ci s rec actor = Some (Inr (r, s'))"
  shows "appended env s s' (seg_str (o_id (or_org rec))) \<and> r = Suc (latest_revision s (seg_str (o_id (or_org rec))))"
  using assms by (auto simp: create_org_def Let_def split: if_splits dest!: org_event_appends)

lemma append_org_state_appends:
  assumes "append_org_state env ci s rec kind actor expected = Some (Inr (r, s'))"
    and "kind \<in> {OrgCreated, OrgUpdated, OrgActivated, OrgSuspended, OrgRestored}"
  shows "appended env s s' (seg_str (o_id (or_org rec))) \<and> r = Suc (latest_revision s (seg_str (o_id (or_org rec)))) \<and>
    (\<forall>n. expected = Some n \<longrightarrow> n = latest_revision s (seg_str (o_id (or_org rec))))"
proof -
  obtain s1 where s1: "mint_and_push env ci s (seg_str (o_id (or_org rec))) kind actor (org_payload (ce_chrono env) rec) = Some (Inr (r, s1))"
      "s' = put_org env rec s1" "check_expected_revision (latest_revision s (seg_str (o_id (or_org rec)))) expected = Inr ()"
    using assms(1) by (auto simp: append_org_state_def Let_def)
  then show ?thesis using org_event_appends [OF s1(1) assms(2)]
    by (auto simp: check_expected_revision_def split: if_splits)
qed

lemma append_org_keys_appends:
  assumes "append_org_keys env ci s org kind actor transition = Some (Inr (r, s'))"
    and "kind \<in> {OrgKeyGenerated, OrgKeyRevoked, OrgKeyRotated}"
  shows "(r = None \<and> s' = s) \<or> (appended env s s' org \<and> r = Some (Suc (latest_revision s org)))"
proof -
  let ?ks = "case map_of (me_signing_keys s) org of Some ks \<Rightarrow> ks | None \<Rightarrow> []"
  obtain t where t: "transition ?ks = Inr t" using assms(1) by (auto simp: append_org_keys_def split: if_splits)
  show ?thesis
  proof (cases t)
    case None
    then show ?thesis using assms(1) t by (auto simp: append_org_keys_def split: if_splits)
  next
    case (Some a)
    then obtain k ks where a: "t = Some (k, ks)" by (cases a) auto
    obtain r1 s1 where s1: "mint_and_push env ci s org kind actor (key_event_payload k (signing_keys_json (ce_chrono env) ks)) = Some (Inr (r1, s1))"
        "r = Some r1" "me_logs s' = me_logs s1" "me_signing_key s' = me_signing_key s1"
        "read_model (ce_chrono env) s' = read_model (ce_chrono env) (s1\<lparr>me_signing_keys := hm_insert org ks (me_signing_keys s1)\<rparr>)"
      using assms(1) t a by (cases "typed_id_new org") (auto simp: append_org_keys_def Let_def split: if_splits)
    have "appended env s s' org \<and> r1 = Suc (latest_revision s org)"
    proof (rule mint_appended [OF s1(1), where k = MOrgKeys and v = "Some (Doc (signing_keys_json (ce_chrono env) ks))"])
      fix e :: "'a event_envelope"
      assume "ev_kind e = kind" "ev_payload e = key_event_payload k (signing_keys_json (ce_chrono env) ks)"
      then show "event_write e = Some (MOrgKeys, Some (Doc (signing_keys_json (ce_chrono env) ks)))"
        using assms(2) by (auto simp: event_write_def Let_def payload_defs)
    qed (simp_all add: s1 read_model_updates)
    then show ?thesis using s1(2) by simp
  qed
qed

lemma put_group_appends:
  assumes "put_group env ci s org entry actor expected = Some (Inr (out, s'))"
  shows "(out = GroupNoOp (latest_revision s org) \<and> s' = s) \<or>
    (appended env s s' org \<and> out = GroupApplied (Suc (latest_revision s org)))"
proof (cases "decide_upsert (map_option rbac_entry_json (map_of (me_groups s) (org, re_name entry))) (rbac_entry_json entry :: 'a json)")
  case NoOp
  then show ?thesis using assms by (auto simp: put_group_def Let_def)
next
  case (Changed x)
  then obtain r1 s1 where s1: "mint_and_push env ci s org GroupPut actor (group_put_payload (re_name entry) (rbac_entry_json entry)) = Some (Inr (r1, s1))"
      "out = GroupApplied r1" "me_logs s' = me_logs s1" "me_signing_key s' = me_signing_key s1"
      "read_model (ce_chrono env) s' = read_model (ce_chrono env) (s1\<lparr>me_groups := hm_insert (org, re_name entry) entry (me_groups s1)\<rparr>)"
    using assms by (cases "typed_id_new org") (auto simp: put_group_def Let_def)
  have "appended env s s' org \<and> r1 = Suc (latest_revision s org)"
    by (rule mint_appended [OF s1(1), where k = "MGroup (re_name entry)" and v = "Some (Doc (rbac_entry_json entry))"])
      (simp_all add: s1 read_model_updates event_write_def text_field_def payload_defs)
  then show ?thesis using s1(2) by simp
qed

lemma delete_group_appends:
  assumes "delete_group env ci s org name actor expected = Some (Inr (out, s'))"
  shows "(out = GroupNoOp (latest_revision s org) \<and> s' = s) \<or>
    (appended env s s' org \<and> out = GroupApplied (Suc (latest_revision s org)))"
proof (cases "hm_contains (me_groups s) (org, name)")
  case False
  then show ?thesis using assms by (auto simp: delete_group_def)
next
  case True
  then obtain r1 s1 where s1: "mint_and_push env ci s org GroupDeleted actor (group_deleted_payload name) = Some (Inr (r1, s1))"
      "out = GroupApplied r1" "me_logs s' = me_logs s1" "me_signing_key s' = me_signing_key s1"
      "read_model (ce_chrono env) s' = read_model (ce_chrono env) (s1\<lparr>me_groups := hm_remove (org, name) (me_groups s1)\<rparr>)"
    using assms by (cases "typed_id_new org") (auto simp: delete_group_def Let_def)
  have "appended env s s' org \<and> r1 = Suc (latest_revision s org)"
    by (rule mint_appended [OF s1(1), where k = "MGroup name" and v = None])
      (simp_all add: s1 read_model_updates event_write_def text_field_def payload_defs)
  then show ?thesis using s1(2) by simp
qed

section \<open>Reachable stores\<close>

inductive store_step ::
    "('n, 'sk, 'vk, 'sig) cp_env \<Rightarrow> ('n, 'sk) memory_events \<Rightarrow> ('n, 'sk) memory_events \<Rightarrow> bool" for env where
  upsert: "upsert_changed env ci s org i actor p = Some (Inr (r, s')) \<Longrightarrow> store_step env s s'"
| promote: "put_promotion env ci s org t i actor = Some (Inr (r, s')) \<Longrightarrow> store_step env s s'"
| tombstone: "tombstone_promotion env ci s org t i actor = Some (Inr (r', s')) \<Longrightarrow> store_step env s s'"
| create: "create_org env ci s rec actor = Some (Inr (r, s')) \<Longrightarrow> store_step env s s'"
| update: "update_org env ci s rec actor expected = Some (Inr (r, s')) \<Longrightarrow> store_step env s s'"
| transition: "transition_org env ci s rec kind actor n = Some (Inr (r, s')) \<Longrightarrow>
    kind \<in> {OrgActivated, OrgSuspended, OrgRestored} \<Longrightarrow> store_step env s s'"
| generate: "generate_org_key env ci s org actor = Some (Inr (g, s')) \<Longrightarrow> store_step env s s'"
| revoke: "revoke_org_key env ci s org key actor = Some (Inr (r', s')) \<Longrightarrow> store_step env s s'"
| rotate: "rotate_org_key env ci s org key actor = Some (Inr (g, s')) \<Longrightarrow> store_step env s s'"
| put_group: "put_group env ci s org entry actor expected = Some (Inr (out, s')) \<Longrightarrow> store_step env s s'"
| delete_group: "delete_group env ci s org name actor expected = Some (Inr (out, s')) \<Longrightarrow> store_step env s s'"

lemma store_step_appends:
  assumes "store_step env s s'"
  shows "s' = s \<or> (\<exists>org. appended env s s' org)"
  using assms
proof (cases rule: store_step.cases)
  case (upsert ci org i actor p r) then show ?thesis using upsert_changed_appends by blast
next
  case (promote ci org t i actor r) then show ?thesis using put_promotion_appends by blast
next
  case (tombstone ci org t i actor r) then show ?thesis using tombstone_promotion_appends by blast
next
  case (create ci rec actor r) then show ?thesis using create_org_appends by blast
next
  case (update ci rec actor expected r)
  then show ?thesis using append_org_state_appends [of env ci s rec OrgUpdated actor expected r s']
    by (auto simp: update_org_def)
next
  case (transition ci rec kind actor n r)
  then show ?thesis using append_org_state_appends [of env ci s rec kind actor "Some n" r s']
    by (auto simp: transition_org_def)
next
  case (generate ci org actor g)
  then obtain tr r where "append_org_keys env ci s org OrgKeyGenerated actor tr = Some (Inr (Some r, s'))"
    by (auto simp: generate_org_key_def split: option.splits)
  then show ?thesis using append_org_keys_appends by blast
next
  case (revoke ci org key actor r)
  then have "append_org_keys env ci s org OrgKeyRevoked actor (revoke_key_transition key) = Some (Inr (r, s'))"
    by (simp add: revoke_org_key_def)
  then show ?thesis using append_org_keys_appends by blast
next
  case (rotate ci org key actor g)
  then obtain tr r where "append_org_keys env ci s org OrgKeyRotated actor tr = Some (Inr (Some r, s'))"
    by (auto simp: rotate_org_key_def split: option.splits)
  then show ?thesis using append_org_keys_appends by blast
next
  case (put_group ci org entry actor expected out) then show ?thesis using put_group_appends by blast
next
  case (delete_group ci org name actor expected out) then show ?thesis using delete_group_appends by blast
qed

text \<open>
  The invariant: every log is gap-free, all its events can be folded and carry a signature for their
  organization, and the store shows the state that replaying the log gives.
\<close>

definition store_inv :: "('n, 'sk, 'vk, 'sig) cp_env \<Rightarrow> ('n, 'sk) memory_events \<Rightarrow> bool" where
  "store_inv env s \<longleftrightarrow>
     (\<forall>org. gap_free 0 (me_logs s org) \<and>
       (\<forall>e \<in> set (me_logs s org). event_write e \<noteq> None \<and> event_signed env (me_signing_key s) org e) \<and>
       replay (me_logs s org) = read_model (ce_chrono env) s org)"

lemma gap_free_snoc: "gap_free n (es @ [e]) \<longleftrightarrow> gap_free n es \<and> ev_seq e = Suc (n + length es)"
  by (induction es arbitrary: n) auto

lemma gap_free_latest: "gap_free 0 es \<Longrightarrow> log_latest_revision es = length es"
  using gap_free_last [of 0 es] by (auto simp: log_latest_revision_def)

lemma store_inv_new: "store_inv env (memory_events_new key st)"
proof -
  have "read_model (ce_chrono env) (memory_events_new key st) org = Map.empty" for org
    by (rule ext, rename_tac k, case_tac k) (simp_all add: memory_events_new_def)
  then show ?thesis by (simp add: store_inv_def memory_events_new_def replay_def)
qed

lemma appended_inv:
  assumes "store_inv env s" "appended env s s' org"
  shows "store_inv env s'"
proof -
  obtain e k v where e: "me_logs s' = (me_logs s)(org := me_logs s org @ [e])" "ev_seq e = Suc (latest_revision s org)"
      "event_write e = Some (k, v)" "event_signed env (me_signing_key s) org e" "me_signing_key s' = me_signing_key s"
      "read_model (ce_chrono env) s' = (read_model (ce_chrono env) s)(org := (read_model (ce_chrono env) s org)(k := v))"
    using assms(2) unfolding appended_def by blast
  have old: "gap_free 0 (me_logs s o')" "replay (me_logs s o') = read_model (ce_chrono env) s o'"
      "\<forall>e \<in> set (me_logs s o'). event_write e \<noteq> None \<and> event_signed env (me_signing_key s) o' e" for o'
    using assms(1) unfolding store_inv_def by blast+
  have "gap_free 0 (me_logs s org @ [e])"
    using old(1) [of org] e(2) by (simp add: gap_free_snoc latest_revision_def gap_free_latest)
  moreover have "replay (me_logs s org @ [e]) = (read_model (ce_chrono env) s org)(k := v)"
    using old(2) [of org] e(3) by (simp add: replay_def write_event_def)
  ultimately show ?thesis using old e by (auto simp: store_inv_def)
qed

lemma store_steps_inv: "(store_step env)\<^sup>*\<^sup>* s s' \<Longrightarrow> store_inv env s \<Longrightarrow> store_inv env s'"
proof (induction rule: rtranclp_induct)
  case (step a b)
  then show ?case using store_step_appends [OF step(2)] appended_inv by blast
qed

text \<open>Logs only grow.\<close>

lemma store_steps_logs:
  "(store_step env)\<^sup>*\<^sup>* s s' \<Longrightarrow> (\<exists>es. me_logs s' org = me_logs s org @ es) \<and> me_signing_key s' = me_signing_key s"
proof (induction rule: rtranclp_induct)
  case (step a b)
  from store_step_appends [OF step(2)] show ?case
  proof
    assume "\<exists>org. appended env a b org"
    then obtain o' e where "me_logs b = (me_logs a)(o' := me_logs a o' @ [e])" "me_signing_key b = me_signing_key a"
      unfolding appended_def by blast
    then show ?thesis using step.IH by (cases "org = o'") auto
  qed (use step.IH in simp)
qed simp

subsection \<open>Pages\<close>

lemma gap_free_above: "gap_free n es \<Longrightarrow> \<forall>e \<in> set es. n < ev_seq e"
  by (induction es arbitrary: n) force+

lemma gap_free_drop: "gap_free n es \<Longrightarrow> k \<le> length es \<Longrightarrow> gap_free (n + k) (drop k es)"
proof (induction es arbitrary: n k)
  case (Cons e es)
  show ?case
  proof (cases k)
    case (Suc j)
    then show ?thesis using Cons.IH [of "Suc n" j] Cons.prems by simp
  qed (use Cons.prems in simp)
qed simp

lemma gap_free_take: "gap_free n es \<Longrightarrow> gap_free n (take k es)"
  by (induction es arbitrary: n k) (auto simp: take_Cons split: nat.splits)

lemma filter_after_drop:
  "gap_free n es \<Longrightarrow> filter (\<lambda>e. n + k < ev_seq e) es = drop k es"
proof (induction es arbitrary: n k)
  case (Cons e es)
  show ?case
  proof (cases k)
    case 0
    have "filter (\<lambda>e. n < ev_seq e) (e # es) = e # es"
      by (rule filter_True) (use gap_free_above [OF Cons.prems] in blast)
    then show ?thesis using 0 by simp
  next
    case (Suc k')
    then show ?thesis using Cons.IH [of "Suc n" k'] Cons.prems by simp
  qed
qed simp

lemma log_events_after_gap_free: "gap_free 0 es \<Longrightarrow> log_events_after es after limit = take limit (drop after es)"
  using filter_after_drop [of 0 es after] by (simp add: log_events_after_def)

lemma gap_free_page_seq:
  assumes "gap_free 0 es" "take m (drop a es) \<noteq> []"
  shows "ev_seq (last (take m (drop a es))) = a + length (take m (drop a es))"
proof -
  have "a \<le> length es" using assms(2) by (cases "a \<le> length es") auto
  then have "gap_free (0 + a) (take m (drop a es))" using gap_free_drop [OF assms(1)] gap_free_take by blast
  from gap_free_last [OF this assms(2)] show ?thesis by simp
qed

lemma fold_pages_take:
  assumes "gap_free 0 log"
  shows "after \<le> length log \<Longrightarrow>
    \<exists>n. fold_pages log target after = take n (drop after log) \<and> min target (length log) \<le> after + n"
  using assms
proof (induction log target after rule: fold_pages.induct)
  case (1 log target after)
  let ?page = "take FOLD_PAGE_SIZE (drop after log)"
  have page: "log_events_after log after FOLD_PAGE_SIZE = ?page"
    using 1(3) by (rule log_events_after_gap_free)
  show ?case
  proof (cases "?page = []")
    case True
    then have "after = length log" using 1(2) by (simp add: FOLD_PAGE_SIZE_def)
    moreover have "fold_pages log target after = []" using True page by (subst fold_pages.simps) simp
    ultimately show ?thesis by (intro exI [of _ 0]) simp
  next
    case False
    note seq = gap_free_page_seq [OF 1(3) False]
    show ?thesis
    proof (cases "length ?page < FOLD_PAGE_SIZE \<or> ev_seq (last ?page) \<ge> target")
      case True
      then have "fold_pages log target after = ?page"
        using page False by (subst fold_pages.simps) (simp add: Let_def)
      moreover have "min target (length log) \<le> after + FOLD_PAGE_SIZE" using True seq by auto
      ultimately show ?thesis by blast
    next
      case more: False
      then have full: "length ?page = FOLD_PAGE_SIZE" by auto
      then have next_seq: "ev_seq (last ?page) = after + FOLD_PAGE_SIZE" "after + FOLD_PAGE_SIZE \<le> length log"
        using seq 1(2) by (auto simp: min_def split: if_splits)
      obtain n where n: "fold_pages log target (after + FOLD_PAGE_SIZE) = take n (drop (after + FOLD_PAGE_SIZE) log)"
          "min target (length log) \<le> after + FOLD_PAGE_SIZE + n"
        using 1(1) [OF refl] more False next_seq 1(3) unfolding page by metis
      have "fold_pages log target after = ?page @ fold_pages log target (after + FOLD_PAGE_SIZE)"
        using page False more next_seq(1) by (subst fold_pages.simps) (simp add: Let_def)
      then have "fold_pages log target after = take (FOLD_PAGE_SIZE + n) (drop after log)"
        using n(1) by (simp add: take_add add.commute)
      then show ?thesis using n(2) by (intro exI [of _ "FOLD_PAGE_SIZE + n"]) (simp add: add.assoc)
    qed
  qed
qed

lemma fold_pages_fold:
  assumes "gap_free 0 log" "1 \<le> target"
  shows "fold_events (fold_pages log target 0) target = fold_events log target"
proof -
  obtain n where n: "fold_pages log target 0 = take n log" "min target (length log) \<le> n"
    using fold_pages_take [OF assms(1), of 0 target] by auto
  show ?thesis
  proof (cases "target \<le> length log")
    case True
    then have "target \<le> n" using n(2) by simp
    then show ?thesis using True assms unfolding n(1) fold_events_gap_free [OF assms(1)]
      fold_events_gap_free [OF gap_free_take [OF assms(1)]] by (simp add: min_def)
  next
    case False
    then have "take n log = log" using n(2) by simp
    then show ?thesis using n(1) by simp
  qed
qed

section \<open>Properties of the store\<close>

text \<open>
  C9. Event sourcing is lossless. After any sequence of successful operations on the in-memory model store,
  folding an organization's log at the latest revision succeeds and gives exactly what the store answers
  to reads: the same principals, promotions, organization document, signing keys and groups, at the
  revision the store reports.
\<close>

theorem memory_events_fold:
  assumes "(store_step env)\<^sup>*\<^sup>* (memory_events_new key st) s"
  shows "\<exists>fs. fold_at s org None = Inr fs \<and> fs_revision fs = latest_revision s org \<and>
    abs_state fs = read_model (ce_chrono env) s org"
proof -
  let ?log = "me_logs s org"
  have inv: "gap_free 0 ?log" "\<forall>e \<in> set ?log. event_write e \<noteq> None" "replay ?log = read_model (ce_chrono env) s org"
    using store_steps_inv [OF assms store_inv_new] unfolding store_inv_def by blast+
  have latest: "latest_revision s org = length ?log" by (simp add: latest_revision_def gap_free_latest [OF inv(1)])
  show ?thesis
  proof (cases "?log = []")
    case True
    have "abs_state folded_empty = replay ?log"
      unfolding True by (rule ext, rename_tac k, case_tac k) (simp_all add: folded_empty_def replay_def)
    then have "abs_state folded_empty = read_model (ce_chrono env) s org" unfolding inv(3) .
    then show ?thesis using True latest by (simp add: fold_at_def folded_empty_def)
  next
    case False
    let ?n = "length ?log" and ?s0 = "folded_empty\<lparr>fs_revision := length ?log\<rparr>"
    have fold: "fold_at s org None = map_err (CpStore \<circ> authz_error_display) (apply_all ?log ?s0)"
      using False latest fold_pages_fold [OF inv(1), of ?n]
      by (simp add: fold_at_def Let_def fold_events_gap_free [OF inv(1)] Suc_le_eq)
    obtain fs where fs: "apply_all ?log ?s0 = Inr fs" using apply_all_ok_iff [of ?log ?s0] inv(2) by (auto simp: is_ok_iff)
    then show ?thesis using apply_all_replay [OF fs] fold inv(3) latest
      by (simp add: replay_def abs_folded_empty)
  qed
qed

definition ex_cp_env :: "(nat, unit, unit, unit) cp_env" where
  "ex_cp_env = \<lparr>ce_chrono = ex_chrono, ce_crypto = toy_crypto,
     ce_json = \<lparr>jl_to_string = (\<lambda>_. ''{}''), jl_xxh64 = (\<lambda>_. 0)\<rparr>, ce_sha256 = (\<lambda>s. s)\<rparr>"

definition ex_call :: "string \<Rightarrow> call_inputs" where
  "ex_call k = \<lparr>ci_ulid = ''01J'', ci_occurred_at = ''2026-01-01T00:00:00Z'', ci_now = 0,
     ci_key = Inr \<lparr>gk_key_id = k, gk_private_key_pem = ''PRIV'', gk_public_key_pem = ''PUB'', gk_created_at = 0\<rparr>\<rparr>"

definition ex_org_record :: "nat org_record" where
  "ex_org_record = \<lparr>or_org = organization_new (Segment ''acme'') ''Acme'' Draft 0, or_configured = None\<rparr>"

definition ex_empty_events :: "(nat, unit) memory_events" where
  "ex_empty_events = memory_events_new () (Some (org_store_new []))"

definition ex_events :: "(nat, unit) memory_events" where
  "ex_events = (case create_org ex_cp_env (ex_call ''k1'') ex_empty_events ex_org_record ActorSystem of
     Some (Inr (r, s)) \<Rightarrow> s | _ \<Rightarrow> ex_empty_events)"

lemma ex_events_created:
  "create_org ex_cp_env (ex_call ''k1'') ex_empty_events ex_org_record ActorSystem = Some (Inr (1, ex_events))"
  by (simp add: ex_events_def create_org_def Let_def ex_empty_events_def memory_events_new_def hm_contains_def mint_and_push_def
      build_model_event_def ex_call_def event_id_try_new_def latest_revision_def log_latest_revision_def)

lemma ex_events_reachable: "(store_step ex_cp_env)\<^sup>*\<^sup>* (memory_events_new () (Some (org_store_new []))) ex_events"
  using store_step.create [OF ex_events_created] by (auto simp: ex_empty_events_def)

theorem memory_events_fold_witness:
  "\<exists>fs. fold_at ex_events ''acme'' None = Inr fs \<and> fs_revision fs = latest_revision ex_events ''acme''"
  using memory_events_fold [OF ex_events_reachable, of "''acme''"] by blast

text \<open>
  C12. History is immutable. Whatever operations follow, the fold of an organization's log at a revision that
  existed before gives the same state, and every event in the log carries a signature that verifies under
  the store's key over the canonical bytes of the event for that organization.
\<close>

theorem memory_events_history:
  assumes "(store_step env)\<^sup>*\<^sup>* (memory_events_new key st) s" "(store_step env)\<^sup>*\<^sup>* s s'"
    and "1 \<le> r" "r \<le> latest_revision s org" "crypto_laws (ce_crypto env)"
  shows "(\<exists>fs. fold_at s org (Some r) = Inr fs \<and> fold_at s' org (Some r) = Inr fs \<and> fs_revision fs = r) \<and>
    (\<forall>e \<in> set (me_logs s' org). \<exists>b. b64_decode (ce_crypto env) (ev_signature e) = Inr b \<and>
       ed_verify (ce_crypto env) (ed_public (ce_crypto env) key)
         (canonical_envelope_bytes (ce_to_vec env) (ce_sha256 env) e org) (sig_from_bytes (ce_crypto env) b))"
proof -
  have inv: "store_inv env s" using store_steps_inv [OF assms(1) store_inv_new] .
  have inv': "store_inv env s'" using store_steps_inv [OF assms(2) inv] .
  obtain es where es: "me_logs s' org = me_logs s org @ es" using store_steps_logs [OF assms(2)] by blast
  have key: "me_signing_key s' = key"
    using store_steps_logs [OF assms(1)] store_steps_logs [OF assms(2)] by (simp add: memory_events_new_def)
  have g: "gap_free 0 (me_logs s org)" "gap_free 0 (me_logs s' org)" "\<forall>e \<in> set (me_logs s org). event_write e \<noteq> None"
      "\<forall>e \<in> set (me_logs s' org). event_signed env key org e"
    using inv inv' unfolding store_inv_def key by blast+
  have r: "r \<le> length (me_logs s org)" using assms(4) by (simp add: latest_revision_def gap_free_latest [OF g(1)])
  let ?fold = "apply_all (take r (me_logs s org)) (folded_empty\<lparr>fs_revision := r\<rparr>)"
  have "fold_events (fold_pages (me_logs s org) r 0) r = ?fold"
    using fold_pages_fold [OF g(1) assms(3)] assms(3) r by (simp add: fold_events_gap_free [OF g(1)])
  moreover have "fold_events (fold_pages (me_logs s' org) r 0) r = ?fold"
    using fold_pages_fold [OF g(2) assms(3)] assms(3) r by (simp add: fold_events_gap_free [OF g(2)]) (simp add: es)
  ultimately have "fold_at s org (Some r) = map_err (CpStore \<circ> authz_error_display) ?fold"
    "fold_at s' org (Some r) = map_err (CpStore \<circ> authz_error_display) ?fold"
    by (simp_all add: fold_at_def Let_def)
  moreover obtain fs where fs: "?fold = Inr fs"
    using apply_all_ok_iff [of "take r (me_logs s org)" "folded_empty\<lparr>fs_revision := r\<rparr>"] g(3) set_take_subset
    by (metis is_ok_iff subsetD)
  moreover have "fs_revision fs = r" using apply_all_replay [OF fs] by (simp add: folded_empty_def)
  moreover have "\<forall>e \<in> set (me_logs s' org). \<exists>b. b64_decode (ce_crypto env) (ev_signature e) = Inr b \<and>
       ed_verify (ce_crypto env) (ed_public (ce_crypto env) key)
         (canonical_envelope_bytes (ce_to_vec env) (ce_sha256 env) e org) (sig_from_bytes (ce_crypto env) b)"
    using g(4) assms(5) by (simp add: event_signed_def crypto_laws_def)
  ultimately show ?thesis by simp
qed

theorem memory_events_history_witness:
  "\<exists>fs. fold_at ex_events ''acme'' (Some 1) = Inr fs \<and> fs_revision fs = 1"
proof -
  have "1 \<le> latest_revision ex_events ''acme''"
    using create_org_appends [OF ex_events_created] unfolding appended_def
    by (auto simp: latest_revision_def log_latest_revision_def ex_org_record_def organization_new_def)
  moreover have "crypto_laws (ce_crypto ex_cp_env)" by (simp add: ex_cp_env_def toy_crypto_laws)
  ultimately show ?thesis using memory_events_history [OF ex_events_reachable, of ex_events 1 "''acme''"] by auto
qed

section \<open>The mirrored read model\<close>

text \<open>What the organization store should hold for a record of the event store.\<close>

definition mirrored :: "'n json_lib \<Rightarrow> 'n org_record \<Rightarrow> 'n org_record" where
  "mirrored jl r = \<lparr>or_org = or_org r, or_configured = map_option (configured_compute jl) (or_config r)\<rparr>"

definition mirror_inv :: "'n json_lib \<Rightarrow> ('n, 'sk) memory_events \<Rightarrow> bool" where
  "mirror_inv jl s \<longleftrightarrow>
     (\<exists>st. me_org_store s = Some st \<and> org_store_wf st \<and>
       (\<forall>i. os_get st i = map_option (mirrored jl) (map_of (me_orgs s) (seg_str i))) \<and>
       (\<forall>i. typed_id_new (seg_str i) = Inr i \<longrightarrow>
          map_of (os_signing_keys st) i = map_of (me_signing_keys s) (seg_str i) \<and>
          (\<forall>n. os_get_group st i n = map_option (etaged_group_compute jl) (map_of (me_groups s) (seg_str i, n)))))"

lemma mirror_inv_new: "mirror_inv jl (memory_events_new key (Some (org_store_new [])))"
  by (simp add: mirror_inv_def memory_events_new_def org_store_new_def org_store_wf_def os_get_def os_get_group_def)

text \<open>The invariant does not depend on the logs, the principals and the promotions.\<close>

lemma mirror_inv_cong:
  assumes "me_org_store s' = me_org_store s" "me_orgs s' = me_orgs s" "me_signing_keys s' = me_signing_keys s" "me_groups s' = me_groups s"
  shows "mirror_inv jl s' = mirror_inv jl s"
  by (simp add: mirror_inv_def assms)

lemma mint_fields:
  assumes "mint_and_push env ci s org kind actor payload = Some (Inr (r, s'))"
  shows "me_org_store s' = me_org_store s" "me_orgs s' = me_orgs s" "me_signing_keys s' = me_signing_keys s"
    "me_groups s' = me_groups s"
  using assms by (auto elim: mint_and_push_Inr)

lemma mint_mirror:
  "mint_and_push env ci s org kind actor payload = Some (Inr (r, s')) \<Longrightarrow> mirror_inv jl s' = mirror_inv jl s"
  by (rule mirror_inv_cong) (rule mint_fields, assumption)+

lemmas write_through_defs = write_through_org_def write_through_signing_keys_def write_through_group_def
  write_through_group_delete_def

lemma typed_id_seg: "typed_id_new org = Inr i \<Longrightarrow> seg_str i = org"
  by (simp add: typed_id_new_def segment_try_new_Inr_iff)

lemma seg_str_inj: "seg_str i = seg_str j \<longleftrightarrow> i = j"
  by (cases i; cases j) simp

lemma put_org_mirror:
  assumes "mirror_inv (ce_json env) s"
  shows "mirror_inv (ce_json env) (put_org env r s)"
proof -
  obtain st where st: "me_org_store s = Some st" "org_store_wf st"
      "\<And>i. os_get st i = map_option (mirrored (ce_json env)) (map_of (me_orgs s) (seg_str i))"
      "\<And>i n. typed_id_new (seg_str i) = Inr i \<Longrightarrow> map_of (os_signing_keys st) i = map_of (me_signing_keys s) (seg_str i) \<and>
         os_get_group st i n = map_option (etaged_group_compute (ce_json env)) (map_of (me_groups s) (seg_str i, n))"
    using assms unfolding mirror_inv_def by blast
  let ?st = "write_through_org (ce_json env) (or_org r) (or_config r) st"
  have "os_get ?st i = map_option (mirrored (ce_json env)) (map_of (me_orgs (put_org env r s)) (seg_str i))" for i
    using st(2) st(3) [of i] by (auto simp: os_get_def write_through_org_def put_org_def Let_def write_through_def
        btm_insert_lookup org_store_wf_def hm_insert_lookup mirrored_def seg_str_inj)
  then show ?thesis
    unfolding mirror_inv_def
    using st write_through_wf(1) [OF st(2)]
    by (intro exI [of _ ?st]) (simp add: put_org_def Let_def write_through_def write_through_org_def os_get_group_def)
qed

lemma put_keys_mirror:
  assumes "mirror_inv jl s" "s1 = s\<lparr>me_signing_keys := hm_insert org ks (me_signing_keys s)\<rparr>"
  shows "mirror_inv jl (case typed_id_new org of Inr i \<Rightarrow> write_through (write_through_signing_keys i ks) s1 | Inl _ \<Rightarrow> s1)"
proof -
  obtain st where st: "me_org_store s = Some st" "org_store_wf st"
      "\<And>i. os_get st i = map_option (mirrored jl) (map_of (me_orgs s) (seg_str i))"
      "\<And>i n. typed_id_new (seg_str i) = Inr i \<Longrightarrow> map_of (os_signing_keys st) i = map_of (me_signing_keys s) (seg_str i) \<and>
         os_get_group st i n = map_option (etaged_group_compute jl) (map_of (me_groups s) (seg_str i, n))"
    using assms(1) unfolding mirror_inv_def by blast
  show ?thesis
  proof (cases "typed_id_new org")
    case (Inl e)
    then have "typed_id_new (seg_str i) = Inr i \<Longrightarrow> seg_str i \<noteq> org" for i by auto
    then show ?thesis using st Inl by (auto simp: mirror_inv_def assms(2) hm_insert_lookup)
  next
    case (Inr i)
    have org: "org = seg_str i" using typed_id_seg [OF Inr] by simp
    let ?st = "write_through_signing_keys i ks st"
    have "map_of (os_signing_keys ?st) j = map_of (hm_insert org ks (me_signing_keys s)) (seg_str j)"
      if "typed_id_new (seg_str j) = Inr j" for j
      using st(2) st(4) [OF that] by (auto simp: write_through_signing_keys_def btm_insert_lookup org_store_wf_def
          hm_insert_lookup org seg_str_inj)
    then show ?thesis
      unfolding mirror_inv_def
      using st write_through_wf(2) [OF st(2), of i ks] Inr
      by (intro exI [of _ ?st]) (simp add: write_through_def assms(2) write_through_signing_keys_def os_get_def os_get_group_def)
  qed
qed

lemma change_group_mirror:
  assumes "mirror_inv jl s" "s1 = s\<lparr>me_groups := gs\<rparr>"
    and "map_of gs = (map_of (me_groups s))((org, name) := entry)"
    and "\<And>st i. org_store_wf st \<Longrightarrow> org_store_wf (f i st) \<and> os_orgs (f i st) = os_orgs st \<and> os_signing_keys (f i st) = os_signing_keys st \<and>
      map_of (os_groups (f i st)) = (map_of (os_groups st))((i, name) := map_option (etaged_group_compute jl) entry)"
  shows "mirror_inv jl (case typed_id_new org of Inr i \<Rightarrow> write_through (f i) s1 | Inl _ \<Rightarrow> s1)"
proof -
  obtain st where st: "me_org_store s = Some st" "org_store_wf st"
      "\<And>i. os_get st i = map_option (mirrored jl) (map_of (me_orgs s) (seg_str i))"
      "\<And>i n. typed_id_new (seg_str i) = Inr i \<Longrightarrow> map_of (os_signing_keys st) i = map_of (me_signing_keys s) (seg_str i) \<and>
         os_get_group st i n = map_option (etaged_group_compute jl) (map_of (me_groups s) (seg_str i, n))"
    using assms(1) unfolding mirror_inv_def by blast
  show ?thesis
  proof (cases "typed_id_new org")
    case (Inl e)
    then have "typed_id_new (seg_str i) = Inr i \<Longrightarrow> seg_str i \<noteq> org" for i by auto
    then show ?thesis using st Inl by (auto simp: mirror_inv_def assms(2,3))
  next
    case (Inr i)
    have org: "org = seg_str i" using typed_id_seg [OF Inr] by simp
    note f = assms(4) [OF st(2), of i]
    have "map_of (os_groups (f i st)) (j, n) = map_option (etaged_group_compute jl) (map_of gs (seg_str j, n))"
      if "typed_id_new (seg_str j) = Inr j" for j n
      using f st(4) [OF that, of n] by (auto simp: os_get_group_def assms(3) org seg_str_inj)
    then show ?thesis
      unfolding mirror_inv_def using st f Inr
      by (intro exI [of _ "f i st"]) (simp add: write_through_def assms(2) os_get_def os_get_group_def)
  qed
qed

lemma append_org_keys_mirror:
  assumes "append_org_keys env ci s org kind actor transition = Some (Inr (r, s'))" "mirror_inv jl s"
  shows "mirror_inv jl s'"
proof -
  let ?ks = "case map_of (me_signing_keys s) org of Some ks \<Rightarrow> ks | None \<Rightarrow> []"
  obtain t where t: "transition ?ks = Inr t" using assms(1) by (auto simp: append_org_keys_def split: if_splits)
  show ?thesis
  proof (cases t)
    case None
    then show ?thesis using assms t by (auto simp: append_org_keys_def split: if_splits)
  next
    case (Some a)
    obtain k ks where "a = (k, ks)" by (cases a)
    then obtain r1 s1 where s1: "mint_and_push env ci s org kind actor (key_event_payload k (signing_keys_json (ce_chrono env) ks)) = Some (Inr (r1, s1))"
        "s' = (case typed_id_new org of
           Inr i \<Rightarrow> write_through (write_through_signing_keys i ks) (s1\<lparr>me_signing_keys := hm_insert org ks (me_signing_keys s1)\<rparr>)
         | Inl _ \<Rightarrow> s1\<lparr>me_signing_keys := hm_insert org ks (me_signing_keys s1)\<rparr>)"
      using assms(1) t Some by (auto simp: append_org_keys_def Let_def split: if_splits)
    have "mirror_inv jl s1" using mint_mirror [OF s1(1)] assms(2) by simp
    from put_keys_mirror [OF this refl] show ?thesis unfolding s1(2) .
  qed
qed

lemma put_group_mirror:
  assumes "put_group env ci s org entry actor expected = Some (Inr (out, s'))" "mirror_inv (ce_json env) s"
  shows "mirror_inv (ce_json env) s'"
proof (cases "decide_upsert (map_option rbac_entry_json (map_of (me_groups s) (org, re_name entry))) (rbac_entry_json entry :: 'a json)")
  case NoOp
  then show ?thesis using assms by (auto simp: put_group_def Let_def)
next
  case (Changed x)
  let ?upd = "\<lambda>s1. s1\<lparr>me_groups := hm_insert (org, re_name entry) entry (me_groups s1)\<rparr>"
  from Changed obtain r1 s1 where s1: "mint_and_push env ci s org GroupPut actor (group_put_payload (re_name entry) (rbac_entry_json entry)) = Some (Inr (r1, s1))"
      "s' = (case typed_id_new org of
         Inr i \<Rightarrow> write_through (write_through_group i (etaged_group_compute (ce_json env) entry)) (?upd s1) | Inl _ \<Rightarrow> ?upd s1)"
    using assms(1) by (auto simp: put_group_def Let_def)
  have "mirror_inv (ce_json env) s1" using mint_mirror [OF s1(1)] assms(2) by simp
  then show ?thesis unfolding s1(2)
    by (rule change_group_mirror [where entry = "Some entry" and name = "re_name entry"])
      (auto simp: hm_insert_lookup write_through_wf(3), simp_all add: write_through_group_def etaged_group_compute_def
        btm_insert_lookup org_store_wf_def)
qed

lemma delete_group_mirror:
  assumes "delete_group env ci s org name actor expected = Some (Inr (out, s'))" "mirror_inv jl s"
  shows "mirror_inv jl s'"
proof (cases "hm_contains (me_groups s) (org, name)")
  case False
  then show ?thesis using assms by (auto simp: delete_group_def)
next
  case True
  let ?upd = "\<lambda>s1. s1\<lparr>me_groups := hm_remove (org, name) (me_groups s1)\<rparr>"
  from True obtain r1 s1 where s1: "mint_and_push env ci s org GroupDeleted actor (group_deleted_payload name) = Some (Inr (r1, s1))"
      "s' = (case typed_id_new org of Inr i \<Rightarrow> write_through (write_through_group_delete i name) (?upd s1) | Inl _ \<Rightarrow> ?upd s1)"
    using assms(1) by (auto simp: delete_group_def Let_def)
  have "mirror_inv jl s1" using mint_mirror [OF s1(1)] assms(2) by simp
  then show ?thesis unfolding s1(2)
    by (rule change_group_mirror [where entry = None and name = name])
      (auto simp: hm_remove_lookup write_through_wf(4), simp_all add: write_through_group_delete_def hm_remove_lookup)
qed

lemma append_org_state_mirror:
  assumes "append_org_state env ci s rec kind actor expected = Some (Inr (r, s'))" "mirror_inv (ce_json env) s"
  shows "mirror_inv (ce_json env) s'"
proof -
  obtain s1 where s1: "mint_and_push env ci s (seg_str (o_id (or_org rec))) kind actor (org_payload (ce_chrono env) rec) = Some (Inr (r, s1))"
      "s' = put_org env rec s1"
    using assms(1) by (auto simp: append_org_state_def Let_def)
  show ?thesis unfolding s1(2) using mint_mirror [OF s1(1)] assms(2) by (intro put_org_mirror) simp
qed

lemma mint_other_mirror:
  assumes "mint_and_push env ci s org kind actor payload = Some (Inr (r, s1))" "mirror_inv jl s"
    and "me_org_store s' = me_org_store s1" "me_orgs s' = me_orgs s1" "me_signing_keys s' = me_signing_keys s1" "me_groups s' = me_groups s1"
  shows "mirror_inv jl s'"
  using mirror_inv_cong [OF assms(3-6), of jl] mint_mirror [OF assms(1), of jl] assms(2) by simp

lemma upsert_changed_mirror:
  "upsert_changed env ci s org i actor p = Some (Inr (r, s')) \<Longrightarrow> mirror_inv jl s \<Longrightarrow> mirror_inv jl s'"
  by (auto simp: upsert_changed_def intro: mint_other_mirror)

lemma put_promotion_mirror:
  "put_promotion env ci s org t i actor = Some (Inr (r, s')) \<Longrightarrow> mirror_inv jl s \<Longrightarrow> mirror_inv jl s'"
  by (auto simp: put_promotion_def intro: mint_other_mirror)

lemma tombstone_promotion_mirror:
  "tombstone_promotion env ci s org t i actor = Some (Inr (r, s')) \<Longrightarrow> mirror_inv jl s \<Longrightarrow> mirror_inv jl s'"
  by (cases "get_promotion s org t i") (auto simp: tombstone_promotion_def intro: mint_other_mirror)

lemma create_org_mirror:
  assumes "create_org env ci s rec actor = Some (Inr (r, s'))" "mirror_inv (ce_json env) s"
  shows "mirror_inv (ce_json env) s'"
proof -
  obtain s1 where s1: "mint_and_push env ci s (seg_str (o_id (or_org rec))) OrgCreated actor (org_payload (ce_chrono env) rec) = Some (Inr (r, s1))"
      "s' = put_org env rec s1"
    using assms(1) by (auto simp: create_org_def Let_def split: if_splits)
  show ?thesis unfolding s1(2) using mint_mirror [OF s1(1)] assms(2) by (intro put_org_mirror) simp
qed

lemma store_step_mirror:
  assumes "store_step env s s'" "mirror_inv (ce_json env) s"
  shows "mirror_inv (ce_json env) s'"
  using assms(1)
proof (cases rule: store_step.cases)
  case (upsert ci org i actor p r) then show ?thesis using upsert_changed_mirror assms(2) by blast
next
  case (promote ci org t i actor r) then show ?thesis using put_promotion_mirror assms(2) by blast
next
  case (tombstone ci org t i actor r) then show ?thesis using tombstone_promotion_mirror assms(2) by blast
next
  case (create ci rec actor r) then show ?thesis using create_org_mirror assms(2) by blast
next
  case (update ci rec actor expected r)
  then show ?thesis using append_org_state_mirror assms(2) by (fastforce simp: update_org_def)
next
  case (transition ci rec kind actor n r)
  then show ?thesis using append_org_state_mirror assms(2) by (fastforce simp: transition_org_def)
next
  case (generate ci org actor g)
  then obtain tr r where "append_org_keys env ci s org OrgKeyGenerated actor tr = Some (Inr (Some r, s'))"
    by (auto simp: generate_org_key_def split: option.splits)
  then show ?thesis using append_org_keys_mirror assms(2) by blast
next
  case (revoke ci org key actor r)
  then have "append_org_keys env ci s org OrgKeyRevoked actor (revoke_key_transition key) = Some (Inr (r, s'))"
    by (simp add: revoke_org_key_def)
  then show ?thesis using append_org_keys_mirror assms(2) by blast
next
  case (rotate ci org key actor g)
  then obtain tr r where "append_org_keys env ci s org OrgKeyRotated actor tr = Some (Inr (Some r, s'))"
    by (auto simp: rotate_org_key_def split: option.splits)
  then show ?thesis using append_org_keys_mirror assms(2) by blast
next
  case (put_group ci org entry actor expected out)
  then show ?thesis using put_group_mirror assms(2) by blast
next
  case (delete_group ci org name actor expected out)
  then show ?thesis using delete_group_mirror assms(2) by blast
qed

text \<open>
  C25. The two stores agree. Started on an empty organization store, after any sequence of successful
  operations the organization store answers the reads of the handlers with what the event store holds: the
  same organization with the tag of its configuration, the same signing keys, and the same groups with
  their tags, so that every write is seen by the next read.
\<close>

theorem memory_events_mirrored:
  assumes "(store_step env)\<^sup>*\<^sup>* (memory_events_new key (Some (org_store_new []))) s" "typed_id_new org = Inr i"
  shows "\<exists>st. me_org_store s = Some st \<and>
    os_get st i = map_option (mirrored (ce_json env)) (map_of (me_orgs s) org) \<and>
    os_list_keys st i = (case map_of (me_signing_keys s) org of Some ks \<Rightarrow> ks | None \<Rightarrow> []) \<and>
    (\<forall>n. os_get_group st i n = map_option (etaged_group_compute (ce_json env)) (map_of (me_groups s) (org, n))) \<and>
    set (os_list_groups st i) = {etaged_group_compute (ce_json env) e | e n. map_of (me_groups s) (org, n) = Some e}"
proof -
  have "mirror_inv (ce_json env) s"
    using assms(1) by (induction rule: rtranclp_induct) (auto simp: mirror_inv_new intro: store_step_mirror)
  then obtain st where st: "me_org_store s = Some st" "org_store_wf st"
      "\<And>i. os_get st i = map_option (mirrored (ce_json env)) (map_of (me_orgs s) (seg_str i))"
      "\<And>i n. typed_id_new (seg_str i) = Inr i \<Longrightarrow> map_of (os_signing_keys st) i = map_of (me_signing_keys s) (seg_str i) \<and>
         os_get_group st i n = map_option (etaged_group_compute (ce_json env)) (map_of (me_groups s) (seg_str i, n))"
    unfolding mirror_inv_def by blast
  have org: "seg_str i = org" using typed_id_seg [OF assms(2)] .
  then have g: "os_get_group st i n = map_option (etaged_group_compute (ce_json env)) (map_of (me_groups s) (org, n))"
    "map_of (os_signing_keys st) i = map_of (me_signing_keys s) org" for n
    using st(4) [of i] assms(2) by simp_all
  have "set (os_list_groups st i) = {etaged_group_compute (ce_json env) e | e n. map_of (me_groups s) (org, n) = Some e}"
    unfolding os_list_groups_exact(1) [OF st(2)] g(1) by auto
  then show ?thesis using st(1,3) g org by (intro exI [of _ st]) (simp add: os_list_keys_def)
qed

theorem memory_events_mirrored_witness:
  "\<exists>st r. me_org_store ex_events = Some st \<and> os_get st (Segment ''acme'') = Some r \<and> o_name (or_org r) = ''Acme''"
proof -
  have v: "typed_id_new ''acme'' = Inr (Segment ''acme'')" by code_simp
  have "map_of (me_orgs ex_events) ''acme'' = Some ex_org_record"
    by (simp add: ex_events_def create_org_def Let_def ex_empty_events_def memory_events_new_def hm_contains_def mint_and_push_def
        build_model_event_def ex_call_def event_id_try_new_def put_org_def write_through_def ex_org_record_def organization_new_def)
  with memory_events_mirrored [OF ex_events_reachable v] show ?thesis
    by (auto simp: mirrored_def ex_org_record_def organization_new_def)
qed

end
