(* ===== verification/Dynamo_Items.thy ===== *)
theory Dynamo_Items
  imports Event_Store
begin

text \<open>
  The DynamoDB items of the control plane: attribute values and their accessors, the organization item
  (\<open>dynamo_store/mod.rs\<close>), group items (\<open>handlers/groups/codec.rs\<close>, \<open>dynamo_store/groups.rs\<close>), event items and
  their sort keys (\<open>event_log.rs\<close>), principal and promotion items (\<open>model_event_store/support.rs\<close>,
  \<open>promotion_store.rs\<close>), membership items (\<open>membership_store.rs\<close>) and the signing keys read from an
  organization item (\<open>signing_key_store.rs\<close>). The JSON text of serde_json and its typed readers are arguments.
\<close>

section \<open>Attributes\<close>

datatype attr = AttrS string | AttrN string | AttrBool bool | AttrL "attr list"

type_synonym item = "(string, attr) hash_map"

fun as_s :: "attr \<Rightarrow> string option" where
  "as_s (AttrS s) = Some s"
| "as_s _ = None"

fun as_n :: "attr \<Rightarrow> string option" where
  "as_n (AttrN s) = Some s"
| "as_n _ = None"

fun as_l :: "attr \<Rightarrow> attr list option" where
  "as_l (AttrL xs) = Some xs"
| "as_l _ = None"

definition put_s :: "string \<Rightarrow> string \<Rightarrow> item \<Rightarrow> item" where
  "put_s k v it = hm_insert k (AttrS v) it"

definition get_s_opt :: "item \<Rightarrow> string \<Rightarrow> string option" where
  "get_s_opt it k = Option.bind (map_of it k) as_s"

definition get_s :: "item \<Rightarrow> string \<Rightarrow> (cp_error, string) result" where
  "get_s it k = ok_or (get_s_opt it k) (CpStore (''missing or non-string attribute: '' @ k))"

text \<open>The key attributes, from the shared schema file.\<close>

definition pk :: string where "pk = ''PK''"

definition sk :: string where "sk = ''SK''"

definition SK_META :: string where "SK_META = ''META''"

definition ORG_PREFIX :: string where "ORG_PREFIX = ''ORG#''"

definition USER_PREFIX :: string where "USER_PREFIX = ''USER#''"

definition org_pk :: "string \<Rightarrow> string" where
  "org_pk org_id = ORG_PREFIX @ org_id"

lemmas key_defs = pk_def sk_def SK_META_def ORG_PREFIX_def USER_PREFIX_def

text \<open>
  The readers of serde_json, for a JSON value and for the types with a derived deserializer, and the PEM
  encoding of keys; \<open>sd_debug\<close> is the \<open>{:?}\<close> format of a string. Every text that is written is the output of \<open>serde_json::to_string\<close> or \<open>to_vec\<close>, which is
  UTF-8 and cannot fail for the types serialized here, so the error branches of \<open>from_utf8\<close> and of the
  serializers are dead.
\<close>

record ('n, 'sk, 'vk) serde_lib =
  sd_from_str :: "string \<Rightarrow> (string, 'n json) result"
  sd_config :: "string \<Rightarrow> (string, 'n org_config) result"
  sd_keys :: "string \<Rightarrow> (string, signing_key_entry list) result"
  sd_group :: "string \<Rightarrow> (string, rbac_entry) result"
  sd_actor :: "string \<Rightarrow> (string, actor) result"
  sd_debug :: "string \<Rightarrow> string"
  sd_from_pkcs8_pem :: "string \<Rightarrow> (string, 'sk) result"
  sd_to_public_key_pem :: "'vk \<Rightarrow> (string, string) result"

text \<open>The JSON of an actor: an externally tagged enum.\<close>

fun actor_json :: "actor \<Rightarrow> 'n json" where
  "actor_json (ActorPrincipal f) = JObj [(''principal'', JStr (fgrn_display f))]"
| "actor_json (ActorMachine m) = JObj [(''machine'', JStr m)]"
| "actor_json ActorSystem = JStr ''system''"

text \<open>What is serialized is read back: for a value at hand, the derived reader inverts the derived writer.\<close>

definition reads_value :: "('n, 'sk, 'vk, 'sig) cp_env \<Rightarrow> ('n, 'sk, 'vk) serde_lib \<Rightarrow> 'n json \<Rightarrow> bool" where
  "reads_value env sd v \<longleftrightarrow> sd_from_str sd (ce_to_vec env v) = Inr v"

definition reads_config :: "('n, 'sk, 'vk, 'sig) cp_env \<Rightarrow> ('n, 'sk, 'vk) serde_lib \<Rightarrow> 'n org_config \<Rightarrow> bool" where
  "reads_config env sd c \<longleftrightarrow> sd_config sd (ce_to_vec env (org_config_json c)) = Inr c"

definition reads_keys :: "('n, 'sk, 'vk, 'sig) cp_env \<Rightarrow> ('n, 'sk, 'vk) serde_lib \<Rightarrow> signing_key_entry list \<Rightarrow> bool" where
  "reads_keys env sd ks \<longleftrightarrow> sd_keys sd (ce_to_vec env (signing_keys_json (ce_chrono env) ks)) = Inr ks"

definition reads_group :: "('n, 'sk, 'vk, 'sig) cp_env \<Rightarrow> ('n, 'sk, 'vk) serde_lib \<Rightarrow> rbac_entry \<Rightarrow> bool" where
  "reads_group env sd g \<longleftrightarrow> sd_group sd (ce_to_vec env (rbac_entry_json g)) = Inr g"

definition reads_actor :: "('n, 'sk, 'vk, 'sig) cp_env \<Rightarrow> ('n, 'sk, 'vk) serde_lib \<Rightarrow> actor \<Rightarrow> bool" where
  "reads_actor env sd a \<longleftrightarrow> sd_actor sd (ce_to_vec env (actor_json a)) = Inr a"

text \<open>The messages of the errors; \<open>dbg\<close> is the \<open>{:?}\<close> format of a string.\<close>

fun group_validation_display :: "(string \<Rightarrow> string) \<Rightarrow> group_validation_error \<Rightarrow> string" where
  "group_validation_display dbg (BadNameRegex n) = ''name '' @ dbg n @ '' must match [a-z][a-z0-9_-]*''"
| "group_validation_display dbg (BadActionId a) =
     ''action id '' @ dbg a @ '' must match [a-z][a-z0-9_-]* (hyphenated form, e.g. cp-organization-read)''"
| "group_validation_display dbg (BadActionFormat a) = ''action '' @ dbg a @ '' must match <namespace>:<entity>:<verb>''"
| "group_validation_display dbg EmptyAllow = ''allow list must not be empty''"
| "group_validation_display dbg (InheritCycle m) = ''inherit cycle detected: '' @ m"
| "group_validation_display dbg (UnknownInherit m) = ''inherits references unknown group '' @ dbg m"
| "group_validation_display dbg DescriptionTooLong = ''description longer than 1024 chars''"
| "group_validation_display dbg (NameMismatch path_name body_name) =
     ''path name '' @ dbg path_name @ '' does not match body name '' @ dbg body_name"

fun cp_error_display :: "(string \<Rightarrow> string) \<Rightarrow> cp_error \<Rightarrow> string" where
  "cp_error_display dbg (CpConfig m) = ''config error: '' @ m"
| "cp_error_display dbg (CpConflict m) = ''conflict: '' @ m"
| "cp_error_display dbg (CpNotFound m) = ''not found: '' @ m"
| "cp_error_display dbg (CpRevisionMismatch n) = ''revision mismatch (current revision: '' @ show_nat n @ '')''"
| "cp_error_display dbg (CpInvalidEtag m) = ''invalid etag: '' @ m"
| "cp_error_display dbg (CpStore m) = ''store error: '' @ m"
| "cp_error_display dbg (CpValidation e) = ''group validation failed: '' @ group_validation_display dbg e"
| "cp_error_display dbg (CpDeleteConflict inh members) =
     ''delete conflict: blocking_inheritors=['' @ join '', '' (map dbg inh) @ ''], memberships_count={'' @
       join '', '' (map (\<lambda>(u, n). dbg u @ '': '' @ show_nat n) members) @ ''}''"

section \<open>The organization item\<close>

definition put_opt :: "string \<Rightarrow> string option \<Rightarrow> item \<Rightarrow> item" where
  "put_opt k x it = (case x of Some v \<Rightarrow> put_s k v it | None \<Rightarrow> it)"

definition to_item ::
    "('n, 'sk, 'vk, 'sig) cp_env \<Rightarrow> organization \<Rightarrow> 'n configured_config option \<Rightarrow> signing_key_entry list \<Rightarrow> item" where
  "to_item env org configured signing_keys =
     (let it = put_s ''updated_at'' (ch_to_rfc3339 (ce_chrono env) (o_updated_at org))
            (put_s ''created_at'' (ch_to_rfc3339 (ce_chrono env) (o_created_at org))
            (put_s ''status'' (org_status_str (o_status org)) (put_s ''name'' (o_name org)
            (put_s sk SK_META (put_s pk (org_pk (seg_str (o_id org))) [])))));
          it = put_opt ''policy_store_id'' (o_policy_store_id org)
            (put_opt ''cognito_jwks_url'' (o_cognito_jwks_url org) (put_opt ''cognito_pool_id'' (o_cognito_pool_id org) it));
          it = (case configured of
              Some c \<Rightarrow> put_s ''etag'' (etag_str (cc_etag c)) (put_s ''config'' (ce_to_vec env (org_config_json (cc_config c))) it)
            | None \<Rightarrow> it) in
      if signing_keys \<noteq> [] then put_s ''signing_keys'' (ce_to_vec env (signing_keys_json (ce_chrono env) signing_keys)) it else it)"

definition parse_datetime :: "chrono_lib \<Rightarrow> item \<Rightarrow> string \<Rightarrow> (cp_error, timestamp) result" where
  "parse_datetime ch it k =
     and_then (get_s it k) (\<lambda>s.
     map_err (\<lambda>e. CpStore (''invalid datetime for '' @ k @ '': '' @ e)) (ch_parse_rfc3339 ch s))"

definition item_configured :: "('n, 'sk, 'vk) serde_lib \<Rightarrow> string \<Rightarrow> item \<Rightarrow> (cp_error, 'n configured_config option) result" where
  "item_configured sd org_id it =
     (case (get_s_opt it ''config'', get_s_opt it ''etag'') of
        (Some config_json, Some etag_raw) \<Rightarrow>
          and_then (map_err (\<lambda>e. CpStore (''deserialize config: '' @ e)) (sd_config sd config_json)) (\<lambda>config.
          and_then (map_err (\<lambda>e. CpStore (''invalid stored etag for org '' @ quoted org_id @ '': '' @ cp_error_display (sd_debug sd) e))
              (etag_try_new etag_raw)) (\<lambda>etag.
          Inr (Some \<lparr>cc_config = config, cc_etag = etag\<rparr>)))
      | (None, None) \<Rightarrow> Inr None
      | (Some _, None) \<Rightarrow> Inl (CpStore (''org '' @ quoted org_id @ '' has '' @ quoted ''config'' @ '' attribute but no matching '' @ quoted ''etag''))
      | (None, Some _) \<Rightarrow> Inl (CpStore (''org '' @ quoted org_id @ '' has '' @ quoted ''etag'' @ '' attribute but no matching '' @ quoted ''config'')))"

definition from_item :: "chrono_lib \<Rightarrow> ('n, 'sk, 'vk) serde_lib \<Rightarrow> item \<Rightarrow> (cp_error, 'n org_record) result" where
  "from_item ch sd it =
     and_then (get_s it pk) (\<lambda>p.
     and_then (ok_or (strip_prefix ORG_PREFIX p) (CpStore (''pk missing '' @ ORG_PREFIX @ '' prefix: '' @ p))) (\<lambda>org_id_str.
     and_then (map_err (\<lambda>e. CpStore (''invalid org_id in pk: '' @ core_error_display e)) (typed_id_new org_id_str)) (\<lambda>org_id.
     and_then (get_s it ''name'') (\<lambda>name.
     and_then (and_then (get_s it ''status'') (\<lambda>st.
         map_err (\<lambda>e. CpStore (''invalid status: '' @ core_error_display e)) (org_status_from_str st))) (\<lambda>status.
     and_then (parse_datetime ch it ''created_at'') (\<lambda>created_at.
     and_then (parse_datetime ch it ''updated_at'') (\<lambda>updated_at.
     and_then (item_configured sd (seg_str org_id) it) (\<lambda>configured.
     Inr \<lparr>or_org = with_aws_resources (with_updated_at (organization_new org_id name status created_at) updated_at)
            (get_s_opt it ''cognito_pool_id'') (get_s_opt it ''cognito_jwks_url'') (get_s_opt it ''policy_store_id''),
          or_configured = configured\<rparr>))))))))"

definition signing_keys_from_item :: "('n, 'sk, 'vk) serde_lib \<Rightarrow> item \<Rightarrow> (cp_error, signing_key_entry list) result" where
  "signing_keys_from_item sd it =
     (case get_s_opt it ''signing_keys'' of
        Some json \<Rightarrow> map_err (\<lambda>e. CpStore (''deserialize signing_keys: '' @ e)) (sd_keys sd json)
      | None \<Rightarrow> Inr [])"

lemma get_s_opt_put:
  "get_s_opt (put_s k v it) k' = (if k' = k then Some v else get_s_opt it k')"
  by (simp add: get_s_opt_def put_s_def hm_insert_lookup)

lemma get_s_opt_put_opt:
  "get_s_opt (put_opt k x it) k' = (if k' = k \<and> x \<noteq> None then x else get_s_opt it k')"
  by (auto simp: put_opt_def get_s_opt_put split: option.splits)

lemma get_s_opt_Nil [simp]: "get_s_opt [] k = None"
  by (simp add: get_s_opt_def)

lemma get_s_iff: "get_s it k = Inr v \<longleftrightarrow> get_s_opt it k = Some v"
  by (simp add: get_s_def)

lemma to_item_attributes:
  fixes env :: "('n, 'sk, 'vk, 'sig) cp_env"
  defines "it \<equiv> \<lambda>org configured keys. to_item env org configured keys"
  shows "get_s_opt (it org configured keys) pk = Some (org_pk (seg_str (o_id org)))"
    "get_s_opt (it org configured keys) ''name'' = Some (o_name org)"
    "get_s_opt (it org configured keys) ''status'' = Some (org_status_str (o_status org))"
    "get_s_opt (it org configured keys) ''created_at'' = Some (ch_to_rfc3339 (ce_chrono env) (o_created_at org))"
    "get_s_opt (it org configured keys) ''updated_at'' = Some (ch_to_rfc3339 (ce_chrono env) (o_updated_at org))"
    "get_s_opt (it org configured keys) ''cognito_pool_id'' = o_cognito_pool_id org"
    "get_s_opt (it org configured keys) ''cognito_jwks_url'' = o_cognito_jwks_url org"
    "get_s_opt (it org configured keys) ''policy_store_id'' = o_policy_store_id org"
    "get_s_opt (it org configured keys) ''config'' = map_option (\<lambda>c. ce_to_vec env (org_config_json (cc_config c))) configured"
    "get_s_opt (it org configured keys) ''etag'' = map_option (\<lambda>c. etag_str (cc_etag c)) configured"
    "get_s_opt (it org configured keys) ''signing_keys'' =
       (if keys = [] then None else Some (ce_to_vec env (signing_keys_json (ce_chrono env) keys)))"
  unfolding it_def
  by (cases configured; cases "keys = []"; simp add: to_item_def Let_def get_s_opt_put get_s_opt_put_opt key_defs)+

lemma keys_from_to_item:
  "keys \<noteq> [] \<longrightarrow> reads_keys env sd keys \<Longrightarrow> signing_keys_from_item sd (to_item env org configured keys) = Inr keys"
  by (simp add: signing_keys_from_item_def to_item_attributes reads_keys_def)

text \<open>
  An organization survives its item: reading the item that the store writes for an organization, its
  configuration with a non-empty tag and its signing keys gives them back, for every organization with a
  valid id.
\<close>

theorem org_item_round_trip:
  assumes "chrono_laws (ce_chrono env)" "segment_wf (o_id org)"
    and "\<forall>c. configured = Some c \<longrightarrow> reads_config env sd (cc_config c) \<and> etag_str (cc_etag c) \<noteq> []"
    and "keys \<noteq> [] \<longrightarrow> reads_keys env sd keys"
  shows "from_item (ce_chrono env) sd (to_item env org configured keys) = Inr \<lparr>or_org = org, or_configured = configured\<rparr> \<and>
    signing_keys_from_item sd (to_item env org configured keys) = Inr keys"
proof -
  let ?it = "to_item env org configured keys"
  have id: "strip_prefix ORG_PREFIX (org_pk (seg_str (o_id org))) = Some (seg_str (o_id org))"
    by (simp add: strip_prefix_def starts_with_def org_pk_def)
  have id': "typed_id_new (seg_str (o_id org)) = Inr (o_id org)"
    using assms(2) by (simp add: typed_id_new_def segment_try_new_Inr_iff)
  have conf: "item_configured sd (seg_str (o_id org)) ?it = Inr configured"
    using assms(3) by (cases configured) (simp_all add: item_configured_def to_item_attributes reads_config_def etag_try_new_def)
  have st: "org_status_from_str (org_status_str (o_status org)) = Inr (o_status org)"
    by (simp add: org_status_round_trip)
  have dates: "parse_datetime (ce_chrono env) ?it ''created_at'' = Inr (o_created_at org)"
    "parse_datetime (ce_chrono env) ?it ''updated_at'' = Inr (o_updated_at org)"
    using assms(1) by (simp_all add: parse_datetime_def get_s_def to_item_attributes chrono_laws_def)
  have "from_item (ce_chrono env) sd ?it = Inr \<lparr>or_org = with_aws_resources (with_updated_at (organization_new (o_id org) (o_name org)
      (o_status org) (o_created_at org)) (o_updated_at org)) (o_cognito_pool_id org) (o_cognito_jwks_url org)
      (o_policy_store_id org), or_configured = configured\<rparr>"
    by (simp add: from_item_def get_s_def to_item_attributes id id' conf dates st)
  also have "with_aws_resources (with_updated_at (organization_new (o_id org) (o_name org) (o_status org) (o_created_at org))
      (o_updated_at org)) (o_cognito_pool_id org) (o_cognito_jwks_url org) (o_policy_store_id org) = org"
    by (simp add: with_aws_resources_def with_updated_at_def organization_new_def)
  finally show ?thesis using keys_from_to_item [OF assms(4)] by simp
qed

text \<open>Concrete libraries that satisfy the hypotheses: dates as decimal numbers, readers that know one value.\<close>

definition int_chrono :: chrono_lib where
  "int_chrono =
     \<lparr>ch_to_rfc3339 = (\<lambda>t. if t < 0 then CHR ''-'' # show_nat (nat (- t)) else show_nat (nat t)),
      ch_parse_rfc3339 = (\<lambda>s. case s of c # r \<Rightarrow> if c = CHR ''-'' then Inr (- int (read_nat r)) else Inr (int (read_nat s)) | [] \<Rightarrow> Inl ''empty''),
      ch_serde = (\<lambda>t. show_nat (nat t))\<rparr>"

lemma int_chrono_laws: "chrono_laws int_chrono"
proof -
  have "ch_parse_rfc3339 int_chrono (ch_to_rfc3339 int_chrono t) = Inr t" for t
  proof (cases "t < 0")
    case False
    obtain c r where c: "show_nat (nat t) = c # r" by (meson neq_Nil_conv show_nat_not_Nil)
    then have "c \<noteq> CHR ''-''" using show_nat_digits [of c "nat t"] by (auto simp: is_ascii_digit_def byte_def)
    then show ?thesis using False c read_show_nat [of "nat t"] by (simp add: int_chrono_def)
  qed (simp add: int_chrono_def read_show_nat)
  then show ?thesis by (simp add: chrono_laws_def)
qed

definition ex_dyn_env :: "(nat, unit, unit, unit) cp_env" where
  "ex_dyn_env = ex_cp_env\<lparr>ce_chrono := int_chrono\<rparr>"

definition ex_org_config :: "nat org_config" where
  "ex_org_config = \<lparr>oc_version = \<lparr>cv_raw = ''2026-01-01'', cv_date = 0\<rparr>, oc_project_id = Segment ''p1'', oc_upstream_url = ''http://app'',
     oc_default_policy = DenyByDefault, oc_namespace = ''app'', oc_tenant = tenant_config_default, oc_vp_store_id = None,
     oc_cognito_user_pool_id = None, oc_routes = [], oc_public_routes = [], oc_features = []\<rparr>"

definition ex_serde :: "(nat, unit, unit) serde_lib" where
  "ex_serde = \<lparr>sd_from_str = (\<lambda>_. Inr JNull), sd_config = (\<lambda>_. Inr ex_org_config), sd_keys = (\<lambda>_. Inr [ex_key ''k1'']),
     sd_group = (\<lambda>_. Inl ''no group''), sd_actor = (\<lambda>_. Inr ActorSystem), sd_debug = dquoted,
     sd_from_pkcs8_pem = (\<lambda>_. Inr ()), sd_to_public_key_pem = (\<lambda>_. Inr ''PUB'')\<rparr>"

theorem org_item_round_trip_witness:
  "\<exists>it. from_item int_chrono ex_serde it = Inr \<lparr>or_org = or_org ex_org_record, or_configured = Some \<lparr>cc_config = ex_org_config, cc_etag = Etag ''e1''\<rparr>\<rparr> \<and>
     signing_keys_from_item ex_serde it = Inr [ex_key ''k1'']"
proof -
  have "segment_wf (o_id (or_org ex_org_record))" by code_simp
  with org_item_round_trip [of ex_dyn_env "or_org ex_org_record" "Some \<lparr>cc_config = ex_org_config, cc_etag = Etag ''e1''\<rparr>"
      ex_serde "[ex_key ''k1'']"] int_chrono_laws
  show ?thesis by (auto simp: ex_dyn_env_def ex_serde_def reads_config_def reads_keys_def)
qed

section \<open>Group and membership items\<close>

definition SK_GROUP_PREFIX :: string where "SK_GROUP_PREFIX = ''GROUP#''"

definition group_sk :: "string \<Rightarrow> string" where
  "group_sk name = SK_GROUP_PREFIX @ name"

definition to_group_item :: "('n, 'sk, 'vk, 'sig) cp_env \<Rightarrow> organization_id \<Rightarrow> rbac_entry \<Rightarrow> string \<Rightarrow> item" where
  "to_group_item env org_id entry etag =
     put_s ''etag'' etag (put_s ''config'' (ce_to_vec env (rbac_entry_json entry))
       (put_s sk (group_sk (re_name entry)) (put_s pk (org_pk (seg_str org_id)) [])))"

definition group_get_s :: "item \<Rightarrow> string \<Rightarrow> (cp_error, string) result" where
  "group_get_s it k = ok_or (get_s_opt it k) (CpStore (''missing or non-string group attribute: '' @ k))"

definition from_group_item :: "('n, 'sk, 'vk) serde_lib \<Rightarrow> item \<Rightarrow> (cp_error, rbac_entry \<times> string) result" where
  "from_group_item sd it =
     and_then (group_get_s it sk) (\<lambda>sort_key.
     and_then (ok_or (strip_prefix SK_GROUP_PREFIX sort_key)
         (CpStore (''group item has unexpected SK (missing '' @ SK_GROUP_PREFIX @ '' prefix): '' @ sd_debug sd sort_key))) (\<lambda>sk_name.
     and_then (group_get_s it ''config'') (\<lambda>config_json.
     and_then (map_err (\<lambda>e. CpStore (''deserialize group config: '' @ e)) (sd_group sd config_json)) (\<lambda>entry.
     and_then (group_get_s it ''etag'') (\<lambda>etag.
     if re_name entry \<noteq> sk_name then
       Inl (CpStore (''group item name mismatch: SK says '' @ sd_debug sd sk_name @ '' but config.name is '' @ sd_debug sd (re_name entry)))
     else Inr (entry, etag))))))"

definition etaged_group_from_item :: "('n, 'sk, 'vk) serde_lib \<Rightarrow> item \<Rightarrow> (cp_error, etaged_group) result" where
  "etaged_group_from_item sd it =
     and_then (from_group_item sd it) (\<lambda>(entry, etag).
     and_then (etag_try_new etag) (\<lambda>t. Inr \<lparr>eg_entry = entry, eg_etag = t\<rparr>))"

lemma group_item_round_trip:
  assumes "reads_group env sd entry"
  shows "etaged_group_from_item sd (to_group_item env org_id entry (etag_str (eg_etag (etaged_group_compute jl entry)))) =
    Inr (etaged_group_compute jl entry)"
  using assms
  by (simp add: etaged_group_from_item_def from_group_item_def to_group_item_def group_get_s_def get_s_opt_put key_defs
      strip_prefix_def starts_with_def group_sk_def SK_GROUP_PREFIX_def reads_group_def etag_try_new_def
      etaged_group_compute_def compute_group_etag_def dquoted_def)

definition parse_groups :: "item \<Rightarrow> group_name list option" where
  "parse_groups it =
     map_option (\<lambda>xs. List.map_filter (\<lambda>s. to_ok (typed_id_new s)) (List.map_filter as_s xs))
       (Option.bind (map_of it ''groups'') as_l)"

definition membership_resolve ::
    "(string \<Rightarrow> string \<Rightarrow> (string, item option) result) \<Rightarrow> user_id \<Rightarrow> organization_id \<Rightarrow> (string, group_name list option) result" where
  "membership_resolve get_item user_id org_id =
     (case get_item (USER_PREFIX @ seg_str user_id) (ORG_PREFIX @ seg_str org_id) of
        Inl _ \<Rightarrow> Inl ''GetItem failed''
      | Inr None \<Rightarrow> Inr None
      | Inr (Some it) \<Rightarrow>
          (case parse_groups it of
             None \<Rightarrow> Inl ''malformed groups attribute''
           | Some groups \<Rightarrow> Inr (Some groups)))"

section \<open>Events\<close>

definition EVT_PREFIX :: string where "EVT_PREFIX = ''EVT#''"

definition SK_SEQ :: string where "SK_SEQ = ''SEQ''"

definition EVT_SK_MAX :: string where "EVT_SK_MAX = ''EVT#99999999999999999999''"

text \<open>\<open>{seq:020}\<close>: decimal digits, padded with zeros to at least twenty.\<close>

definition pad20 :: "nat \<Rightarrow> string" where
  "pad20 n = replicate (20 - length (show_nat n)) CHR ''0'' @ show_nat n"

definition event_sk :: "nat \<Rightarrow> string" where
  "event_sk seq = EVT_PREFIX @ pad20 seq"

definition event_item :: "('n, 'sk, 'vk, 'sig) cp_env \<Rightarrow> string \<Rightarrow> 'n event_envelope \<Rightarrow> string \<Rightarrow> item" where
  "event_item env opk e payload_bytes =
     put_s ''signature'' (ev_signature e) (put_s ''key_id'' (ev_key_id e) (put_s ''payload'' payload_bytes
       (hm_insert ''schema_version'' (AttrN (show_nat (ev_schema_version e)))
       (hm_insert ''narrowing'' (AttrBool (ev_narrowing e)) (put_s ''actor'' (ce_to_vec env (actor_json (ev_actor e)))
       (put_s ''occurred_at'' (ev_occurred_at e) (put_s ''kind'' (event_kind_str (ev_kind e))
       (hm_insert ''seq'' (AttrN (show_nat (ev_seq e))) (put_s ''event_id'' (eid_str (ev_event_id e))
       (put_s sk (event_sk (ev_seq e)) (put_s pk opk [])))))))))))"

definition get_seq :: "item \<Rightarrow> nat option" where
  "get_seq it = map_option unat (Option.bind (Option.bind (map_of it ''seq'') as_n) parse_u64)"

definition envelope_from_item :: "('n, 'sk, 'vk) serde_lib \<Rightarrow> item \<Rightarrow> (cp_error, 'n event_envelope) result" where
  "envelope_from_item sd it =
     and_then (get_s it ''payload'') (\<lambda>payload_str.
     and_then (map_err (\<lambda>e. CpStore (''deserialize event payload: '' @ e)) (sd_from_str sd payload_str)) (\<lambda>payload.
     and_then (get_s it ''actor'') (\<lambda>actor_str.
     and_then (map_err (\<lambda>e. CpStore (''deserialize event actor: '' @ e)) (sd_actor sd actor_str)) (\<lambda>actor.
     and_then (get_s it ''event_id'') (\<lambda>id_str.
     and_then (map_err (\<lambda>e. CpStore (''invalid stored event_id: '' @ authz_error_display e)) (event_id_try_new id_str)) (\<lambda>event_id.
     and_then (ok_or (get_seq it) (CpStore (''missing or invalid '' @ quoted ''seq'' @ '' attribute''))) (\<lambda>seq.
     and_then (get_s it ''kind'') (\<lambda>kind_str.
     and_then (map_err (\<lambda>e. CpStore (''invalid stored event kind: '' @ authz_error_display e)) (event_kind_from_str kind_str)) (\<lambda>kind.
     and_then (get_s it ''occurred_at'') (\<lambda>occurred_at.
     and_then (get_s it ''key_id'') (\<lambda>key_id.
     and_then (get_s it ''signature'') (\<lambda>signature.
     Inr (envelope_from_signed (event_draft_new \<lparr>dp_event_id = event_id, dp_seq = seq, dp_kind = kind,
       dp_occurred_at = occurred_at, dp_actor = actor, dp_payload = payload\<rparr>) key_id signature)))))))))))))"

text \<open>An envelope made by sealing a draft; every stored envelope is one.\<close>

definition sealed :: "'n event_envelope \<Rightarrow> bool" where
  "sealed e \<longleftrightarrow> ev_narrowing e = narrowing (ev_kind e) \<and> ev_schema_version e = schema_version \<and>
     eid_str (ev_event_id e) \<noteq> [] \<and> ev_seq e < 2 ^ 64"

lemma get_s_opt_other: "get_s_opt (hm_insert k v it) k' = (if k' = k then as_s v else get_s_opt it k')"
  by (simp add: get_s_opt_def hm_insert_lookup)

lemma parse_show_nat: "n < 2 ^ 64 \<Longrightarrow> map_option unat (parse_u64 (show_nat n)) = Some n"
  using parse_show_u64 [of "of_nat n"] by (simp add: show_u64_def unat_of_nat)

text \<open>
  C34. An event survives its item: reading the item written for a sealed event gives the same event, with the
  payload decoded from the exact bytes that were stored. So the signature of a stored event can still be
  checked.
\<close>

theorem event_item_round_trip:
  assumes "reads_value env sd (ev_payload e)" "reads_actor env sd (ev_actor e)" "sealed e"
  shows "envelope_from_item sd (event_item env opk e (ce_to_vec env (ev_payload e))) = Inr e"
proof -
  let ?it = "event_item env opk e (ce_to_vec env (ev_payload e))"
  have attrs: "get_s_opt ?it ''payload'' = Some (ce_to_vec env (ev_payload e))"
    "get_s_opt ?it ''actor'' = Some (ce_to_vec env (actor_json (ev_actor e)))"
    "get_s_opt ?it ''event_id'' = Some (eid_str (ev_event_id e))" "get_s_opt ?it ''kind'' = Some (event_kind_str (ev_kind e))"
    "get_s_opt ?it ''occurred_at'' = Some (ev_occurred_at e)" "get_s_opt ?it ''key_id'' = Some (ev_key_id e)"
    "get_s_opt ?it ''signature'' = Some (ev_signature e)"
    by (simp_all add: event_item_def get_s_opt_put get_s_opt_other key_defs)
  have "map_of ?it ''seq'' = Some (AttrN (show_nat (ev_seq e)))"
    by (simp add: event_item_def put_s_def hm_insert_lookup key_defs)
  then have seq: "get_seq ?it = Some (ev_seq e)"
    using parse_show_nat [of "ev_seq e"] assms(3) by (simp add: get_seq_def sealed_def)
  have id: "event_id_try_new (eid_str (ev_event_id e)) = Inr (ev_event_id e)"
    using assms(3) by (cases "ev_event_id e") (simp add: event_id_try_new_def sealed_def)
  have kind: "event_kind_from_str (event_kind_str (ev_kind e)) = Inr (ev_kind e)"
    by (simp add: event_kind_round_trip)
  have "envelope_from_item sd ?it = Inr (envelope_from_signed (event_draft_new \<lparr>dp_event_id = ev_event_id e, dp_seq = ev_seq e,
      dp_kind = ev_kind e, dp_occurred_at = ev_occurred_at e, dp_actor = ev_actor e, dp_payload = ev_payload e\<rparr>)
      (ev_key_id e) (ev_signature e))"
    using assms(1,2) by (simp add: envelope_from_item_def get_s_def attrs seq id kind reads_value_def reads_actor_def)
  also have "envelope_from_signed (event_draft_new \<lparr>dp_event_id = ev_event_id e, dp_seq = ev_seq e,
      dp_kind = ev_kind e, dp_occurred_at = ev_occurred_at e, dp_actor = ev_actor e, dp_payload = ev_payload e\<rparr>)
      (ev_key_id e) (ev_signature e) = e"
    using assms(3) by (cases e) (simp add: envelope_from_signed_def event_draft_new_def sealed_def)
  finally show ?thesis .
qed

theorem event_item_round_trip_witness:
  "envelope_from_item ex_serde (event_item ex_dyn_env ''ORG#acme'' (ex_event 7 GroupPut JNull) ''{}'') = Inr (ex_event 7 GroupPut JNull)"
proof -
  have "sealed (ex_event 7 GroupPut (JNull :: nat json))"
    by (simp add: sealed_def ex_event_def envelope_from_signed_def event_draft_new_def)
  with event_item_round_trip [of ex_dyn_env ex_serde "ex_event 7 GroupPut JNull" "''ORG#acme''"] show ?thesis
    by (simp add: reads_value_def reads_actor_def ex_serde_def ex_event_def envelope_from_signed_def event_draft_new_def
        ex_dyn_env_def ex_cp_env_def)
qed

section \<open>State writes\<close>

datatype state_guard = GuardNone | MustNotExist

record state_put =
  sp_pk :: string
  sp_sk :: string
  sp_attributes :: item
  sp_guard :: state_guard

record state_delete =
  sdel_pk :: string
  sdel_sk :: string

definition PRINCIPAL_PREFIX :: string where "PRINCIPAL_PREFIX = ''PRINCIPAL#''"

definition PROMO_PREFIX :: string where "PROMO_PREFIX = ''PROMO#''"

definition SK_EVENT_SIGNING_KEY :: string where "SK_EVENT_SIGNING_KEY = ''EVENT_SIGNING_KEY''"

definition EVENT_SIGNING_KEY_ID :: string where "EVENT_SIGNING_KEY_ID = ''event-signing-key-1''"

definition principal_state_put ::
    "('n, 'sk, 'vk) serde_lib \<Rightarrow> string \<Rightarrow> native_id \<Rightarrow> string \<Rightarrow> string \<Rightarrow> (cp_error, state_put) result" where
  "principal_state_put sd org_id native_id payload updated_at =
     and_then (map_err (\<lambda>e. CpStore (''principal payload is not valid JSON: '' @ e)) (sd_from_str sd payload)) (\<lambda>_.
     Inr \<lparr>sp_pk = org_pk org_id, sp_sk = PRINCIPAL_PREFIX @ nid_str native_id,
          sp_attributes = put_s ''updated_at'' updated_at (put_s ''payload'' payload []), sp_guard = GuardNone\<rparr>)"

definition promotion_sk :: "segment \<Rightarrow> native_id \<Rightarrow> string" where
  "promotion_sk resource_type native_id = PROMO_PREFIX @ seg_str resource_type @ ''#'' @ nid_str native_id"

definition promotion_state_put :: "string \<Rightarrow> segment \<Rightarrow> native_id \<Rightarrow> fgrn \<Rightarrow> string \<Rightarrow> state_put" where
  "promotion_state_put org_id resource_type native_id f promoted_at =
     \<lparr>sp_pk = org_pk org_id, sp_sk = promotion_sk resource_type native_id,
      sp_attributes = put_s ''promoted_at'' promoted_at (put_s ''native_id'' (nid_str native_id) (put_s ''fgrn'' (fgrn_display f) [])),
      sp_guard = GuardNone\<rparr>"

section \<open>Sort keys\<close>

lemma foldl_read_nat:
  "foldl (\<lambda>a c. 10 * a + (of_char c - 48)) n s = n * 10 ^ length s + read_nat s"
proof (induction s arbitrary: n)
  case Nil
  show ?case by (simp add: read_nat_def)
next
  case (Cons c s)
  from Cons [of "10 * n + (of_char c - 48)"] Cons [of "of_char c - 48"] show ?case
    by (simp add: read_nat_def algebra_simps)
qed

lemma read_nat_Cons: "read_nat (c # s) = (of_char c - 48) * 10 ^ length s + read_nat s"
  using foldl_read_nat [of "of_char c - 48" s] by (simp add: read_nat_def)

lemma read_nat_less: "list_all is_ascii_digit s \<Longrightarrow> read_nat s < 10 ^ length s"
proof (induction s)
  case (Cons c s)
  then have "(of_char c :: nat) - 48 \<le> 9" "read_nat s < 10 ^ length s" by (auto simp: is_ascii_digit_def byte_def)
  then have "(of_char c - 48) * 10 ^ length s + read_nat s < 9 * 10 ^ length s + 10 ^ length s"
    by (meson add_le_less_mono mult_le_mono1)
  then show ?case by (simp add: read_nat_Cons)
qed (simp add: read_nat_def)

text \<open>Digit strings of the same length are ordered as the numbers they denote.\<close>

lemma digits_less_iff:
  "length xs = length ys \<Longrightarrow> list_all is_ascii_digit xs \<Longrightarrow> list_all is_ascii_digit ys \<Longrightarrow>
    xs < ys \<longleftrightarrow> read_nat xs < read_nat ys"
proof (induction xs ys rule: list_induct2)
  case (Cons a xs b ys)
  let ?a = "of_char a - 48 :: nat" and ?b = "of_char b - 48 :: nat" and ?p = "10 ^ length ys :: nat"
  have d: "is_ascii_digit a" "is_ascii_digit b" using Cons.prems by simp_all
  have lt: "read_nat xs < ?p" "read_nat ys < ?p" using Cons read_nat_less by fastforce+
  have d': "48 \<le> (of_char a :: nat)" "48 \<le> (of_char b :: nat)" using d by (simp_all add: is_ascii_digit_def byte_def)
  then have "?a = ?b \<longleftrightarrow> (of_char a :: nat) = of_char b" "?a < ?b \<longleftrightarrow> (of_char a :: nat) < of_char b" by linarith+
  then have ab: "a < b \<longleftrightarrow> ?a < ?b" "a = b \<longleftrightarrow> ?a = ?b" by (simp_all add: less_char_def)
  have step: "x * ?p + r < y * ?p + r'" if "x < y" "r < ?p" for x y r r'
  proof -
    have "Suc x * ?p \<le> y * ?p" using that(1) by (meson Suc_leI mult_le_mono1)
    then show ?thesis using that(2) by simp
  qed
  have "?a * ?p + read_nat xs < ?b * ?p + read_nat ys \<longleftrightarrow> ?a < ?b \<or> ?a = ?b \<and> read_nat xs < read_nat ys"
    using step [OF _ lt(1), of ?a ?b "read_nat ys"] step [OF _ lt(2), of ?b ?a "read_nat xs"]
    by (cases ?a ?b rule: linorder_cases) auto
  then show ?case using Cons ab by (simp add: read_nat_Cons)
qed simp

lemma length_show_nat: "n < 10 ^ k \<Longrightarrow> 0 < k \<Longrightarrow> length (show_nat n) \<le> k"
proof (induction k arbitrary: n)
  case (Suc k)
  show ?case
  proof (cases "n < 10")
    case False
    then have "k \<noteq> 0" using Suc.prems by (cases k) auto
    moreover have "n div 10 < 10 ^ k" using Suc.prems by (simp add: less_mult_imp_div_less mult.commute)
    ultimately show ?thesis using Suc.IH False by (simp add: show_nat.simps [of n])
  qed (simp add: show_nat.simps)
qed simp

lemma pad20:
  assumes "n < 10 ^ 20"
  shows "length (pad20 n) = 20" "list_all is_ascii_digit (pad20 n)" "read_nat (pad20 n) = n"
proof -
  show "length (pad20 n) = 20" using length_show_nat [OF assms] by (simp add: pad20_def)
  show "list_all is_ascii_digit (pad20 n)"
    using show_nat_digits by (auto simp: pad20_def list_all_iff is_ascii_digit_def byte_def)
  have "read_nat (replicate m CHR ''0'' @ s) = read_nat s" for m s
    by (induction m) (simp_all add: read_nat_Cons)
  then show "read_nat (pad20 n) = n" by (simp add: pad20_def read_show_nat)
qed

lemma append_less_append [simp]: "(p :: string) @ xs < p @ ys \<longleftrightarrow> xs < ys"
  by (induction p) simp_all

lemma append_le_append [simp]: "(p :: string) @ xs \<le> p @ ys \<longleftrightarrow> xs \<le> ys"
  by (simp add: le_less)

lemma event_sk_less_iff: "m < 10 ^ 20 \<Longrightarrow> n < 10 ^ 20 \<Longrightarrow> event_sk m < event_sk n \<longleftrightarrow> m < n"
  using digits_less_iff [of "pad20 m" "pad20 n"] by (simp add: event_sk_def pad20)

lemma event_sk_inj: "m < 10 ^ 20 \<Longrightarrow> n < 10 ^ 20 \<Longrightarrow> event_sk m = event_sk n \<longleftrightarrow> m = n"
  by (metis event_sk_def pad20(3) same_append_eq)

lemma event_sk_max: "n < 10 ^ 20 \<Longrightarrow> event_sk n \<le> EVT_SK_MAX"
proof -
  assume n: "n < 10 ^ 20"
  let ?max = "''99999999999999999999''"
  have m: "EVT_SK_MAX = EVT_PREFIX @ ?max" by (simp add: EVT_SK_MAX_def EVT_PREFIX_def)
  have v: "length ?max = 20" "list_all is_ascii_digit ?max" by (simp_all add: is_ascii_digit_def byte_def)
  have r: "read_nat ?max = 10 ^ 20 - 1" by (simp add: read_nat_def)
  have "\<not> ?max < pad20 n" using digits_less_iff [of ?max "pad20 n"] v r pad20 [OF n] n by simp
  then show ?thesis by (simp add: event_sk_def m not_less)
qed

text \<open>The kinds of items of an organization, by sort key.\<close>

inductive other_sort_key :: "string \<Rightarrow> bool" where
  meta: "other_sort_key SK_META"
| seq: "other_sort_key SK_SEQ"
| signing_key: "other_sort_key SK_EVENT_SIGNING_KEY"
| group: "other_sort_key (group_sk name)"
| principal: "other_sort_key (PRINCIPAL_PREFIX @ i)"
| promotion: "other_sort_key (PROMO_PREFIX @ i)"

lemma other_sort_key_outside: "other_sort_key s \<Longrightarrow> \<not> starts_with s EVT_PREFIX \<and> (s < EVT_PREFIX \<or> EVT_SK_MAX < s)"
  by (induction rule: other_sort_key.induct)
    (simp_all add: SK_META_def SK_SEQ_def SK_EVENT_SIGNING_KEY_def group_sk_def SK_GROUP_PREFIX_def PRINCIPAL_PREFIX_def
      PROMO_PREFIX_def EVT_PREFIX_def EVT_SK_MAX_def starts_with_def less_char_def)



end
