(* ===== verification/Dynamo_Table.thy ===== *)
theory Dynamo_Table
  imports Dynamo_Items
begin

text \<open>
  Programs that talk to a DynamoDB table, and reasoning about many of them at once. A program is a
  resumption: a result, a panic, or a request with a continuation over the reply. A request is one call of
  the AWS SDK, or a reading of the clock or of the random sources. The service is the argument \<open>db\<close>; what its
  documentation promises is \<open>documented\<close>. The state is the history of the table, newest version first, because
  a read that is not strongly consistent may answer from an older version. Calls of any number of processes
  interleave at requests; a process that dies is one that is never scheduled again.
\<close>

section \<open>Requests and programs\<close>

type_synonym key = "string \<times> string"

type_synonym table = "(key, item) hash_map"

type_synonym history = "table list"

datatype condition = CondNone | AttrNotExists string | AttrExists string | AttrEq string attr

datatype tx_write =
    TxUpdate key string attr condition
  | TxPut item condition
  | TxDelete key condition

datatype sk_condition = SkBetween string string | SkBeginsWith string

datatype request =
    GetItem bool key
  | PutItem item condition
  | TransactWrite "tx_write list"
  | Query string sk_condition "nat option" "key option"
  | Now
  | NewUlid
  | NewKeyPair

datatype reply =
    RItem "item option"
  | ROk
  | RConditionFailed
  | RCancelled "string option list" string
  | RItems "item list" "key option"
  | RNow timestamp
  | RUlid string
  | RKeyPair "(string, string) result" "(string, string) result" "nat list"
  | RError string

datatype 'a prog = Ret 'a | Crash | Ask request "reply \<Rightarrow> 'a prog"

primrec pbind :: "'a prog \<Rightarrow> ('a \<Rightarrow> 'b prog) \<Rightarrow> 'b prog" where
  "pbind (Ret x) f = f x"
| "pbind Crash f = Crash"
| "pbind (Ask r k) f = Ask r (\<lambda>rep. pbind (k rep) f)"

text \<open>The \<open>?\<close> operator in a program, and a program that only lifts a result.\<close>

definition rbind :: "('e, 'a) result prog \<Rightarrow> ('a \<Rightarrow> ('e, 'b) result prog) \<Rightarrow> ('e, 'b) result prog" where
  "rbind p f = pbind p (\<lambda>r. case r of Inl e \<Rightarrow> Ret (Inl e) | Inr x \<Rightarrow> f x)"

definition lift_result :: "('e, 'a) result \<Rightarrow> ('e, 'a) result prog" where
  "lift_result r = Ret r"

definition lift_outcome :: "('e, 'a) outcome \<Rightarrow> ('e, 'a) result prog" where
  "lift_outcome x = (case x of None \<Rightarrow> Crash | Some r \<Rightarrow> Ret r)"

lemma rbind_simps [simp]:
  "rbind (Ret (Inl e)) f = Ret (Inl e)"
  "rbind (Ret (Inr x)) f = f x"
  "rbind Crash f = Crash"
  "rbind (Ask r k) f = Ask r (\<lambda>rep. rbind (k rep) f)"
  by (simp_all add: rbind_def)

definition ask_item :: "bool \<Rightarrow> key \<Rightarrow> (cp_error, item option) result prog" where
  "ask_item consistent k = Ask (GetItem consistent k) (\<lambda>rep. case rep of
     RItem it \<Rightarrow> Ret (Inr it) | RError e \<Rightarrow> Ret (Inl (CpStore e)) | _ \<Rightarrow> Crash)"

definition ask_now :: "timestamp prog" where
  "ask_now = Ask Now (\<lambda>rep. case rep of RNow t \<Rightarrow> Ret t | _ \<Rightarrow> Crash)"

definition ask_ulid :: "string prog" where
  "ask_ulid = Ask NewUlid (\<lambda>rep. case rep of RUlid u \<Rightarrow> Ret u | _ \<Rightarrow> Crash)"

section \<open>The table\<close>

definition item_key :: "item \<Rightarrow> key" where
  "item_key it = (case (get_s_opt it pk, get_s_opt it sk) of (Some p, Some s) \<Rightarrow> (p, s) | _ \<Rightarrow> ([], []))"

fun cond_holds :: "condition \<Rightarrow> item option \<Rightarrow> bool" where
  "cond_holds CondNone it \<longleftrightarrow> True"
| "cond_holds (AttrNotExists a) it \<longleftrightarrow> (case it of None \<Rightarrow> True | Some i \<Rightarrow> map_of i a = None)"
| "cond_holds (AttrExists a) it \<longleftrightarrow> (case it of None \<Rightarrow> False | Some i \<Rightarrow> map_of i a \<noteq> None)"
| "cond_holds (AttrEq a v) it \<longleftrightarrow> (case it of None \<Rightarrow> False | Some i \<Rightarrow> map_of i a = Some v)"

fun tx_key :: "tx_write \<Rightarrow> key" where
  "tx_key (TxUpdate k a v c) = k"
| "tx_key (TxPut it c) = item_key it"
| "tx_key (TxDelete k c) = k"

fun tx_cond :: "tx_write \<Rightarrow> condition" where
  "tx_cond (TxUpdate k a v c) = c"
| "tx_cond (TxPut it c) = c"
| "tx_cond (TxDelete k c) = c"

text \<open>An update creates the item, with its key attributes, when there is none.\<close>

fun tx_apply :: "tx_write \<Rightarrow> table \<Rightarrow> table" where
  "tx_apply (TxUpdate k a v c) T =
     hm_insert k (hm_insert a v (case map_of T k of Some i \<Rightarrow> i | None \<Rightarrow> put_s sk (snd k) (put_s pk (fst k) []))) T"
| "tx_apply (TxPut it c) T = hm_insert (item_key it) it T"
| "tx_apply (TxDelete k c) T = hm_remove k T"

definition tx_enabled :: "tx_write list \<Rightarrow> table \<Rightarrow> bool" where
  "tx_enabled ws T \<longleftrightarrow> list_all (\<lambda>w. cond_holds (tx_cond w) (map_of T (tx_key w))) ws"

definition tx_commit :: "tx_write list \<Rightarrow> table \<Rightarrow> table" where
  "tx_commit ws T = fold tx_apply ws T"

fun sk_matches :: "sk_condition \<Rightarrow> string \<Rightarrow> bool" where
  "sk_matches (SkBetween lo hi) s \<longleftrightarrow> lo \<le> s \<and> s \<le> hi"
| "sk_matches (SkBeginsWith p) s \<longleftrightarrow> starts_with s p"

text \<open>The items of a query in the order of their sort keys, after the exclusive start key.\<close>

definition query_matches :: "table \<Rightarrow> string \<Rightarrow> sk_condition \<Rightarrow> key option \<Rightarrow> item list" where
  "query_matches T p c start =
     map (\<lambda>s. the (map_of T (p, s))) (sort (remdups (map snd (filter (\<lambda>k. fst k = p \<and> sk_matches c (snd k) \<and>
       (case start of None \<Rightarrow> True | Some (_, s0) \<Rightarrow> s0 < snd k)) (map fst T)))))"

definition cur :: "history \<Rightarrow> table" where
  "cur H = (case H of [] \<Rightarrow> [] | T # _ \<Rightarrow> T)"

text \<open>Fewer than \<open>2 ^ 64 - 1\<close> items are in the table when a request is served.\<close>

definition capacity :: "table \<Rightarrow> bool" where
  "capacity T \<longleftrightarrow> card (dom (map_of T)) < 2 ^ 64 - 1"

text \<open>
  The documented behaviour. A strongly consistent read answers from the newest version, any other read from
  some version. A conditional write or a transaction takes effect exactly when all its conditions hold; it
  reports success, or failure with no effect, a failed condition as such, or an error, after which it may or
  may not have taken effect. A page of a query may end early, and then the reply carries the last key.
\<close>

fun documented :: "history \<Rightarrow> request \<Rightarrow> reply \<Rightarrow> history \<Rightarrow> bool" where
  "documented H (GetItem consistent k) rep H' \<longleftrightarrow> H' = H \<and>
     ((\<exists>T \<in> set H. (consistent \<longrightarrow> T = cur H) \<and> rep = RItem (map_of T k)) \<or> (\<exists>e. rep = RError e))"
| "documented H (PutItem it c) rep H' \<longleftrightarrow>
     (let holds = cond_holds c (map_of (cur H) (item_key it)); H1 = hm_insert (item_key it) it (cur H) # H in
      rep = ROk \<and> holds \<and> H' = H1 \<or> rep = RConditionFailed \<and> \<not> holds \<and> H' = H \<or>
      (\<exists>e. rep = RError e) \<and> (H' = H \<or> holds \<and> H' = H1))"
| "documented H (TransactWrite ws) rep H' \<longleftrightarrow>
     (let H1 = tx_commit ws (cur H) # H in
      rep = ROk \<and> tx_enabled ws (cur H) \<and> H' = H1 \<or>
      (\<exists>rs m. rep = RCancelled rs m \<and> H' = H \<and> length rs = length ws \<and> (\<forall>i < length ws.
         rs ! i = Some ''ConditionalCheckFailed'' \<longrightarrow> \<not> cond_holds (tx_cond (ws ! i)) (map_of (cur H) (tx_key (ws ! i))))) \<or>
      (\<exists>e. rep = RError e) \<and> (H' = H \<or> tx_enabled ws (cur H) \<and> H' = H1))"
| "documented H (Query p c limit start) rep H' \<longleftrightarrow> H' = H \<and>
     ((\<exists>T \<in> set H. \<exists>n lek. let M = query_matches T p c start in
         n \<le> length M \<and> (case limit of Some l \<Rightarrow> n \<le> l | None \<Rightarrow> True) \<and> (M \<noteq> [] \<and> limit \<noteq> Some 0 \<longrightarrow> 0 < n) \<and>
         (lek = None \<longrightarrow> n = length M) \<and> (lek = None \<or> lek = Some (item_key (M ! (n - 1)))) \<and> rep = RItems (take n M) lek) \<or>
      (\<exists>e. rep = RError e))"
| "documented H Now rep H' \<longleftrightarrow> H' = H \<and> (\<exists>t. rep = RNow t)"
| "documented H NewUlid rep H' \<longleftrightarrow> H' = H \<and> (\<exists>u. rep = RUlid u \<and> u \<noteq> [])"
| "documented H NewKeyPair rep H' \<longleftrightarrow> H' = H \<and> (\<exists>a b c. rep = RKeyPair a b c)"

type_synonym service = "history \<Rightarrow> request \<Rightarrow> reply \<Rightarrow> history \<Rightarrow> bool"

definition dynamo_laws :: "service \<Rightarrow> bool" where
  "dynamo_laws db \<longleftrightarrow> (\<forall>H r rep H'. db H r rep H' \<longrightarrow> documented H r rep H' \<and> capacity (cur H))"

section \<open>Interleaving\<close>

text \<open>
  A pool of running programs; one of them makes its next request. A call that arrives later is one that makes
  its first request later.
\<close>

inductive pool_step :: "service \<Rightarrow> 'a prog list \<times> history \<Rightarrow> 'a prog list \<times> history \<Rightarrow> bool" for db :: service where
  "i < length ps \<Longrightarrow> ps ! i = Ask r k \<Longrightarrow> db H r rep H' \<Longrightarrow> pool_step db (ps, H) (ps[i := k rep], H')"

inductive_cases pool_stepE: "pool_step db (ps, H) (ps', H')"

text \<open>
  What a program guarantees under interference: every request moves the history inside \<open>R\<close>, it does not panic,
  and its result satisfies \<open>Q\<close>, whatever other programs do inside \<open>R\<close> between its requests.
\<close>

primrec rg :: "service \<Rightarrow> (history \<Rightarrow> history \<Rightarrow> bool) \<Rightarrow> ('a \<Rightarrow> history \<Rightarrow> bool) \<Rightarrow> 'a prog \<Rightarrow> history \<Rightarrow> bool" where
  "rg db R Q (Ret x) = Q x"
| "rg db R Q Crash = (\<lambda>H. False)"
| "rg db R Q (Ask r k) = (\<lambda>H. \<forall>rep H'. db H r rep H' \<longrightarrow> R H H' \<and> (\<forall>H''. R H' H'' \<longrightarrow> rg db R Q (k rep) H''))"

lemma rg_bind:
  "rg db R Q' p H \<Longrightarrow> (\<And>x H'. Q' x H' \<Longrightarrow> rg db R Q (f x) H') \<Longrightarrow> rg db R Q (pbind p f) H"
  by (induction p arbitrary: H) auto

lemma rg_rbind:
  assumes "rg db R Q' p H" "\<And>x H'. Q' (Inr x) H' \<Longrightarrow> rg db R Q (f x) H'" "\<And>e H'. Q' (Inl e) H' \<Longrightarrow> Q (Inl e) H'"
  shows "rg db R Q (rbind p f) H"
  unfolding rbind_def by (rule rg_bind [OF assms(1)]) (use assms(2,3) in \<open>auto split: sum.split\<close>)

lemma rg_mono: "rg db R Q p H \<Longrightarrow> (\<And>x H'. Q x H' \<Longrightarrow> Q' x H') \<Longrightarrow> rg db R Q' p H"
  by (induction p arbitrary: H) auto

definition safe :: "service \<Rightarrow> (history \<Rightarrow> history \<Rightarrow> bool) \<Rightarrow> ('a \<Rightarrow> history \<Rightarrow> bool) \<Rightarrow> 'a prog \<Rightarrow> history \<Rightarrow> bool" where
  "safe db R Q p H \<longleftrightarrow> (\<forall>H'. R H H' \<longrightarrow> rg db R Q p H')"

text \<open>The relation inside which every program stays: histories only grow, and what holds of them is kept.\<close>

locale interference =
  fixes R :: "history \<Rightarrow> history \<Rightarrow> bool" and good :: "history \<Rightarrow> bool"
  assumes R_refl: "good H \<Longrightarrow> R H H"
    and R_trans: "R H H' \<Longrightarrow> R H' H'' \<Longrightarrow> R H H''"
    and R_good: "R H H' \<Longrightarrow> good H'"
begin

lemma safe_stable: "safe db R Q p H \<Longrightarrow> R H H' \<Longrightarrow> safe db R Q p H'"
  unfolding safe_def using R_trans by blast

lemma safe_rg: "safe db R Q p H \<Longrightarrow> good H \<Longrightarrow> rg db R Q p H"
  unfolding safe_def using R_refl by blast

lemma pool_step_safe:
  assumes "pool_step db (ps, H) (ps', H')" "good H" "\<And>i. i < length ps \<Longrightarrow> safe db R (Q i) (ps ! i) H"
  shows "R H H' \<and> length ps' = length ps \<and> (\<forall>i < length ps. safe db R (Q i) (ps' ! i) H')"
proof -
  obtain i r k rep where step: "i < length ps" "ps ! i = Ask r k" "db H r rep H'" "ps' = ps[i := k rep]"
    using assms(1) by (blast elim: pool_stepE)
  have "rg db R (Q i) (Ask r k) H" using safe_rg [OF assms(3) assms(2)] step(1,2) by metis
  then have "R H H'" "safe db R (Q i) (k rep) H'" using step(3) by (auto simp: safe_def)
  then show ?thesis using safe_stable [OF assms(3)] step(1,4) by (auto simp: nth_list_update)
qed

text \<open>
  Programs that are safe on their own are safe together: whatever the interleaving, the history moves inside
  \<open>R\<close>, and what every program guarantees of its result holds when it returns.
\<close>

lemma pool_safe:
  assumes "(pool_step db)\<^sup>*\<^sup>* (ps, H) (ps', H')" "good H" "\<And>i. i < length ps \<Longrightarrow> safe db R (Q i) (ps ! i) H"
  shows "R H H' \<and> length ps' = length ps \<and> (\<forall>i < length ps. safe db R (Q i) (ps' ! i) H')"
  using assms(1)
proof (induction "(ps', H')" arbitrary: ps' H' rule: rtranclp_induct)
  case base
  then show ?case using assms(2,3) R_refl by blast
next
  case (step y)
  obtain ps1 H1 where y: "y = (ps1, H1)" by fastforce
  have IH: "R H H1" "length ps1 = length ps" "\<forall>i < length ps. safe db R (Q i) (ps1 ! i) H1" using step(3) [OF y] by auto
  have "R H1 H' \<and> length ps' = length ps1 \<and> (\<forall>i < length ps1. safe db R (Q i) (ps' ! i) H')"
    by (rule pool_step_safe) (use step(2) y R_good IH in auto)
  then show ?case using IH(1,2) R_trans by metis
qed

lemma pool_result:
  assumes "(pool_step db)\<^sup>*\<^sup>* (ps, H) (ps', H')" "good H" "\<And>i. i < length ps \<Longrightarrow> safe db R (Q i) (ps ! i) H"
    and "i < length ps"
  shows "ps' ! i \<noteq> Crash \<and> (\<forall>x. ps' ! i = Ret x \<longrightarrow> Q i x H')"
proof -
  have "rg db R (Q i) (ps' ! i) H'"
    using pool_safe [OF assms(1-3)] assms(4) R_good safe_rg by blast
  then show ?thesis by auto
qed

end

end
