(* ===== verification/Dynamo_Log.thy ===== *)
theory Dynamo_Log
  imports Dynamo_Table
begin

text \<open>
  The transactional event log of \<open>event_log.rs\<close>: the counter, the append loop with its optimistic
  compare-and-swap, the variant that deletes a state item, and the event-signing key of an organization
  (\<open>model_event_store/mod.rs\<close>). The invariant of the table says that the log of every organization is gap
  free, that every event is the signed one, and that the items of groups, principals and promotions are what
  the log says they are.
\<close>

section \<open>The log\<close>

definition MAX_APPEND_ATTEMPTS :: nat where "MAX_APPEND_ATTEMPTS = 50"

definition read_counter :: "string \<Rightarrow> (cp_error, nat) result prog" where
  "read_counter opk =
     rbind (ask_item True (opk, SK_SEQ)) (\<lambda>it.
     lift_result (case it of
        None \<Rightarrow> Inr 0
      | Some it \<Rightarrow> ok_or (get_seq it) (CpStore (''missing or invalid counter '' @ quoted ''seq'' @ '' attribute''))))"

definition counter_update :: "string \<Rightarrow> nat \<Rightarrow> nat \<Rightarrow> tx_write" where
  "counter_update opk current candidate =
     TxUpdate (opk, SK_SEQ) ''seq'' (AttrN (show_nat candidate))
       (if current = 0 then AttrNotExists ''seq'' else AttrEq ''seq'' (AttrN (show_nat current)))"

definition event_put :: "('n, 'sk, 'vk, 'sig) cp_env \<Rightarrow> string \<Rightarrow> 'n event_envelope \<Rightarrow> string \<Rightarrow> tx_write" where
  "event_put env opk envelope payload_bytes = TxPut (event_item env opk envelope payload_bytes) (AttrNotExists sk)"

definition state_put_write :: "state_put \<Rightarrow> tx_write" where
  "state_put_write st =
     TxPut (put_s sk (sp_sk st) (put_s pk (sp_pk st) (sp_attributes st)))
       (if sp_guard st = MustNotExist then AttrNotExists pk else CondNone)"

definition state_delete_write :: "state_delete \<Rightarrow> tx_write" where
  "state_delete_write st = TxDelete (sdel_pk st, sdel_sk st) (AttrExists pk)"

definition check_failed :: "string option list \<Rightarrow> bool" where
  "check_failed rs \<longleftrightarrow> 2 < length rs \<and> rs ! 2 = Some ''ConditionalCheckFailed''"

text \<open>The loop; the argument counts the attempts that are left. \<open>current + 1\<close> is an addition of \<open>u64\<close>.\<close>

fun append_loop ::
    "('n, 'sk, 'vk, 'sig) cp_env \<Rightarrow> string \<Rightarrow> nat option \<Rightarrow> (nat \<Rightarrow> ('n event_envelope \<times> string) prog) \<Rightarrow> state_put \<Rightarrow> nat
      \<Rightarrow> (cp_error, nat) result prog" where
  "append_loop env opk expected build st 0 =
     Ret (Inl (CpStore (''append: exhausted '' @ show_nat MAX_APPEND_ATTEMPTS @ '' attempts for '' @ quoted opk)))"
| "append_loop env opk expected build st (Suc n) =
     rbind (read_counter opk) (\<lambda>current.
     rbind (lift_result (check_expected_revision current expected)) (\<lambda>_.
     (let candidate = (current + 1) mod 2 ^ 64 in
      pbind (build candidate) (\<lambda>(envelope, payload_bytes).
      Ask (TransactWrite [counter_update opk current candidate, event_put env opk envelope payload_bytes, state_put_write st])
        (\<lambda>rep. case rep of
           ROk \<Rightarrow> Ret (Inr candidate)
         | RCancelled rs m \<Rightarrow>
             if sp_guard st = MustNotExist \<and> check_failed rs then
               Ret (Inl (CpConflict (''state item already exists for '' @ quoted opk)))
             else if n \<noteq> 0 then append_loop env opk expected build st n
             else Ret (Inl (CpStore m))
         | RError e \<Rightarrow> Ret (Inl (CpStore e))
         | _ \<Rightarrow> Crash)))))"

definition append_event ::
    "('n, 'sk, 'vk, 'sig) cp_env \<Rightarrow> string \<Rightarrow> nat option \<Rightarrow> (nat \<Rightarrow> ('n event_envelope \<times> string) prog) \<Rightarrow> state_put
      \<Rightarrow> (cp_error, nat) result prog" where
  "append_event env opk expected build st = append_loop env opk expected build st MAX_APPEND_ATTEMPTS"

fun append_delete_loop ::
    "('n, 'sk, 'vk, 'sig) cp_env \<Rightarrow> string \<Rightarrow> nat option \<Rightarrow> (nat \<Rightarrow> ('n event_envelope \<times> string) prog) \<Rightarrow> state_delete \<Rightarrow> nat
      \<Rightarrow> (cp_error, nat option) result prog" where
  "append_delete_loop env opk expected build st 0 =
     Ret (Inl (CpStore (''append_with_delete: exhausted '' @ show_nat MAX_APPEND_ATTEMPTS @ '' attempts for '' @ quoted opk)))"
| "append_delete_loop env opk expected build st (Suc n) =
     rbind (read_counter opk) (\<lambda>current.
     rbind (lift_result (check_expected_revision current expected)) (\<lambda>_.
     (let candidate = (current + 1) mod 2 ^ 64 in
      pbind (build candidate) (\<lambda>(envelope, payload_bytes).
      Ask (TransactWrite [counter_update opk current candidate, event_put env opk envelope payload_bytes, state_delete_write st])
        (\<lambda>rep. case rep of
           ROk \<Rightarrow> Ret (Inr (Some candidate))
         | RCancelled rs m \<Rightarrow>
             if check_failed rs then Ret (Inr None)
             else if n \<noteq> 0 then append_delete_loop env opk expected build st n
             else Ret (Inl (CpStore m))
         | RError e \<Rightarrow> Ret (Inl (CpStore e))
         | _ \<Rightarrow> Crash)))))"

definition append_with_delete ::
    "('n, 'sk, 'vk, 'sig) cp_env \<Rightarrow> string \<Rightarrow> nat option \<Rightarrow> (nat \<Rightarrow> ('n event_envelope \<times> string) prog) \<Rightarrow> state_delete
      \<Rightarrow> (cp_error, nat option) result prog" where
  "append_with_delete env opk expected build st = append_delete_loop env opk expected build st MAX_APPEND_ATTEMPTS"

definition log_events_query ::
    "('n, 'sk, 'vk) serde_lib \<Rightarrow> string \<Rightarrow> nat \<Rightarrow> nat \<Rightarrow> (authz_error, 'n event_envelope list) result prog" where
  "log_events_query sd opk after limit =
     Ask (Query opk (SkBetween (event_sk (min (after + 1) (2 ^ 64 - 1))) EVT_SK_MAX) (Some (min limit (2 ^ 31 - 1))) None)
       (\<lambda>rep. case rep of
          RItems its _ \<Rightarrow> Ret (map_err (\<lambda>e. EvaluationFailed (cp_error_display (sd_debug sd) e)) (collect_results (map (envelope_from_item sd) its)))
        | RError e \<Rightarrow> Ret (Inl (EvaluationFailed (''event log query: '' @ e)))
        | _ \<Rightarrow> Crash)"

definition log_latest :: "('n, 'sk, 'vk) serde_lib \<Rightarrow> string \<Rightarrow> (authz_error, nat) result prog" where
  "log_latest sd opk = pbind (read_counter opk) (\<lambda>r. Ret (map_err (\<lambda>e. EvaluationFailed (cp_error_display (sd_debug sd) e)) r))"

section \<open>The event-signing key\<close>

definition stored_signing_key :: "('n, 'sk, 'vk) serde_lib \<Rightarrow> item \<Rightarrow> (cp_error, 'sk \<times> string) result" where
  "stored_signing_key sd it =
     and_then (get_s it ''private_key_pem'') (\<lambda>pem.
     and_then (get_s it ''key_id'') (\<lambda>kid.
     and_then (map_err (\<lambda>e. CpStore (''stored event signing key invalid: '' @ e)) (sd_from_pkcs8_pem sd pem)) (\<lambda>k.
     Inr (k, kid))))"

definition signing_key_item :: "string \<Rightarrow> generate_key_result \<Rightarrow> item" where
  "signing_key_item org_id generated =
     put_s ''private_key_pem'' (gk_private_key_pem generated) (put_s ''key_id'' EVENT_SIGNING_KEY_ID
       (put_s sk SK_EVENT_SIGNING_KEY (put_s pk (org_pk org_id) [])))"

definition ask_key_material :: "(cp_error, generate_key_result) result prog" where
  "ask_key_material = Ask NewKeyPair (\<lambda>rep. case rep of
     RKeyPair priv pub bytes \<Rightarrow> pbind ask_now (\<lambda>now. Ret (generate_key_material priv pub bytes now)) | _ \<Rightarrow> Crash)"

text \<open>The conditional put of a minted key; \<open>retry\<close> reads the winner's key after a lost race.\<close>

definition mint_signing_key ::
    "('n, 'sk, 'vk) serde_lib \<Rightarrow> string \<Rightarrow> (cp_error, 'sk \<times> string) result prog \<Rightarrow> generate_key_result
      \<Rightarrow> (cp_error, 'sk \<times> string) result prog" where
  "mint_signing_key sd org_id retry generated =
     Ask (PutItem (signing_key_item org_id generated) (AttrNotExists sk)) (\<lambda>rep. case rep of
       ROk \<Rightarrow> lift_result (and_then (map_err (\<lambda>e. CpStore (''generated event signing key invalid: '' @ e))
           (sd_from_pkcs8_pem sd (gk_private_key_pem generated))) (\<lambda>k. Inr (k, EVENT_SIGNING_KEY_ID)))
     | RConditionFailed \<Rightarrow> retry
     | RError e \<Rightarrow> Ret (Inl (CpStore e))
     | _ \<Rightarrow> Crash)"

text \<open>The recursion after a lost race; \<open>rg_ensure_signing_key\<close> shows that a depth of two is never exceeded.\<close>

fun ensure_key_loop :: "('n, 'sk, 'vk) serde_lib \<Rightarrow> string \<Rightarrow> nat \<Rightarrow> (cp_error, 'sk \<times> string) result prog" where
  "ensure_key_loop sd org_id 0 = Crash"
| "ensure_key_loop sd org_id (Suc n) =
     rbind (ask_item True (org_pk org_id, SK_EVENT_SIGNING_KEY)) (\<lambda>existing.
     case existing of
       Some it \<Rightarrow> lift_result (stored_signing_key sd it)
     | None \<Rightarrow>
         rbind ask_key_material (mint_signing_key sd org_id (ensure_key_loop sd org_id n)))"

definition ensure_signing_key :: "('n, 'sk, 'vk) serde_lib \<Rightarrow> string \<Rightarrow> (cp_error, 'sk \<times> string) result prog" where
  "ensure_signing_key sd org_id = ensure_key_loop sd org_id 2"

text \<open>The closure every operation hands to the append: a fresh event id for every attempt.\<close>

definition event_builder ::
    "('n, 'sk, 'vk, 'sig) cp_env \<Rightarrow> string \<Rightarrow> event_kind \<Rightarrow> actor \<Rightarrow> 'n json \<Rightarrow> 'sk \<Rightarrow> string \<Rightarrow> string \<Rightarrow> nat
      \<Rightarrow> ('n event_envelope \<times> string) prog" where
  "event_builder env org_id kind actor payload signing_key key_id occurred_at revision =
     pbind ask_ulid (\<lambda>u.
     case build_model_event env org_id kind actor payload signing_key key_id occurred_at revision u of
       None \<Rightarrow> Crash | Some x \<Rightarrow> Ret x)"

section \<open>The invariant of the table\<close>

text \<open>The event-signing key of an organization.\<close>

definition org_key :: "('n, 'sk, 'vk) serde_lib \<Rightarrow> table \<Rightarrow> string \<Rightarrow> ('sk \<times> string) option" where
  "org_key sd T org =
     Option.bind (map_of T (org_pk org, SK_EVENT_SIGNING_KEY)) (\<lambda>it.
     Option.bind (get_s_opt it ''private_key_pem'') (\<lambda>pem.
     Option.bind (get_s_opt it ''key_id'') (\<lambda>kid.
     map_option (\<lambda>k. (k, kid)) (to_ok (sd_from_pkcs8_pem sd pem)))))"

text \<open>The item that holds the value of an entity of the model, and how it shows the value.\<close>

fun model_sk :: "model_key \<Rightarrow> string option" where
  "model_sk (MPrincipal i) = Some (PRINCIPAL_PREFIX @ i)"
| "model_sk (MPromotion t i) = Some (PROMO_PREFIX @ t @ ''#'' @ i)"
| "model_sk (MGroup n) = Some (group_sk n)"
| "model_sk _ = None"

definition model_key_ok :: "model_key \<Rightarrow> bool" where
  "model_key_ok k = (case k of MPromotion t i \<Rightarrow> CHR ''#'' \<notin> set t | _ \<Rightarrow> True)"

fun stored :: "('n, 'sk, 'vk, 'sig) cp_env \<Rightarrow> model_key \<Rightarrow> 'n model_value \<Rightarrow> item \<Rightarrow> bool" where
  "stored env (MPrincipal i) (Doc d) it \<longleftrightarrow> get_s_opt it ''payload'' = Some (ce_to_vec env d)"
| "stored env (MGroup n) (Doc d) it \<longleftrightarrow> get_s_opt it ''config'' = Some (ce_to_vec env d)"
| "stored env (MPromotion t i) (Name f) it \<longleftrightarrow> get_s_opt it ''fgrn'' = Some f"
| "stored env _ _ it \<longleftrightarrow> False"

definition item_shows :: "('n, 'sk, 'vk, 'sig) cp_env \<Rightarrow> model_key \<Rightarrow> 'n model_value option \<Rightarrow> item option \<Rightarrow> bool" where
  "item_shows env k v it \<longleftrightarrow>
     (case v of None \<Rightarrow> it = None | Some x \<Rightarrow> (case it of None \<Rightarrow> False | Some i \<Rightarrow> stored env k x i))"

definition event_ok :: "('n, 'sk, 'vk, 'sig) cp_env \<Rightarrow> string \<Rightarrow> ('sk \<times> string) option \<Rightarrow> 'n event_envelope \<Rightarrow> bool" where
  "event_ok env org key e \<longleftrightarrow> sealed e \<and> event_write e \<noteq> None \<and>
     (case key of None \<Rightarrow> False | Some (k, kid) \<Rightarrow> ev_key_id e = kid \<and> event_signed env k org e)"

definition stored_event :: "('n, 'sk, 'vk, 'sig) cp_env \<Rightarrow> string \<Rightarrow> 'n event_envelope \<Rightarrow> item" where
  "stored_event env org e = event_item env (org_pk org) e (ce_to_vec env (ev_payload e))"

text \<open>
  The log of an organization is the list \<open>es\<close>: the counter is its length, the event items are its events, every
  event is signed with the organization's key, and the state items are the replay of the log.
\<close>

definition log_at ::
    "('n, 'sk, 'vk, 'sig) cp_env \<Rightarrow> ('n, 'sk, 'vk) serde_lib \<Rightarrow> table \<Rightarrow> string \<Rightarrow> 'n event_envelope list \<Rightarrow> bool" where
  "log_at env sd T org es \<longleftrightarrow>
     length es < 2 ^ 64 \<and> gap_free 0 es \<and> (\<forall>e \<in> set es. event_ok env org (org_key sd T org) e) \<and>
     (case map_of T (org_pk org, SK_SEQ) of
        None \<Rightarrow> es = []
      | Some c \<Rightarrow> es \<noteq> [] \<and> map_of c ''seq'' = Some (AttrN (show_nat (length es)))) \<and>
     (\<forall>i < length es. map_of T (org_pk org, event_sk (Suc i)) = Some (stored_event env org (es ! i))) \<and>
     (\<forall>s. starts_with s EVT_PREFIX \<and> map_of T (org_pk org, s) \<noteq> None \<longrightarrow> (\<exists>i < length es. s = event_sk (Suc i))) \<and>
     (\<forall>k s. model_sk k = Some s \<and> model_key_ok k \<longrightarrow> item_shows env k (replay es k) (map_of T (org_pk org, s)))"

definition keyed :: "table \<Rightarrow> bool" where
  "keyed T \<longleftrightarrow> (\<forall>k it. map_of T k = Some it \<longrightarrow> map_of it pk = Some (AttrS (fst k)) \<and> map_of it sk = Some (AttrS (snd k)))"

definition table_inv :: "('n, 'sk, 'vk, 'sig) cp_env \<Rightarrow> ('n, 'sk, 'vk) serde_lib \<Rightarrow> table \<Rightarrow> bool" where
  "table_inv env sd T \<longleftrightarrow> keyed T \<and> (\<forall>org. \<exists>es. log_at env sd T org es)"

text \<open>Events and signing keys are never changed or removed.\<close>

definition grows :: "table \<Rightarrow> table \<Rightarrow> bool" where
  "grows T T' \<longleftrightarrow> (\<forall>p s it. (starts_with s EVT_PREFIX \<or> s = SK_EVENT_SIGNING_KEY) \<and> map_of T (p, s) = Some it \<longrightarrow>
     map_of T' (p, s) = Some it)"

lemma grows_refl [simp]: "grows T T" and grows_trans: "grows T T' \<Longrightarrow> grows T' T'' \<Longrightarrow> grows T T''"
  by (auto simp: grows_def)

lemma org_pk_inj [simp]: "org_pk a = org_pk b \<longleftrightarrow> a = b"
  by (simp add: org_pk_def)

lemma log_at_cong:
  assumes "\<And>s. map_of T' (org_pk org, s) = map_of T (org_pk org, s)"
  shows "log_at env sd T' org es \<longleftrightarrow> log_at env sd T org es"
  unfolding log_at_def org_key_def assms by (rule refl)

lemma log_at_Nil [simp]: "log_at env sd [] org []"
  by (simp add: log_at_def replay_def item_shows_def)

lemma table_inv_Nil: "table_inv env sd []"
  unfolding table_inv_def keyed_def by (auto intro: exI [of _ "[]"])

lemma sort_keys_distinct:
  "starts_with (event_sk n) EVT_PREFIX" "event_sk n \<noteq> SK_SEQ" "event_sk n \<noteq> SK_META" "event_sk n \<noteq> SK_EVENT_SIGNING_KEY"
  "SK_META \<noteq> SK_SEQ" "SK_META \<noteq> SK_EVENT_SIGNING_KEY" "SK_SEQ \<noteq> SK_EVENT_SIGNING_KEY"
  "\<not> starts_with SK_SEQ EVT_PREFIX" "\<not> starts_with SK_META EVT_PREFIX" "\<not> starts_with SK_EVENT_SIGNING_KEY EVT_PREFIX"
  by (simp_all add: event_sk_def EVT_PREFIX_def SK_SEQ_def SK_META_def SK_EVENT_SIGNING_KEY_def starts_with_def)

lemmas sort_keys_distinct_simps [simp] = sort_keys_distinct sort_keys_distinct(2-7) [symmetric]

lemma model_sk_distinct:
  assumes "model_sk k = Some s"
  shows "\<not> starts_with s EVT_PREFIX" "s \<noteq> SK_SEQ" "s \<noteq> SK_META" "s \<noteq> SK_EVENT_SIGNING_KEY" "s \<noteq> event_sk n"
  using assms
  by (cases k; auto simp: PRINCIPAL_PREFIX_def PROMO_PREFIX_def group_sk_def SK_GROUP_PREFIX_def EVT_PREFIX_def SK_SEQ_def
      SK_META_def SK_EVENT_SIGNING_KEY_def starts_with_def event_sk_def)+

lemma separator_unique: "c \<notin> set a \<Longrightarrow> c \<notin> set b \<Longrightarrow> a @ c # x = b @ c # y \<Longrightarrow> a = b \<and> x = y"
proof (induction a arbitrary: b)
  case Nil
  then show ?case by (cases b) auto
next
  case (Cons d a)
  then show ?case by (cases b) auto
qed

lemma model_sk_inj:
  assumes "model_sk k = Some s" "model_sk k' = Some s" "model_key_ok k" "model_key_ok k'"
  shows "k = k'"
  using assms
  by (cases k; cases k')
    (auto simp: PRINCIPAL_PREFIX_def PROMO_PREFIX_def group_sk_def SK_GROUP_PREFIX_def model_key_ok_def
      dest: separator_unique)

lemma item_keys:
  "keyed T \<Longrightarrow> map_of T k = Some it \<Longrightarrow> map_of it pk = Some (AttrS (fst k)) \<and> map_of it sk = Some (AttrS (snd k))"
  unfolding keyed_def by blast

lemma item_keyI: "map_of it pk = Some (AttrS p) \<Longrightarrow> map_of it sk = Some (AttrS s) \<Longrightarrow> item_key it = (p, s)"
  by (simp add: item_key_def get_s_opt_def)

lemma stored_event_key:
  "map_of (event_item env opk e b) pk = Some (AttrS opk)" "map_of (event_item env opk e b) sk = Some (AttrS (event_sk (ev_seq e)))"
  by (simp_all add: event_item_def put_s_def hm_insert_lookup key_defs)

section \<open>A committed append\<close>

text \<open>The third write of an append, for the value the event writes.\<close>

definition state_write :: "('n, 'sk, 'vk, 'sig) cp_env \<Rightarrow> string \<Rightarrow> model_key \<Rightarrow> 'n model_value option \<Rightarrow> tx_write \<Rightarrow> bool" where
  "state_write env org k v w \<longleftrightarrow>
     (case model_sk k of
        None \<Rightarrow> \<exists>it c. w = TxPut it c \<and> map_of it pk = Some (AttrS (org_pk org)) \<and> map_of it sk = Some (AttrS SK_META)
      | Some s \<Rightarrow> model_key_ok k \<and>
          (case v of
             None \<Rightarrow> \<exists>c. w = TxDelete (org_pk org, s) c
           | Some x \<Rightarrow> \<exists>it c. w = TxPut it c \<and> map_of it pk = Some (AttrS (org_pk org)) \<and> map_of it sk = Some (AttrS s) \<and>
               stored env k x it))"

definition append_tx :: "('n, 'sk, 'vk, 'sig) cp_env \<Rightarrow> string \<Rightarrow> nat \<Rightarrow> 'n event_envelope \<Rightarrow> tx_write \<Rightarrow> tx_write list" where
  "append_tx env org current e w =
     [counter_update (org_pk org) current (ev_seq e), event_put env (org_pk org) e (ce_to_vec env (ev_payload e)), w]"

definition append_ok ::
    "('n, 'sk, 'vk, 'sig) cp_env \<Rightarrow> ('n, 'sk, 'vk) serde_lib \<Rightarrow> table \<Rightarrow> string \<Rightarrow> nat \<Rightarrow> 'n event_envelope \<Rightarrow> tx_write \<Rightarrow> bool" where
  "append_ok env sd T org current e w \<longleftrightarrow>
     ev_seq e = (current + 1) mod 2 ^ 64 \<and> event_ok env org (org_key sd T org) e \<and>
     (\<exists>k v. event_write e = Some (k, v) \<and> state_write env org k v w)"

lemma log_length_bound:
  assumes "log_at env sd T org es" "capacity T"
  shows "length es < 2 ^ 64 - 1"
proof -
  let ?f = "\<lambda>i. (org_pk org, event_sk (Suc i))"
  have "inj_on ?f {..<length es}"
    using assms(1) by (auto simp: inj_on_def log_at_def event_sk_inj)
  moreover have "?f ` {..<length es} \<subseteq> dom (map_of T)" using assms(1) by (auto simp: log_at_def)
  ultimately have "length es \<le> card (dom (map_of T))"
    using card_inj_on_le [of ?f "{..<length es}" "dom (map_of T)"] finite_dom_map_of by auto
  then show ?thesis using assms(2) by (simp add: capacity_def)
qed

lemma counter_enabled:
  assumes "log_at env sd T org es" "cond_holds (tx_cond (counter_update (org_pk org) current n)) (map_of T (org_pk org, SK_SEQ))"
  shows "length es = current"
  using assms by (auto simp: log_at_def counter_update_def split: option.splits if_splits)

lemma state_write_key:
  assumes "state_write env org k v w"
  shows "tx_key w = (org_pk org, case model_sk k of None \<Rightarrow> SK_META | Some s \<Rightarrow> s)"
    "map_of (tx_apply w T) x = (if x = tx_key w then (case w of TxPut it c \<Rightarrow> Some it | _ \<Rightarrow> None) else map_of T x)"
  using assms by (auto simp: state_write_def item_keyI hm_insert_lookup hm_remove_lookup split: option.splits)

lemma append_tx_lookup:
  assumes "state_write env org k v w" "T' = tx_commit (append_tx env org current e w) T"
  shows "map_of T' x =
     (if x = tx_key w then (case w of TxPut it c \<Rightarrow> Some it | _ \<Rightarrow> None)
      else if x = (org_pk org, event_sk (ev_seq e)) then Some (stored_event env org e)
      else if x = (org_pk org, SK_SEQ) then
        Some (hm_insert ''seq'' (AttrN (show_nat (ev_seq e)))
          (case map_of T (org_pk org, SK_SEQ) of Some i \<Rightarrow> i | None \<Rightarrow> put_s sk SK_SEQ (put_s pk (org_pk org) [])))
      else map_of T x)"
  using stored_event_key [of env "org_pk org" e "ce_to_vec env (ev_payload e)"]
  by (simp add: assms(2) tx_commit_def append_tx_def state_write_key(2) [OF assms(1)] event_put_def counter_update_def
      hm_insert_lookup item_keyI stored_event_def sort_keys_distinct split: option.split)

lemma append_tx_other:
  assumes "state_write env org k v w" "T' = tx_commit (append_tx env org current e w) T"
    and "x \<noteq> (org_pk org, SK_SEQ)" "x \<noteq> (org_pk org, event_sk (ev_seq e))" "x \<noteq> tx_key w"
  shows "map_of T' x = map_of T x"
  using append_tx_lookup [OF assms(1,2)] assms(3-5) by simp

lemma replay_snoc: "replay (es @ [e]) = write_event (replay es) e"
  by (simp add: replay_def)

text \<open>The append of \<open>e\<close> to a log of length \<open>current\<close>, seen from the table.\<close>

lemma append_log:
  assumes log: "log_at env sd T org es" and "length es = current" "Suc current < 2 ^ 64"
    and e: "ev_seq e = Suc current" "event_ok env org (org_key sd T org) e" "event_write e = Some (k, v)"
    and w: "state_write env org k v w" and T': "T' = tx_commit (append_tx env org current e w) T"
  shows "log_at env sd T' org (es @ [e])"
proof -
  note key = state_write_key(1) [OF w] and lookup = append_tx_lookup [OF w T'] and other = append_tx_other [OF w T']
  have ev: "event_sk (Suc i) = event_sk (Suc current) \<longleftrightarrow> i = current" if "i \<le> current" for i
    using event_sk_inj [of "Suc i" "Suc current"] that assms(3) by simp
  have wk: "tx_key w \<noteq> (org_pk org, event_sk n)" "tx_key w \<noteq> (org_pk org, SK_SEQ)" "tx_key w \<noteq> (org_pk org, SK_EVENT_SIGNING_KEY)" for n
    using model_sk_distinct [of k] by (auto simp: key split: option.splits)
  have "map_of T' (org_pk org, SK_EVENT_SIGNING_KEY) = map_of T (org_pk org, SK_EVENT_SIGNING_KEY)"
    using other [of "(org_pk org, SK_EVENT_SIGNING_KEY)"] wk(3) by auto
  then have "org_key sd T' org = org_key sd T org" by (simp add: org_key_def)
  then have events_ok: "\<forall>x \<in> set (es @ [e]). event_ok env org (org_key sd T' org) x" using log e(2) by (simp add: log_at_def)
  have counter: "map_of T' (org_pk org, SK_SEQ) = Some c \<Longrightarrow> map_of c ''seq'' = Some (AttrN (show_nat (Suc current)))"
    "map_of T' (org_pk org, SK_SEQ) \<noteq> None" for c
    using lookup [of "(org_pk org, SK_SEQ)"] wk(2) sort_keys_distinct(2) [of "Suc current"] e(1) by (auto simp: hm_insert_lookup)
  have events: "map_of T' (org_pk org, event_sk (Suc i)) = Some (stored_event env org ((es @ [e]) ! i))" if "i < Suc current" for i
  proof (cases "i = current")
    case True
    then show ?thesis using lookup [of "(org_pk org, event_sk (Suc i))"] wk(1) [of "Suc i"] e(1) assms(2) by auto
  next
    case False
    then have "map_of T' (org_pk org, event_sk (Suc i)) = map_of T (org_pk org, event_sk (Suc i))"
      using other [of "(org_pk org, event_sk (Suc i))"] wk(1) [of "Suc i"] ev [of i] e(1) that sort_keys_distinct(2) by auto
    then show ?thesis using log that False assms(2) by (simp add: log_at_def nth_append)
  qed
  have no_other: "\<exists>i < Suc current. s = event_sk (Suc i)" if "starts_with s EVT_PREFIX" "map_of T' (org_pk org, s) \<noteq> None" for s
  proof (rule ccontr)
    assume no: "\<not> ?thesis"
    have "s \<noteq> SK_SEQ" "tx_key w \<noteq> (org_pk org, s)"
      using that(1) model_sk_distinct(1) [of k] by (auto simp: key split: option.splits)
    then have "map_of T' (org_pk org, s) = map_of T (org_pk org, s)" using other [of "(org_pk org, s)"] no e(1) by auto
    then show False using log that no assms(2) unfolding log_at_def by (metis less_SucI)
  qed
  have items: "item_shows env k' (replay (es @ [e]) k') (map_of T' (org_pk org, s))" if k': "model_sk k' = Some s" "model_key_ok k'" for k' s
  proof (cases "k' = k")
    case True
    then have "tx_key w = (org_pk org, s)" using k' by (simp add: key)
    then have "map_of T' (org_pk org, s) = (case w of TxPut it c \<Rightarrow> Some it | _ \<Rightarrow> None)" using lookup by simp
    then show ?thesis using w k' True e(3) 
      by (auto simp: state_write_def replay_snoc write_event_def item_shows_def split: option.splits)
  next
    case False
    have "tx_key w \<noteq> (org_pk org, s)"
      using w k' False model_sk_inj [of k s k'] model_sk_distinct(3) [OF k'(1)]
      by (auto simp: key state_write_def split: option.splits)
    then have "map_of T' (org_pk org, s) = map_of T (org_pk org, s)"
      using other [of "(org_pk org, s)"] model_sk_distinct [OF k'(1)] by auto
    then show ?thesis using log k' False e(3) by (simp add: log_at_def replay_snoc write_event_def)
  qed
  show ?thesis unfolding log_at_def
    using assms(2,3) e(1) log events_ok counter events no_other items
    by (simp add: gap_free_snoc log_at_def less_Suc_eq_le split: option.split)
qed

lemma keyed_insert:
  "keyed T \<Longrightarrow> map_of it pk = Some (AttrS (fst k)) \<Longrightarrow> map_of it sk = Some (AttrS (snd k)) \<Longrightarrow> keyed (hm_insert k it T)"
  unfolding keyed_def by (auto simp: hm_insert_lookup)

lemma keyed_remove: "keyed T \<Longrightarrow> keyed (hm_remove k T)"
  by (auto simp: keyed_def hm_remove_lookup)

lemma keyed_tx:
  assumes "keyed T" "state_write env org k v w"
  shows "keyed (tx_commit (append_tx env org current e w) T)"
proof -
  let ?c = "hm_insert ''seq'' (AttrN (show_nat (ev_seq e)))
    (case map_of T (org_pk org, SK_SEQ) of Some i \<Rightarrow> i | None \<Rightarrow> put_s sk SK_SEQ (put_s pk (org_pk org) []))"
  have "map_of ?c pk = Some (AttrS (org_pk org)) \<and> map_of ?c sk = Some (AttrS SK_SEQ)"
    using item_keys [OF assms(1), of "(org_pk org, SK_SEQ)"]
    by (auto simp: hm_insert_lookup put_s_def key_defs split: option.splits)
  then have "keyed (hm_insert (org_pk org, SK_SEQ) ?c T)" by (intro keyed_insert assms(1)) simp_all
  then have "keyed (tx_apply (event_put env (org_pk org) e (ce_to_vec env (ev_payload e)))
      (tx_apply (counter_update (org_pk org) current (ev_seq e)) T))"
    using stored_event_key [of env "org_pk org" e "ce_to_vec env (ev_payload e)"]
    by (cases "map_of T (org_pk org, SK_SEQ)") (simp_all add: event_put_def counter_update_def item_keyI keyed_insert)
  moreover have "keyed U \<Longrightarrow> keyed (tx_apply w U)" for U
    using assms(2) by (auto simp: state_write_def item_keyI intro!: keyed_insert keyed_remove split: option.splits)
  ultimately show ?thesis by (simp add: tx_commit_def append_tx_def)
qed

lemma append_commit:
  assumes "table_inv env sd T" "capacity T" "append_ok env sd T org current e w" "tx_enabled (append_tx env org current e w) T"
    and T': "T' = tx_commit (append_tx env org current e w) T"
  shows "table_inv env sd T' \<and> grows T T' \<and>
    (\<exists>es. length es = current \<and> log_at env sd T org es \<and> log_at env sd T' org (es @ [e]) \<and> ev_seq e = Suc current)"
proof -
  obtain k v where kv: "event_write e = Some (k, v)" "state_write env org k v w" and ok: "event_ok env org (org_key sd T org) e"
      "ev_seq e = (current + 1) mod 2 ^ 64"
    using assms(3) by (auto simp: append_ok_def)
  obtain es where es: "log_at env sd T org es" using assms(1) by (auto simp: table_inv_def)
  have len: "length es = current"
    using counter_enabled [OF es, of current "ev_seq e"] assms(4) by (simp add: tx_enabled_def append_tx_def counter_update_def)
  then have bound: "Suc current < 2 ^ 64" using log_length_bound [OF es assms(2)] by simp
  then have seq: "ev_seq e = Suc current" using ok(2) by simp
  have absent: "map_of T (org_pk org, event_sk (Suc current)) = None"
  proof (rule ccontr)
    assume "map_of T (org_pk org, event_sk (Suc current)) \<noteq> None"
    then obtain i where "i < current" "event_sk (Suc current) = event_sk (Suc i)"
      using es len unfolding log_at_def by (metis sort_keys_distinct(1))
    then show False using event_sk_inj [of "Suc current" "Suc i"] bound by simp
  qed
  note log' = append_log [OF es len bound seq ok(1) kv T']
  have other: "log_at env sd T' org' es'" if "org' \<noteq> org" "log_at env sd T org' es'" for org' es'
  proof -
    have "map_of T' (org_pk org', s) = map_of T (org_pk org', s)" for s
      using append_tx_other [OF kv(2) T'] that(1) by (simp add: state_write_key(1) [OF kv(2)])
    then show ?thesis using that(2) log_at_cong by blast
  qed
  have inv: "table_inv env sd T'"
  proof -
    have "keyed T'" using assms(1) keyed_tx [OF _ kv(2)] by (simp add: T' table_inv_def)
    moreover have "\<exists>es. log_at env sd T' org' es" for org'
      using assms(1) log' other unfolding table_inv_def by (cases "org' = org") blast+
    ultimately show ?thesis by (simp add: table_inv_def)
  qed
  have "map_of T' (p, s) = Some it"
    if s: "starts_with s EVT_PREFIX \<or> s = SK_EVENT_SIGNING_KEY" "map_of T (p, s) = Some it" for p s it
  proof -
    have "(p, s) \<noteq> (org_pk org, SK_SEQ)" using s(1) by auto
    moreover have "(p, s) \<noteq> tx_key w"
      using s(1) model_sk_distinct [of k] by (auto simp: state_write_key(1) [OF kv(2)] split: option.splits)
    moreover have "(p, s) \<noteq> (org_pk org, event_sk (ev_seq e))" using s(2) absent seq by auto
    ultimately show ?thesis using append_tx_other [OF kv(2) T'] s(2) by simp
  qed
  then show ?thesis using inv len es log' seq unfolding grows_def by blast
qed

section \<open>Histories\<close>

fun good_history :: "('n, 'sk, 'vk, 'sig) cp_env \<Rightarrow> ('n, 'sk, 'vk) serde_lib \<Rightarrow> history \<Rightarrow> bool" where
  "good_history env sd [] \<longleftrightarrow> False"
| "good_history env sd [T] \<longleftrightarrow> table_inv env sd T"
| "good_history env sd (T # T0 # Ts) \<longleftrightarrow> table_inv env sd T \<and> grows T0 T \<and> good_history env sd (T0 # Ts)"

definition evolves :: "('n, 'sk, 'vk, 'sig) cp_env \<Rightarrow> ('n, 'sk, 'vk) serde_lib \<Rightarrow> history \<Rightarrow> history \<Rightarrow> bool" where
  "evolves env sd H H' \<longleftrightarrow> good_history env sd H \<and> good_history env sd H' \<and> (\<exists>N. H' = N @ H)"

interpretation dyn: interference "evolves env sd" "good_history env sd" for env sd
  by unfold_locales (auto simp: evolves_def)

lemma good_history_step:
  "good_history env sd H \<Longrightarrow> table_inv env sd T \<Longrightarrow> grows (cur H) T \<Longrightarrow> evolves env sd H (T # H)"
  by (cases H) (auto simp: evolves_def cur_def)

lemma good_history_inv: "good_history env sd H \<Longrightarrow> T \<in> set H \<Longrightarrow> table_inv env sd T"
  by (induction env sd H rule: good_history.induct) auto

lemma cur_in_set: "good_history env sd H \<Longrightarrow> cur H \<in> set H"
  by (cases H) (auto simp: cur_def)

lemma good_history_grows: "good_history env sd (N @ H) \<Longrightarrow> H \<noteq> [] \<Longrightarrow> grows (cur H) (cur (N @ H))"
proof (induction N)
  case (Cons T N)
  have "grows (cur (N @ H)) T" "good_history env sd (N @ H)"
    using Cons.prems by (cases "N @ H"; auto simp: cur_def)+
  then show ?case using Cons grows_trans by (fastforce simp: cur_def)
qed simp

lemma evolves_grows: "evolves env sd H H' \<Longrightarrow> grows (cur H) (cur H')"
  using good_history_grows unfolding evolves_def by fastforce

lemma evolves_good: "evolves env sd H H' \<Longrightarrow> good_history env sd H'"
  by (simp add: evolves_def)

lemma evolves_subset: "evolves env sd H H' \<Longrightarrow> set H \<subseteq> set H'"
  by (auto simp: evolves_def)

lemma org_key_stable: "grows T T' \<Longrightarrow> org_key sd T org = Some x \<Longrightarrow> org_key sd T' org = Some x"
  by (auto simp: org_key_def grows_def bind_eq_Some_conv)

section \<open>Programs under interference\<close>

lemma rg_Ask:
  assumes "dynamo_laws db"
    and "\<And>rep H'. documented H r rep H' \<Longrightarrow> capacity (cur H) \<Longrightarrow> R H H'"
    and "\<And>rep H' H''. documented H r rep H' \<Longrightarrow> capacity (cur H) \<Longrightarrow> R H H' \<Longrightarrow> R H' H'' \<Longrightarrow> rg db R Q (k rep) H''"
  shows "rg db R Q (Ask r k) H"
  unfolding rg.simps using assms unfolding dynamo_laws_def by blast

lemma rg_ask_item:
  assumes "dynamo_laws db" "good_history env sd H"
    and "\<And>T H'. T \<in> set H \<Longrightarrow> consistent \<longrightarrow> T = cur H \<Longrightarrow> evolves env sd H H' \<Longrightarrow> Q (Inr (map_of T k)) H'"
    and "\<And>e H'. evolves env sd H H' \<Longrightarrow> Q (Inl (CpStore e)) H'"
  shows "rg db (evolves env sd) Q (ask_item consistent k) H"
  unfolding ask_item_def by (rule rg_Ask [OF assms(1)]) (use assms(3,4) dyn.R_refl [OF assms(2)] in auto)

lemma rg_ask_now:
  assumes "dynamo_laws db" "good_history env sd H" "\<And>t H'. evolves env sd H H' \<Longrightarrow> Q t H'"
  shows "rg db (evolves env sd) Q ask_now H"
  unfolding ask_now_def by (rule rg_Ask [OF assms(1)]) (use assms(3) dyn.R_refl [OF assms(2)] in auto)

lemma rg_ask_ulid:
  assumes "dynamo_laws db" "good_history env sd H" "\<And>u H'. u \<noteq> [] \<Longrightarrow> evolves env sd H H' \<Longrightarrow> Q u H'"
  shows "rg db (evolves env sd) Q ask_ulid H"
  unfolding ask_ulid_def by (rule rg_Ask [OF assms(1)]) (use assms(3) dyn.R_refl [OF assms(2)] in auto)

lemma get_seq_counter: "log_at env sd T org es \<Longrightarrow> map_of T (org_pk org, SK_SEQ) = Some c \<Longrightarrow> get_seq c = Some (length es)"
  using parse_show_nat [of "length es"] by (simp add: log_at_def get_seq_def)

lemma rg_read_counter:
  assumes "dynamo_laws db" "good_history env sd H" "log_at env sd (cur H) org es"
    and "\<And>H'. evolves env sd H H' \<Longrightarrow> Q (Inr (length es)) H'"
    and "\<And>e H'. evolves env sd H H' \<Longrightarrow> Q (Inl (CpStore e)) H'"
  shows "rg db (evolves env sd) Q (read_counter (org_pk org)) H"
proof -
  have r: "(case map_of (cur H) (org_pk org, SK_SEQ) of None \<Rightarrow> Inr 0
      | Some it \<Rightarrow> ok_or (get_seq it) (CpStore m)) = Inr (length es)" for m
    using assms(3) get_seq_counter [OF assms(3)] by (auto simp: log_at_def split: option.splits)
  show ?thesis
    unfolding read_counter_def lift_result_def
    by (rule rg_rbind [OF rg_ask_item [OF assms(1,2)], where Q' = "\<lambda>x H'. evolves env sd H H' \<and>
        (case x of Inl e \<Rightarrow> \<exists>m. e = CpStore m | Inr it \<Rightarrow> it = map_of (cur H) (org_pk org, SK_SEQ))"])
      (use assms(4,5) r in auto)
qed

lemma build_model_event_Some:
  assumes "u \<noteq> []" "revision < 2 ^ 64"
  obtains e where "build_model_event env org kind actor payload key kid at revision u = Some (e, ce_to_vec env payload)"
    "ev_seq e = revision" "ev_kind e = kind" "ev_actor e = actor" "ev_payload e = payload" "ev_key_id e = kid"
    "event_signed env key org e" "sealed e"
  using assms
  by (simp add: build_model_event_def event_id_try_new_def Let_def envelope_from_signed_def event_draft_new_def sealed_def
      event_signed_def canonical_event_bytes_def canonical_envelope_bytes_def fields_of_draft_def fields_of_envelope_def)

text \<open>The event of an append and its state item landed in one version of the table.\<close>

definition landed ::
    "('n, 'sk, 'vk, 'sig) cp_env \<Rightarrow> ('n, 'sk, 'vk) serde_lib \<Rightarrow> history \<Rightarrow> string \<Rightarrow> nat option \<Rightarrow> nat \<Rightarrow> ('n event_envelope \<Rightarrow> bool)
      \<Rightarrow> tx_write \<Rightarrow> bool" where
  "landed env sd H org expected revision P w \<longleftrightarrow>
     (\<exists>T \<in> set H. \<exists>es e. log_at env sd T org (es @ [e]) \<and> revision = Suc (length es) \<and> P e \<and>
        (case expected of Some r \<Rightarrow> length es = r | None \<Rightarrow> True) \<and>
        map_of T (tx_key w) = (case w of TxPut it c \<Rightarrow> Some it | _ \<Rightarrow> None))"

lemma landed_stable: "landed env sd H org x r P w \<Longrightarrow> evolves env sd H H' \<Longrightarrow> landed env sd H' org x r P w"
  using evolves_subset unfolding landed_def by (meson subsetD)

text \<open>One attempt: the transaction of an append keeps the invariant, and a success is the caller's event.\<close>

lemma append_step:
  assumes "documented H (TransactWrite (append_tx env org current e w)) rep H'" "capacity (cur H)" "good_history env sd H"
    and ok: "append_ok env sd (cur H) org current e w"
  shows "evolves env sd H H'"
    and "rep = ROk \<Longrightarrow> P e \<Longrightarrow> (case expected of Some r \<Rightarrow> current = r | None \<Rightarrow> True) \<Longrightarrow>
      landed env sd H' org expected (ev_seq e) P w"
proof -
  let ?tx = "append_tx env org current e w"
  have commit: "evolves env sd H (tx_commit ?tx (cur H) # H) \<and>
      (\<exists>es. length es = current \<and> log_at env sd (tx_commit ?tx (cur H)) org (es @ [e]) \<and> ev_seq e = Suc current)"
    if "tx_enabled ?tx (cur H)"
    using append_commit [OF _ assms(2) ok that refl] good_history_inv [OF assms(3) cur_in_set [OF assms(3)]]
      good_history_step [OF assms(3)] by blast
  then show "evolves env sd H H'" using assms(1) dyn.R_refl [OF assms(3)] by (auto simp: Let_def)
  assume "rep = ROk" "P e" "case expected of Some r \<Rightarrow> current = r | None \<Rightarrow> True"
  moreover from this(1) have H': "tx_enabled ?tx (cur H)" "H' = tx_commit ?tx (cur H) # H" using assms(1) by (auto simp: Let_def)
  moreover obtain es where "length es = current" "log_at env sd (tx_commit ?tx (cur H)) org (es @ [e])" "ev_seq e = Suc current"
    using commit [OF H'(1)] by blast
  moreover have "map_of (tx_commit ?tx (cur H)) (tx_key w) = (case w of TxPut it c \<Rightarrow> Some it | _ \<Rightarrow> None)"
  proof -
    obtain k v where "state_write env org k v w" using ok by (auto simp: append_ok_def)
    from append_tx_lookup [OF this refl, where x = "tx_key w"] show ?thesis by simp
  qed
  ultimately show "landed env sd H' org expected (ev_seq e) P w" unfolding landed_def by (auto intro!: exI [of _ es])
qed

definition writes :: "event_kind \<Rightarrow> 'n json \<Rightarrow> model_key \<Rightarrow> 'n model_value option \<Rightarrow> bool" where
  "writes kind payload k v \<longleftrightarrow> (\<forall>e. ev_kind e = kind \<and> ev_payload e = payload \<longrightarrow> event_write e = Some (k, v))"

definition is_event :: "event_kind \<Rightarrow> actor \<Rightarrow> 'n json \<Rightarrow> 'n event_envelope \<Rightarrow> bool" where
  "is_event kind actor payload e \<longleftrightarrow> ev_kind e = kind \<and> ev_actor e = actor \<and> ev_payload e = payload"

lemma rg_event_builder:
  assumes "dynamo_laws db" "good_history env sd H" "org_key sd (cur H) org = Some (key, kid)" "revision < 2 ^ 64"
    and "writes kind payload k v" "state_write env org k v w" "revision = (current + 1) mod 2 ^ 64"
  shows "rg db (evolves env sd) (\<lambda>x H'. evolves env sd H H' \<and> snd x = ce_to_vec env (ev_payload (fst x)) \<and> ev_seq (fst x) = revision \<and>
      is_event kind actor payload (fst x) \<and> append_ok env sd (cur H') org current (fst x) w)
    (event_builder env org kind actor payload key kid at revision) H"
  unfolding event_builder_def
proof (rule rg_bind [OF rg_ask_ulid [OF assms(1,2)], where Q' = "\<lambda>u H'. u \<noteq> [] \<and> evolves env sd H H'"])
  fix u :: string and H'
  assume u: "u \<noteq> [] \<and> evolves env sd H H'"
  obtain e where e: "build_model_event env org kind actor payload key kid at revision u = Some (e, ce_to_vec env payload)"
    "ev_seq e = revision" "ev_kind e = kind" "ev_actor e = actor" "ev_payload e = payload" "ev_key_id e = kid"
    "event_signed env key org e" "sealed e"
    by (rule build_model_event_Some [OF conjunct1 [OF u] assms(4)])
  have "org_key sd (cur H') org = Some (key, kid)" using org_key_stable [OF evolves_grows assms(3)] u by blast
  moreover have "event_write e = Some (k, v)" using assms(5) e(3,5) by (simp add: writes_def)
  ultimately have "append_ok env sd (cur H') org current e w"
    unfolding append_ok_def event_ok_def using e(2,6-8) assms(6,7) by simp
  then show "rg db (evolves env sd) (\<lambda>x H'. evolves env sd H H' \<and> snd x = ce_to_vec env (ev_payload (fst x)) \<and> ev_seq (fst x) = revision \<and>
      is_event kind actor payload (fst x) \<and> append_ok env sd (cur H') org current (fst x) w)
    (case build_model_event env org kind actor payload key kid at revision u of None \<Rightarrow> Crash | Some x \<Rightarrow> Ret x) H'"
    using u e by (simp add: is_event_def)
qed auto

text \<open>The post-condition of an append: a returned revision is that of the caller's own event.\<close>

definition append_post ::
    "('n, 'sk, 'vk, 'sig) cp_env \<Rightarrow> ('n, 'sk, 'vk) serde_lib \<Rightarrow> string \<Rightarrow> nat option \<Rightarrow> ('n event_envelope \<Rightarrow> bool) \<Rightarrow> tx_write
      \<Rightarrow> (cp_error, nat) result \<Rightarrow> history \<Rightarrow> bool" where
  "append_post env sd org expected P w r H \<longleftrightarrow> good_history env sd H \<and>
     (case r of Inr revision \<Rightarrow> landed env sd H org expected revision P w | Inl _ \<Rightarrow> True)"

lemma rg_append_ask:
  assumes "dynamo_laws db" "good_history env sd H" "append_ok env sd (cur H) org current e w" "P e"
    and "case expected of Some r \<Rightarrow> current = r | None \<Rightarrow> True"
    and ok: "\<And>H'. good_history env sd H' \<Longrightarrow> landed env sd H' org expected (ev_seq e) P w \<Longrightarrow> rg db (evolves env sd) Q (c ROk) H'"
    and cancelled: "\<And>rs m H'. evolves env sd H H' \<Longrightarrow> rg db (evolves env sd) Q (c (RCancelled rs m)) H'"
    and error: "\<And>m H'. good_history env sd H' \<Longrightarrow> rg db (evolves env sd) Q (c (RError m)) H'"
  shows "rg db (evolves env sd) Q (Ask (TransactWrite (append_tx env org current e w)) c) H"
proof (rule rg_Ask [OF assms(1)])
  fix rep H'
  assume "documented H (TransactWrite (append_tx env org current e w)) rep H'" "capacity (cur H)"
  then show "evolves env sd H H'" using append_step(1) assms(2,3) by blast
next
  fix rep H1 H'
  assume doc: "documented H (TransactWrite (append_tx env org current e w)) rep H1" "capacity (cur H)"
    "evolves env sd H H1" "evolves env sd H1 H'"
  have "evolves env sd H H'" using doc(3,4) dyn.R_trans by blast
  moreover have "landed env sd H' org expected (ev_seq e) P w" if "rep = ROk"
    using landed_stable [OF append_step(2) [where P = P, OF doc(1,2) assms(2,3) that assms(4,5)] doc(4)] .
  moreover have "rep = ROk \<or> (\<exists>rs m. rep = RCancelled rs m) \<or> (\<exists>m. rep = RError m)" using doc(1) by (auto simp: Let_def)
  ultimately show "rg db (evolves env sd) Q (c rep) H'" using ok cancelled error evolves_good [OF doc(4)] by blast
qed

text \<open>Both append loops make attempts of this shape; \<open>cont\<close> continues with the reply.\<close>

definition attempt ::
    "('n, 'sk, 'vk, 'sig) cp_env \<Rightarrow> string \<Rightarrow> nat option \<Rightarrow> (nat \<Rightarrow> ('n event_envelope \<times> string) prog) \<Rightarrow> tx_write
      \<Rightarrow> (nat \<Rightarrow> reply \<Rightarrow> (cp_error, 'a) result prog) \<Rightarrow> (cp_error, 'a) result prog" where
  "attempt env opk expected build w cont =
     rbind (read_counter opk) (\<lambda>current.
     rbind (lift_result (check_expected_revision current expected)) (\<lambda>_.
     pbind (build ((current + 1) mod 2 ^ 64)) (\<lambda>(envelope, payload_bytes).
     Ask (TransactWrite [counter_update opk current ((current + 1) mod 2 ^ 64), event_put env opk envelope payload_bytes, w])
       (cont ((current + 1) mod 2 ^ 64)))))"

lemma rg_attempt:
  assumes "dynamo_laws db" "good_history env sd H" "org_key sd (cur H) org = Some (key, kid)"
    and w: "writes kind payload k v" "state_write env org k v w"
    and ok: "\<And>rev H'. good_history env sd H' \<Longrightarrow> landed env sd H' org expected rev (is_event kind actor payload) w \<Longrightarrow>
      rg db (evolves env sd) Q (cont rev ROk) H'"
    and cancelled: "\<And>rev rs m H'. evolves env sd H H' \<Longrightarrow> rg db (evolves env sd) Q (cont rev (RCancelled rs m)) H'"
    and error: "\<And>rev m H'. good_history env sd H' \<Longrightarrow> rg db (evolves env sd) Q (cont rev (RError m)) H'"
    and failed: "\<And>e H'. good_history env sd H' \<Longrightarrow> Q (Inl e) H'"
  shows "rg db (evolves env sd) Q
    (attempt env (org_pk org) expected (event_builder env org kind actor payload key kid at) w cont) H"
proof -
  obtain es where es: "log_at env sd (cur H) org es"
    using good_history_inv [OF assms(2) cur_in_set [OF assms(2)]] by (auto simp: table_inv_def)
  have main: "rg db (evolves env sd) Q (pbind (event_builder env org kind actor payload key kid at ((current + 1) mod 2 ^ 64))
      (\<lambda>(envelope, payload_bytes). Ask (TransactWrite [counter_update (org_pk org) current ((current + 1) mod 2 ^ 64),
         event_put env (org_pk org) envelope payload_bytes, w]) (cont ((current + 1) mod 2 ^ 64)))) H1"
    if H1: "evolves env sd H H1" and x: "case expected of Some r \<Rightarrow> current = r | None \<Rightarrow> True" for current H1
  proof (rule rg_bind [OF rg_event_builder [OF assms(1) evolves_good [OF H1] org_key_stable [OF evolves_grows [OF H1] assms(3)] _ w refl]])
    fix eb H2
    assume "evolves env sd H1 H2 \<and> snd eb = ce_to_vec env (ev_payload (fst eb)) \<and> ev_seq (fst eb) = (current + 1) mod 2 ^ 64 \<and>
      is_event kind actor payload (fst eb) \<and> append_ok env sd (cur H2) org current (fst eb) w"
    then obtain e where e: "eb = (e, ce_to_vec env (ev_payload e))" "evolves env sd H1 H2" "ev_seq e = (current + 1) mod 2 ^ 64"
        "is_event kind actor payload e" "append_ok env sd (cur H2) org current e w"
      by (cases eb) auto
    have "rg db (evolves env sd) Q (Ask (TransactWrite (append_tx env org current e w)) (cont ((current + 1) mod 2 ^ 64))) H2"
    proof (rule rg_append_ask [where P = "is_event kind actor payload", OF assms(1) evolves_good [OF e(2)] e(5,4) x])
      show "rg db (evolves env sd) Q (cont ((current + 1) mod 2 ^ 64) ROk) H'"
        if "good_history env sd H'" "landed env sd H' org expected (ev_seq e) (is_event kind actor payload) w" for H'
        using ok [OF that] unfolding e(3) .
      show "rg db (evolves env sd) Q (cont ((current + 1) mod 2 ^ 64) (RCancelled rs m)) H'" if "evolves env sd H2 H'" for rs m H'
        by (rule cancelled) (use H1 e(2) that dyn.R_trans in blast)
    qed (rule error)
    then show "rg db (evolves env sd) Q (case eb of (envelope, payload_bytes) \<Rightarrow>
        Ask (TransactWrite [counter_update (org_pk org) current ((current + 1) mod 2 ^ 64),
          event_put env (org_pk org) envelope payload_bytes, w]) (cont ((current + 1) mod 2 ^ 64))) H2"
      by (simp add: e(1) append_tx_def e(3))
  qed simp
  show ?thesis unfolding attempt_def
  proof (rule rg_rbind [OF rg_read_counter [OF assms(1,2) es], where Q' = "\<lambda>r H'. evolves env sd H H'"])
    fix current H1
    assume H1: "evolves env sd H H1"
    show "rg db (evolves env sd) Q (rbind (lift_result (check_expected_revision current expected)) (\<lambda>_.
      pbind (event_builder env org kind actor payload key kid at ((current + 1) mod 2 ^ 64))
        (\<lambda>(envelope, payload_bytes). Ask (TransactWrite [counter_update (org_pk org) current ((current + 1) mod 2 ^ 64),
           event_put env (org_pk org) envelope payload_bytes, w]) (cont ((current + 1) mod 2 ^ 64))))) H1"
      using main [OF H1, of current] failed [OF evolves_good [OF H1]]
      by (auto simp: lift_result_def check_expected_revision_def split: option.splits)
  qed (auto intro!: failed dest: evolves_good)
qed

lemma append_loop_attempt:
  "append_loop env opk expected build st (Suc n) =
     attempt env opk expected build (state_put_write st) (\<lambda>rev rep. case rep of
         ROk \<Rightarrow> Ret (Inr rev)
       | RCancelled rs m \<Rightarrow>
           if sp_guard st = MustNotExist \<and> check_failed rs then
             Ret (Inl (CpConflict (''state item already exists for '' @ quoted opk)))
           else if n \<noteq> 0 then append_loop env opk expected build st n
           else Ret (Inl (CpStore m))
       | RError e \<Rightarrow> Ret (Inl (CpStore e))
       | _ \<Rightarrow> Crash)"
  by (simp add: attempt_def Let_def)

lemma append_delete_loop_attempt:
  "append_delete_loop env opk expected build st (Suc n) =
     attempt env opk expected build (state_delete_write st) (\<lambda>rev rep. case rep of
         ROk \<Rightarrow> Ret (Inr (Some rev))
       | RCancelled rs m \<Rightarrow>
           if check_failed rs then Ret (Inr None)
           else if n \<noteq> 0 then append_delete_loop env opk expected build st n
           else Ret (Inl (CpStore m))
       | RError e \<Rightarrow> Ret (Inl (CpStore e))
       | _ \<Rightarrow> Crash)"
  by (simp add: attempt_def Let_def)

lemma rg_append_loop:
  assumes "dynamo_laws db" "writes kind payload k v" "state_write env org k v (state_put_write st)"
  shows "good_history env sd H \<Longrightarrow> org_key sd (cur H) org = Some (key, kid) \<Longrightarrow>
    rg db (evolves env sd) (append_post env sd org expected (is_event kind actor payload) (state_put_write st))
      (append_loop env (org_pk org) expected (event_builder env org kind actor payload key kid at) st n) H"
proof (induction n arbitrary: H)
  case (Suc n)
  show ?case unfolding append_loop_attempt
  proof (rule rg_attempt [OF assms(1) Suc.prems assms(2,3)], goal_cases)
    case (2 rev rs m H')
    then show ?case
      using Suc.IH [OF evolves_good [OF 2] org_key_stable [OF evolves_grows [OF 2] Suc.prems(2)]] evolves_good [OF 2]
      by (simp add: append_post_def)
  qed (auto simp: append_post_def)
qed (simp add: append_post_def)

definition append_delete_post ::
    "('n, 'sk, 'vk, 'sig) cp_env \<Rightarrow> ('n, 'sk, 'vk) serde_lib \<Rightarrow> string \<Rightarrow> nat option \<Rightarrow> ('n event_envelope \<Rightarrow> bool) \<Rightarrow> tx_write
      \<Rightarrow> (cp_error, nat option) result \<Rightarrow> history \<Rightarrow> bool" where
  "append_delete_post env sd org expected P w r H \<longleftrightarrow> good_history env sd H \<and>
     (case r of Inr (Some revision) \<Rightarrow> landed env sd H org expected revision P w | _ \<Rightarrow> True)"

lemma rg_append_delete_loop:
  assumes "dynamo_laws db" "writes kind payload k v" "state_write env org k v (state_delete_write st)"
  shows "good_history env sd H \<Longrightarrow> org_key sd (cur H) org = Some (key, kid) \<Longrightarrow>
    rg db (evolves env sd) (append_delete_post env sd org expected (is_event kind actor payload) (state_delete_write st))
      (append_delete_loop env (org_pk org) expected (event_builder env org kind actor payload key kid at) st n) H"
proof (induction n arbitrary: H)
  case (Suc n)
  show ?case unfolding append_delete_loop_attempt
  proof (rule rg_attempt [OF assms(1) Suc.prems assms(2,3)], goal_cases)
    case (2 rev rs m H')
    then show ?case
      using Suc.IH [OF evolves_good [OF 2] org_key_stable [OF evolves_grows [OF 2] Suc.prems(2)]] evolves_good [OF 2]
      by (simp add: append_delete_post_def)
  qed (auto simp: append_delete_post_def)
qed (simp add: append_delete_post_def)

text \<open>The signing key: minting keeps the invariant, and the key that is returned is the stored one.\<close>

lemma put_key_inv:
  assumes "table_inv env sd T" "map_of T (org_pk org, SK_EVENT_SIGNING_KEY) = None"
    and T': "T' = hm_insert (org_pk org, SK_EVENT_SIGNING_KEY) it T"
    and it: "map_of it pk = Some (AttrS (org_pk org))" "map_of it sk = Some (AttrS SK_EVENT_SIGNING_KEY)"
  shows "table_inv env sd T' \<and> grows T T'"
proof -
  have lookup: "map_of T' x = (if x = (org_pk org, SK_EVENT_SIGNING_KEY) then Some it else map_of T x)" for x
    by (simp add: T' hm_insert_lookup)
  have "log_at env sd T' org' es" if es: "log_at env sd T org' es" for org' es
  proof (cases "org' = org")
    case False
    then have "map_of T' (org_pk org', s) = map_of T (org_pk org', s)" for s by (simp add: lookup)
    then show ?thesis using es log_at_cong by blast
  next
    case True
    have "org_key sd T org = None" using assms(2) by (simp add: org_key_def)
    then have "es = []" using es True by (cases es) (auto simp: log_at_def event_ok_def)
    then show ?thesis using es True lookup model_sk_distinct(4) by (auto simp: log_at_def)
  qed
  moreover have "keyed T'" unfolding T' by (rule keyed_insert) (use assms(1) it in \<open>auto simp: table_inv_def\<close>)
  moreover have "grows T T'" using assms(2) lookup by (auto simp: grows_def)
  ultimately show ?thesis using assms(1) unfolding table_inv_def by blast
qed

definition key_post ::
    "('n, 'sk, 'vk, 'sig) cp_env \<Rightarrow> ('n, 'sk, 'vk) serde_lib \<Rightarrow> string \<Rightarrow> (cp_error, 'sk \<times> string) result \<Rightarrow> history \<Rightarrow> bool" where
  "key_post env sd org r H \<longleftrightarrow> good_history env sd H \<and> (case r of Inr x \<Rightarrow> org_key sd (cur H) org = Some x | Inl _ \<Rightarrow> True)"

lemma stored_signing_key_org_key:
  "map_of T (org_pk org, SK_EVENT_SIGNING_KEY) = Some it \<Longrightarrow> stored_signing_key sd it = Inr x \<Longrightarrow> org_key sd T org = Some x"
  by (auto simp: stored_signing_key_def org_key_def get_s_iff)

lemma signing_key_item_keys:
  "map_of (signing_key_item org g) pk = Some (AttrS (org_pk org))" "map_of (signing_key_item org g) sk = Some (AttrS SK_EVENT_SIGNING_KEY)"
  "get_s_opt (signing_key_item org g) ''private_key_pem'' = Some (gk_private_key_pem g)"
  "get_s_opt (signing_key_item org g) ''key_id'' = Some EVENT_SIGNING_KEY_ID"
  "item_key (signing_key_item org g) = (org_pk org, SK_EVENT_SIGNING_KEY)"
proof -
  show *: "map_of (signing_key_item org g) pk = Some (AttrS (org_pk org))" "map_of (signing_key_item org g) sk = Some (AttrS SK_EVENT_SIGNING_KEY)"
    by (simp_all add: signing_key_item_def put_s_def hm_insert_lookup key_defs)
  show "get_s_opt (signing_key_item org g) ''private_key_pem'' = Some (gk_private_key_pem g)"
    "get_s_opt (signing_key_item org g) ''key_id'' = Some EVENT_SIGNING_KEY_ID"
    by (simp_all add: signing_key_item_def get_s_opt_put)
  show "item_key (signing_key_item org g) = (org_pk org, SK_EVENT_SIGNING_KEY)" by (rule item_keyI [OF *])
qed

lemma put_key_step:
  assumes doc: "documented H (PutItem (signing_key_item org g) (AttrNotExists sk)) rep H'" and "good_history env sd H"
  shows "evolves env sd H H'"
    and "rep = ROk \<Longrightarrow> map_of (cur H') (org_pk org, SK_EVENT_SIGNING_KEY) = Some (signing_key_item org g)"
    and "rep = RConditionFailed \<Longrightarrow> map_of (cur H') (org_pk org, SK_EVENT_SIGNING_KEY) \<noteq> None"
proof -
  let ?k = "(org_pk org, SK_EVENT_SIGNING_KEY)"
  have inv: "table_inv env sd (cur H)" by (rule good_history_inv [OF assms(2) cur_in_set [OF assms(2)]])
  have holds: "cond_holds (AttrNotExists sk) (map_of (cur H) ?k) \<longleftrightarrow> map_of (cur H) ?k = None"
    using inv by (auto simp: table_inv_def keyed_def split: option.splits)
  have "evolves env sd H (hm_insert ?k (signing_key_item org g) (cur H) # H)" if "map_of (cur H) ?k = None"
    using put_key_inv [OF inv that refl signing_key_item_keys(1,2)] good_history_step [OF assms(2)] by blast
  then show "evolves env sd H H'"
    using doc holds dyn.R_refl [OF assms(2)] by (auto simp: Let_def signing_key_item_keys(5))
  show "rep = ROk \<Longrightarrow> map_of (cur H') ?k = Some (signing_key_item org g)"
    using doc by (auto simp: Let_def signing_key_item_keys(5) hm_insert_lookup cur_def)
  show "rep = RConditionFailed \<Longrightarrow> map_of (cur H') ?k \<noteq> None"
    using doc holds by (auto simp: Let_def signing_key_item_keys(5))
qed

lemma grows_item: "grows T T' \<Longrightarrow> map_of T (p, SK_EVENT_SIGNING_KEY) = Some it \<Longrightarrow> map_of T' (p, SK_EVENT_SIGNING_KEY) = Some it"
  by (simp add: grows_def)

lemma rg_ask_key_material:
  assumes "dynamo_laws db" "good_history env sd H" "\<And>r H'. evolves env sd H H' \<Longrightarrow> Q r H'"
  shows "rg db (evolves env sd) Q ask_key_material H"
  unfolding ask_key_material_def
proof (rule rg_Ask [OF assms(1)])
  fix rep H' H''
  assume doc: "documented H NewKeyPair rep H'" "evolves env sd H' H''"
  then obtain a b c where rep: "rep = RKeyPair a b c" "H' = H" by auto
  have "rg db (evolves env sd) Q (pbind ask_now (\<lambda>now. Ret (generate_key_material a b c now))) H''"
    by (rule rg_bind [OF rg_ask_now [OF assms(1) evolves_good [OF doc(2)]], where Q' = "\<lambda>_ H'. evolves env sd H H'"])
      (use assms(3) doc(2) rep(2) dyn.R_trans in auto)
  then show "rg db (evolves env sd) Q (case rep of RKeyPair priv pub bytes \<Rightarrow>
      pbind ask_now (\<lambda>now. Ret (generate_key_material priv pub bytes now)) | _ \<Rightarrow> Crash) H''"
    by (simp add: rep(1))
qed (use dyn.R_refl [OF assms(2)] in auto)

lemma rg_ensure_put:
  assumes laws: "dynamo_laws db" and good: "good_history env sd H"
    and lost: "\<And>H'. evolves env sd H H' \<Longrightarrow> map_of (cur H') (org_pk org, SK_EVENT_SIGNING_KEY) \<noteq> None \<Longrightarrow>
      rg db (evolves env sd) (key_post env sd org) p H'"
  shows "rg db (evolves env sd) (key_post env sd org)
    (mint_signing_key sd org p g) H"
  unfolding mint_signing_key_def
proof (rule rg_Ask [OF laws])
  fix rep H' H''
  assume doc: "documented H (PutItem (signing_key_item org g) (AttrNotExists sk)) rep H'" "evolves env sd H H'" "evolves env sd H' H''"
  note step = put_key_step [OF doc(1) good] and good' = evolves_good [OF doc(3)] and gr = evolves_grows [OF doc(3)]
  have "rep = ROk \<or> rep = RConditionFailed \<or> (\<exists>e. rep = RError e)" using doc(1) by (auto simp: Let_def)
  then consider "rep = ROk" | "rep = RConditionFailed" | e where "rep = RError e" by blast
  then show "rg db (evolves env sd) (key_post env sd org) (case rep of
       ROk \<Rightarrow> lift_result (and_then (map_err (\<lambda>e. CpStore (''generated event signing key invalid: '' @ e))
           (sd_from_pkcs8_pem sd (gk_private_key_pem g))) (\<lambda>k. Inr (k, EVENT_SIGNING_KEY_ID)))
     | RConditionFailed \<Rightarrow> p | RError e \<Rightarrow> Ret (Inl (CpStore e)) | _ \<Rightarrow> Crash) H''"
  proof cases
    case 1
    then show ?thesis using grows_item [OF gr step(2) [OF 1]] good' signing_key_item_keys(3,4) [of org g]
      by (cases "sd_from_pkcs8_pem sd (gk_private_key_pem g)") (simp_all add: lift_result_def key_post_def org_key_def)
  next
    case 2
    have "map_of (cur H'') (org_pk org, SK_EVENT_SIGNING_KEY) \<noteq> None" using step(3) [OF 2] grows_item [OF gr] by auto
    then show ?thesis using lost dyn.R_trans [OF doc(2,3)] 2 by simp
  qed (use good' in \<open>simp add: key_post_def\<close>)
qed (use put_key_step(1) [OF _ good] in blast)

lemma rg_ensure_key_loop:
  assumes laws: "dynamo_laws db" and good: "good_history env sd H"
    and lost: "\<And>H'. map_of (cur H) (org_pk org, SK_EVENT_SIGNING_KEY) = None \<Longrightarrow> evolves env sd H H' \<Longrightarrow>
      map_of (cur H') (org_pk org, SK_EVENT_SIGNING_KEY) \<noteq> None \<Longrightarrow>
      rg db (evolves env sd) (key_post env sd org) (ensure_key_loop sd org n) H'"
  shows "rg db (evolves env sd) (key_post env sd org) (ensure_key_loop sd org (Suc n)) H"
  unfolding ensure_key_loop.simps
proof (rule rg_rbind [OF rg_ask_item [OF laws good], where Q' = "\<lambda>r H'. evolves env sd H H' \<and>
    (case r of Inr it \<Rightarrow> it = map_of (cur H) (org_pk org, SK_EVENT_SIGNING_KEY) | Inl _ \<Rightarrow> True)"])
  fix existing H'
  assume "evolves env sd H H' \<and>
    (case Inr existing of Inr it \<Rightarrow> it = map_of (cur H) (org_pk org, SK_EVENT_SIGNING_KEY) | Inl _ \<Rightarrow> True)"
  then have H': "evolves env sd H H'" "map_of (cur H) (org_pk org, SK_EVENT_SIGNING_KEY) = existing" by simp_all
  show "rg db (evolves env sd) (key_post env sd org) (case existing of Some it \<Rightarrow> lift_result (stored_signing_key sd it)
     | None \<Rightarrow> rbind ask_key_material (mint_signing_key sd org (ensure_key_loop sd org n))) H'"
  proof (cases existing)
    case (Some it)
    then have "map_of (cur H') (org_pk org, SK_EVENT_SIGNING_KEY) = Some it" using grows_item evolves_grows H' by blast
    then have "key_post env sd org (stored_signing_key sd it) H'"
      using stored_signing_key_org_key [of "cur H'" org it sd] evolves_good [OF H'(1)] unfolding key_post_def by (auto split: sum.split)
    then show ?thesis by (simp add: Some lift_result_def)
  next
    case None
    note none = H'(2) [unfolded None]
    have "rg db (evolves env sd) (key_post env sd org) (rbind ask_key_material (mint_signing_key sd org (ensure_key_loop sd org n))) H'"
    proof (rule rg_rbind [OF rg_ask_key_material [OF laws evolves_good [OF H'(1)]], where Q' = "\<lambda>_ H2. evolves env sd H H2"])
      fix g H2
      assume H2: "evolves env sd H H2"
      show "rg db (evolves env sd) (key_post env sd org) (mint_signing_key sd org (ensure_key_loop sd org n) g) H2"
        by (rule rg_ensure_put [OF laws evolves_good [OF H2] lost [OF none dyn.R_trans [OF H2]]])
    qed (use H'(1) dyn.R_trans evolves_good in \<open>auto simp: key_post_def\<close>)
    then show ?thesis unfolding None option.case .
  qed
qed (use evolves_good in \<open>auto simp: key_post_def\<close>)

lemma rg_ensure_signing_key:
  assumes "dynamo_laws db" "good_history env sd H"
  shows "rg db (evolves env sd) (key_post env sd org) (ensure_signing_key sd org) H"
  unfolding ensure_signing_key_def numeral_2_eq_2
  by (rule rg_ensure_key_loop [OF assms], rule rg_ensure_key_loop [OF assms(1) evolves_good]) auto

end
