(* ===== verification/Dynamo_Store.thy ===== *)
theory Dynamo_Store
  imports Dynamo_Log
begin

text \<open>
  The DynamoDB implementation of the event store (\<open>model_event_store/mod.rs\<close>, \<open>model_event_store/groups.rs\<close>) and the
  keyed reads of the organization store (\<open>dynamo_store/mod.rs\<close>), as programs over the table, and what every write
  guarantees under interference: it keeps the invariant of the table, it does not panic, and a revision it
  returns is that of its own event.
\<close>

section \<open>Organizations\<close>

definition now_rfc3339 :: "('n, 'sk, 'vk, 'sig) cp_env \<Rightarrow> string prog" where
  "now_rfc3339 env = pbind ask_now (\<lambda>t. Ret (ch_to_rfc3339 (ce_chrono env) t))"

definition without_keys :: "item \<Rightarrow> item" where
  "without_keys it = hm_remove sk (hm_remove pk it)"

definition get_raw_org_item :: "string \<Rightarrow> (cp_error, item option) result prog" where
  "get_raw_org_item org_id = ask_item True (org_pk org_id, SK_META)"

definition org_state_put ::
    "('n, 'sk, 'vk, 'sig) cp_env \<Rightarrow> string \<Rightarrow> 'n org_record \<Rightarrow> signing_key_entry list \<Rightarrow> state_guard \<Rightarrow> state_put" where
  "org_state_put env org_id record keys guard =
     \<lparr>sp_pk = org_pk org_id, sp_sk = SK_META,
      sp_attributes = without_keys (to_item env (or_org record) (or_configured record) keys), sp_guard = guard\<rparr>"

definition dyn_append_org_state ::
    "('n, 'sk, 'vk, 'sig) cp_env \<Rightarrow> ('n, 'sk, 'vk) serde_lib \<Rightarrow> 'n org_record \<Rightarrow> event_kind \<Rightarrow> actor \<Rightarrow> nat option
      \<Rightarrow> (cp_error, nat) result prog" where
  "dyn_append_org_state env sd record kind actor expected =
     (let org_id = seg_str (o_id (or_org record)) in
      rbind (ensure_signing_key sd org_id) (\<lambda>(signing_key, key_id).
      pbind (now_rfc3339 env) (\<lambda>occurred_at.
      rbind (get_raw_org_item org_id) (\<lambda>item.
      rbind (lift_result (case item of Some it \<Rightarrow> signing_keys_from_item sd it | None \<Rightarrow> Inr [])) (\<lambda>existing_keys.
      append_event env (org_pk org_id) expected
        (event_builder env org_id kind actor (org_payload (ce_chrono env) record) signing_key key_id occurred_at)
        (org_state_put env org_id record existing_keys (if kind = OrgCreated then MustNotExist else GuardNone)))))))"

definition dyn_create_org ::
    "('n, 'sk, 'vk, 'sig) cp_env \<Rightarrow> ('n, 'sk, 'vk) serde_lib \<Rightarrow> 'n org_record \<Rightarrow> actor \<Rightarrow> (cp_error, nat) result prog" where
  "dyn_create_org env sd record actor = dyn_append_org_state env sd record OrgCreated actor None"

definition dyn_update_org ::
    "('n, 'sk, 'vk, 'sig) cp_env \<Rightarrow> ('n, 'sk, 'vk) serde_lib \<Rightarrow> 'n org_record \<Rightarrow> actor \<Rightarrow> nat option \<Rightarrow> (cp_error, nat) result prog" where
  "dyn_update_org env sd record actor expected = dyn_append_org_state env sd record OrgUpdated actor expected"

definition dyn_transition_org ::
    "('n, 'sk, 'vk, 'sig) cp_env \<Rightarrow> ('n, 'sk, 'vk) serde_lib \<Rightarrow> 'n org_record \<Rightarrow> event_kind \<Rightarrow> actor \<Rightarrow> nat \<Rightarrow> (cp_error, nat) result prog" where
  "dyn_transition_org env sd record kind actor expected = dyn_append_org_state env sd record kind actor (Some expected)"

section \<open>Request-signing keys\<close>

definition MAX_KEY_APPEND_ATTEMPTS :: nat where "MAX_KEY_APPEND_ATTEMPTS = 3"

definition dyn_latest_revision :: "('n, 'sk, 'vk) serde_lib \<Rightarrow> string \<Rightarrow> (cp_error, nat) result prog" where
  "dyn_latest_revision sd org_id =
     pbind (log_latest sd (org_pk org_id)) (\<lambda>r. Ret (map_err (\<lambda>e. CpStore (authz_error_display e)) r))"

text \<open>The loop of \<open>append_org_keys\<close>; the last argument counts the attempts that are left.\<close>

fun org_keys_loop ::
    "('n, 'sk, 'vk, 'sig) cp_env \<Rightarrow> ('n, 'sk, 'vk) serde_lib \<Rightarrow> string \<Rightarrow> event_kind \<Rightarrow> actor \<Rightarrow> key_transition \<Rightarrow> nat
      \<Rightarrow> (cp_error, nat option) result prog" where
  "org_keys_loop env sd org_id kind actor transition 0 =
     Ret (Inl (CpStore (''org '' @ quoted org_id @ '' key mutation did not converge after '' @
       show_nat MAX_KEY_APPEND_ATTEMPTS @ '' attempts'')))"
| "org_keys_loop env sd org_id kind actor transition (Suc n) =
     rbind (get_raw_org_item org_id) (\<lambda>found.
     rbind (lift_result (ok_or found (CpNotFound (''organization '' @ quoted org_id @ '' not found'')))) (\<lambda>item.
     rbind (lift_result (from_item (ce_chrono env) sd item)) (\<lambda>record.
     rbind (lift_result (and_then (signing_keys_from_item sd item) transition)) (\<lambda>changed.
     case changed of
       None \<Rightarrow> Ret (Inr None)
     | Some (affected, new_keys) \<Rightarrow>
         rbind (ensure_signing_key sd org_id) (\<lambda>(signing_key, key_id).
         pbind (now_rfc3339 env) (\<lambda>occurred_at.
         rbind (dyn_latest_revision sd org_id) (\<lambda>expected.
         pbind (append_event env (org_pk org_id) (Some expected)
             (event_builder env org_id kind actor (key_event_payload affected (signing_keys_json (ce_chrono env) new_keys))
               signing_key key_id occurred_at)
             (org_state_put env org_id record new_keys GuardNone)) (\<lambda>r.
         case r of
           Inr revision \<Rightarrow> Ret (Inr (Some revision))
         | Inl (CpRevisionMismatch _) \<Rightarrow> org_keys_loop env sd org_id kind actor transition n
         | Inl e \<Rightarrow> Ret (Inl e)))))))))"

definition dyn_append_org_keys ::
    "('n, 'sk, 'vk, 'sig) cp_env \<Rightarrow> ('n, 'sk, 'vk) serde_lib \<Rightarrow> string \<Rightarrow> event_kind \<Rightarrow> actor \<Rightarrow> key_transition
      \<Rightarrow> (cp_error, nat option) result prog" where
  "dyn_append_org_keys env sd org_id kind actor transition =
     org_keys_loop env sd org_id kind actor transition MAX_KEY_APPEND_ATTEMPTS"

definition dyn_generate_org_key ::
    "('n, 'sk, 'vk, 'sig) cp_env \<Rightarrow> ('n, 'sk, 'vk) serde_lib \<Rightarrow> string \<Rightarrow> actor \<Rightarrow> (cp_error, generate_key_result \<times> nat) result prog" where
  "dyn_generate_org_key env sd org_id actor =
     rbind ask_key_material (\<lambda>result.
     rbind (lift_result (to_entry result)) (\<lambda>new_entry.
     rbind (dyn_append_org_keys env sd org_id OrgKeyGenerated actor (generate_key_transition new_entry (gk_key_id result))) (\<lambda>outcome.
     case outcome of Some revision \<Rightarrow> Ret (Inr (result, revision)) | None \<Rightarrow> Crash)))"

definition dyn_revoke_org_key ::
    "('n, 'sk, 'vk, 'sig) cp_env \<Rightarrow> ('n, 'sk, 'vk) serde_lib \<Rightarrow> string \<Rightarrow> string \<Rightarrow> actor \<Rightarrow> (cp_error, nat option) result prog" where
  "dyn_revoke_org_key env sd org_id key_id actor =
     dyn_append_org_keys env sd org_id OrgKeyRevoked actor (revoke_key_transition key_id)"

definition dyn_rotate_org_key ::
    "('n, 'sk, 'vk, 'sig) cp_env \<Rightarrow> ('n, 'sk, 'vk) serde_lib \<Rightarrow> string \<Rightarrow> string \<Rightarrow> actor
      \<Rightarrow> (cp_error, generate_key_result \<times> nat) result prog" where
  "dyn_rotate_org_key env sd org_id key_id actor =
     rbind ask_key_material (\<lambda>result.
     rbind (lift_result (to_entry result)) (\<lambda>new_entry.
     pbind ask_now (\<lambda>now.
     rbind (dyn_append_org_keys env sd org_id OrgKeyRotated actor
         (rotate_key_transition key_id new_entry now (ROTATION_GRACE_HOURS * HOUR))) (\<lambda>outcome.
     case outcome of Some revision \<Rightarrow> Ret (Inr (result, revision)) | None \<Rightarrow> Crash))))"

section \<open>Principals and promotions\<close>

definition dyn_get_principal ::
    "('n, 'sk, 'vk) serde_lib \<Rightarrow> string \<Rightarrow> native_id \<Rightarrow> (cp_error, 'n json option) result prog" where
  "dyn_get_principal sd org_id native_id =
     rbind (ask_item True (org_pk org_id, PRINCIPAL_PREFIX @ nid_str native_id)) (\<lambda>found.
     lift_result (case found of
        None \<Rightarrow> Inr None
      | Some it \<Rightarrow> and_then (get_s it ''payload'') (\<lambda>payload.
          map_err (\<lambda>e. CpStore (''deserialize principal payload: '' @ e)) (and_then (sd_from_str sd payload) (\<lambda>v. Inr (Some v))))))"

definition dyn_upsert_changed ::
    "('n, 'sk, 'vk, 'sig) cp_env \<Rightarrow> ('n, 'sk, 'vk) serde_lib \<Rightarrow> string \<Rightarrow> native_id \<Rightarrow> actor \<Rightarrow> 'n json \<Rightarrow> (cp_error, nat) result prog" where
  "dyn_upsert_changed env sd org_id native_id actor payload =
     rbind (ensure_signing_key sd org_id) (\<lambda>(signing_key, key_id).
     pbind (now_rfc3339 env) (\<lambda>occurred_at.
     pbind (now_rfc3339 env) (\<lambda>updated_at.
     rbind (lift_result (principal_state_put sd org_id native_id (ce_to_vec env payload) updated_at)) (\<lambda>st.
     append_event env (org_pk org_id) None
       (event_builder env org_id PrincipalUpserted actor (principal_event_payload native_id payload) signing_key key_id occurred_at)
       st))))"

definition dyn_get_promotion :: "string \<Rightarrow> segment \<Rightarrow> native_id \<Rightarrow> (cp_error, string option) result prog" where
  "dyn_get_promotion org_id t i =
     rbind (ask_item True (org_pk org_id, promotion_sk t i)) (\<lambda>found.
     lift_result (case found of None \<Rightarrow> Inr None | Some it \<Rightarrow> and_then (get_s it ''fgrn'') (\<lambda>f. Inr (Some f))))"

definition dyn_put_promotion ::
    "('n, 'sk, 'vk, 'sig) cp_env \<Rightarrow> ('n, 'sk, 'vk) serde_lib \<Rightarrow> string \<Rightarrow> segment \<Rightarrow> native_id \<Rightarrow> actor \<Rightarrow> (cp_error, nat) result prog" where
  "dyn_put_promotion env sd org_id t i actor =
     rbind (ensure_signing_key sd org_id) (\<lambda>(signing_key, key_id).
     pbind (now_rfc3339 env) (\<lambda>occurred_at.
     rbind (lift_outcome (promotion_fgrn org_id t i)) (\<lambda>f.
     append_event env (org_pk org_id) None
       (event_builder env org_id ResourcePromoted actor (promotion_event_payload f t i) signing_key key_id occurred_at)
       (promotion_state_put org_id t i f occurred_at))))"

definition dyn_tombstone_promotion ::
    "('n, 'sk, 'vk, 'sig) cp_env \<Rightarrow> ('n, 'sk, 'vk) serde_lib \<Rightarrow> string \<Rightarrow> segment \<Rightarrow> native_id \<Rightarrow> actor \<Rightarrow> (cp_error, nat option) result prog" where
  "dyn_tombstone_promotion env sd org_id t i actor =
     rbind (ensure_signing_key sd org_id) (\<lambda>(signing_key, key_id).
     pbind (now_rfc3339 env) (\<lambda>occurred_at.
     rbind (lift_outcome (promotion_fgrn org_id t i)) (\<lambda>f.
     append_with_delete env (org_pk org_id) None
       (event_builder env org_id ResourceTombstoned actor (promotion_event_payload f t i) signing_key key_id occurred_at)
       \<lparr>sdel_pk = org_pk org_id, sdel_sk = promotion_sk t i\<rparr>)))"

definition dyn_list_promotions ::
    "string \<Rightarrow> segment \<Rightarrow> native_id option \<Rightarrow> nat \<Rightarrow> (cp_error, promotion_entry list) result prog" where
  "dyn_list_promotions org_id t after limit =
     (let type_prefix = PROMO_PREFIX @ seg_str t @ ''#'' in
      Ask (Query (org_pk org_id) (SkBeginsWith type_prefix) (Some (min limit (2 ^ 31 - 1)))
          (map_option (\<lambda>a. (org_pk org_id, type_prefix @ nid_str a)) after)) (\<lambda>rep. case rep of
        RItems its _ \<Rightarrow> Ret (collect_results (map (\<lambda>it.
          and_then (get_s it ''fgrn'') (\<lambda>f. and_then (get_s it ''native_id'') (\<lambda>i. Inr \<lparr>pe_fgrn = f, pe_native_id = i\<rparr>))) its))
      | RError e \<Rightarrow> Ret (Inl (CpStore e))
      | _ \<Rightarrow> Crash))"

section \<open>Published event-signing keys\<close>

record event_signing_key =
  esk_key_id :: string
  esk_public_key_pem :: string

definition public_pem_from_private ::
    "('n, 'sk, 'vk, 'sig) cp_env \<Rightarrow> ('n, 'sk, 'vk) serde_lib \<Rightarrow> string \<Rightarrow> (cp_error, string) result" where
  "public_pem_from_private env sd private_pem =
     and_then (map_err (\<lambda>e. CpStore (''stored event signing key invalid: '' @ e)) (sd_from_pkcs8_pem sd private_pem)) (\<lambda>key.
     map_err (\<lambda>e. CpStore (''failed to encode public key: '' @ e)) (sd_to_public_key_pem sd (ed_public (ce_crypto env) key)))"

definition dyn_list_signing_keys ::
    "('n, 'sk, 'vk, 'sig) cp_env \<Rightarrow> ('n, 'sk, 'vk) serde_lib \<Rightarrow> string \<Rightarrow> (cp_error, event_signing_key list) result prog" where
  "dyn_list_signing_keys env sd org_id =
     rbind (ask_item True (org_pk org_id, SK_EVENT_SIGNING_KEY)) (\<lambda>found.
     lift_result (case found of
        None \<Rightarrow> Inr []
      | Some it \<Rightarrow>
          and_then (get_s it ''private_key_pem'') (\<lambda>private_pem.
          and_then (get_s it ''key_id'') (\<lambda>kid.
          and_then (public_pem_from_private env sd private_pem) (\<lambda>pem.
          Inr [\<lparr>esk_key_id = kid, esk_public_key_pem = pem\<rparr>])))))"

section \<open>Groups\<close>

definition get_group_item :: "segment \<Rightarrow> string \<Rightarrow> (cp_error, item option) result prog" where
  "get_group_item org_id name = ask_item True (org_pk (seg_str org_id), group_sk name)"

definition no_op_at_current :: "('n, 'sk, 'vk) serde_lib \<Rightarrow> string \<Rightarrow> (cp_error, group_write_outcome) result prog" where
  "no_op_at_current sd org_id = rbind (dyn_latest_revision sd org_id) (\<lambda>current. Ret (Inr (GroupNoOp current)))"

definition dyn_put_group ::
    "('n, 'sk, 'vk, 'sig) cp_env \<Rightarrow> ('n, 'sk, 'vk) serde_lib \<Rightarrow> string \<Rightarrow> rbac_entry \<Rightarrow> actor \<Rightarrow> nat option
      \<Rightarrow> (cp_error, group_write_outcome) result prog" where
  "dyn_put_group env sd org_id entry actor expected =
     rbind (lift_result (map_err (\<lambda>e. CpStore (''invalid org_id '' @ quoted org_id @ '': '' @ core_error_display e)) (typed_id_new org_id))) (\<lambda>org.
     rbind (get_group_item org (re_name entry)) (\<lambda>existing_item.
     rbind (lift_result (case existing_item of
         None \<Rightarrow> Inr None
       | Some it \<Rightarrow> and_then (from_group_item sd it) (\<lambda>(existing, _). Inr (Some (rbac_entry_json existing))))) (\<lambda>existing_value.
     case decide_upsert existing_value (rbac_entry_json entry) of
       NoOp \<Rightarrow> no_op_at_current sd org_id
     | Changed payload \<Rightarrow>
         rbind (ensure_signing_key sd org_id) (\<lambda>(signing_key, key_id).
         pbind (now_rfc3339 env) (\<lambda>occurred_at.
         (let etaged = etaged_group_compute (ce_json env) entry in
          rbind (append_event env (org_pk org_id) expected
             (event_builder env org_id GroupPut actor (group_put_payload (re_name entry) payload) signing_key key_id occurred_at)
             \<lparr>sp_pk = org_pk (seg_str org), sp_sk = group_sk (re_name entry),
              sp_attributes = without_keys (to_group_item env org (eg_entry etaged) (etag_str (eg_etag etaged))),
              sp_guard = GuardNone\<rparr>) (\<lambda>revision.
          Ret (Inr (GroupApplied revision)))))))))"

definition dyn_delete_group ::
    "('n, 'sk, 'vk, 'sig) cp_env \<Rightarrow> ('n, 'sk, 'vk) serde_lib \<Rightarrow> string \<Rightarrow> string \<Rightarrow> actor \<Rightarrow> nat option
      \<Rightarrow> (cp_error, group_write_outcome) result prog" where
  "dyn_delete_group env sd org_id name actor expected =
     rbind (lift_result (map_err (\<lambda>e. CpStore (''invalid org_id '' @ quoted org_id @ '': '' @ core_error_display e)) (typed_id_new org_id))) (\<lambda>org.
     rbind (get_group_item org name) (\<lambda>existing_item.
     if existing_item = None then no_op_at_current sd org_id
     else
       rbind (ensure_signing_key sd org_id) (\<lambda>(signing_key, key_id).
       pbind (now_rfc3339 env) (\<lambda>occurred_at.
       rbind (append_with_delete env (org_pk org_id) expected
           (event_builder env org_id GroupDeleted actor (group_deleted_payload name) signing_key key_id occurred_at)
           \<lparr>sdel_pk = org_pk (seg_str org), sdel_sk = group_sk name\<rparr>) (\<lambda>outcome.
       case outcome of
         Some revision \<Rightarrow> Ret (Inr (GroupApplied revision))
       | None \<Rightarrow> no_op_at_current sd org_id)))))"

section \<open>Reading the log\<close>

definition dyn_events_after ::
    "('n, 'sk, 'vk) serde_lib \<Rightarrow> string \<Rightarrow> nat \<Rightarrow> nat \<Rightarrow> (cp_error, 'n event_envelope list) result prog" where
  "dyn_events_after sd org_id after limit =
     pbind (log_events_query sd (org_pk org_id) after limit) (\<lambda>r. Ret (map_err (\<lambda>e. CpStore (authz_error_display e)) r))"

text \<open>
  The paging loop of \<open>fold_at\<close>. Every page that does not end the loop moves the cursor, and the loop ends when
  the cursor is at the target, so the last argument, a bound on the number of pages, is never reached.
\<close>

fun dyn_fold_pages ::
    "('n, 'sk, 'vk) serde_lib \<Rightarrow> string \<Rightarrow> nat \<Rightarrow> nat \<Rightarrow> 'n event_envelope list \<Rightarrow> nat
      \<Rightarrow> (cp_error, 'n event_envelope list) result prog" where
  "dyn_fold_pages sd org_id target after events 0 = Crash"
| "dyn_fold_pages sd org_id target after events (Suc n) =
     rbind (dyn_events_after sd org_id after FOLD_PAGE_SIZE) (\<lambda>page.
     if page = [] then Ret (Inr events)
     else if length page < FOLD_PAGE_SIZE \<or> ev_seq (last page) \<ge> target then Ret (Inr (events @ page))
     else dyn_fold_pages sd org_id target (ev_seq (last page)) (events @ page) n)"

definition dyn_fold_at ::
    "('n, 'sk, 'vk) serde_lib \<Rightarrow> string \<Rightarrow> nat option \<Rightarrow> (cp_error, 'n folded_state) result prog" where
  "dyn_fold_at sd org_id at =
     rbind (dyn_latest_revision sd org_id) (\<lambda>latest.
     if at = None \<and> latest = 0 then Ret (Inr folded_empty)
     else
       (let target = (case at of Some r \<Rightarrow> r | None \<Rightarrow> latest) in
        rbind (dyn_fold_pages sd org_id target 0 [] (Suc target)) (\<lambda>events.
        lift_result (map_err (\<lambda>e. CpStore (authz_error_display e)) (fold_events events target)))))"

section \<open>The organization store\<close>

definition dyn_os_get ::
    "('n, 'sk, 'vk, 'sig) cp_env \<Rightarrow> ('n, 'sk, 'vk) serde_lib \<Rightarrow> segment \<Rightarrow> (cp_error, 'n org_record option) result prog" where
  "dyn_os_get env sd org_id =
     rbind (ask_item False (org_pk (seg_str org_id), SK_META)) (\<lambda>found.
     lift_result (case found of
        Some it \<Rightarrow> and_then (from_item (ce_chrono env) sd it) (\<lambda>r. Inr (Some r)) | None \<Rightarrow> Inr None))"

definition dyn_os_list_keys :: "('n, 'sk, 'vk) serde_lib \<Rightarrow> segment \<Rightarrow> (cp_error, signing_key_entry list) result prog" where
  "dyn_os_list_keys sd org_id =
     rbind (ask_item False (org_pk (seg_str org_id), SK_META)) (\<lambda>found.
     lift_result (case found of Some it \<Rightarrow> signing_keys_from_item sd it | None \<Rightarrow> Inr []))"

definition dyn_os_get_group :: "('n, 'sk, 'vk) serde_lib \<Rightarrow> segment \<Rightarrow> string \<Rightarrow> (cp_error, etaged_group option) result prog" where
  "dyn_os_get_group sd org_id name =
     rbind (ask_item False (org_pk (seg_str org_id), group_sk name)) (\<lambda>found.
     lift_result (case found of
        None \<Rightarrow> Inr None | Some it \<Rightarrow> and_then (etaged_group_from_item sd it) (\<lambda>g. Inr (Some g))))"

section \<open>What the operations write\<close>

lemmas writes_simps = writes_def event_write_def text_field_def payload_defs

lemma writes_principal: "writes PrincipalUpserted (principal_event_payload i p) (MPrincipal (nid_str i)) (Some (Doc p))"
  by (simp add: writes_simps)

lemma writes_promoted:
  "writes ResourcePromoted (promotion_event_payload f t i) (MPromotion (seg_str t) (nid_str i)) (Some (Name (fgrn_display f)))"
  by (simp add: writes_simps)

lemma writes_tombstoned: "writes ResourceTombstoned (promotion_event_payload f t i) (MPromotion (seg_str t) (nid_str i)) None"
  by (simp add: writes_simps)

lemma writes_group_put: "writes GroupPut (group_put_payload n d) (MGroup n) (Some (Doc d))"
  by (simp add: writes_simps)

lemma writes_group_deleted: "writes GroupDeleted (group_deleted_payload n) (MGroup n) None"
  by (simp add: writes_simps)

abbreviation org_kinds :: "event_kind set" where
  "org_kinds \<equiv> {OrgCreated, OrgUpdated, OrgActivated, OrgSuspended, OrgRestored}"

abbreviation key_kinds :: "event_kind set" where
  "key_kinds \<equiv> {OrgKeyGenerated, OrgKeyRevoked, OrgKeyRotated}"

lemma writes_org: "kind \<in> org_kinds \<Longrightarrow> writes kind (org_payload ch r) MOrg (Some (Doc (org_payload ch r)))"
  by (auto simp: writes_simps)

lemma writes_keys: "kind \<in> key_kinds \<Longrightarrow> writes kind (key_event_payload k d) MOrgKeys (Some (Doc d))"
  by (auto simp: writes_simps)

lemma state_put_write_keys:
  assumes "state_put_write st = TxPut it c"
  shows "map_of it pk = Some (AttrS (sp_pk st))" "map_of it sk = Some (AttrS (sp_sk st))"
    "k \<noteq> pk \<Longrightarrow> k \<noteq> sk \<Longrightarrow> get_s_opt it k = get_s_opt (sp_attributes st) k"
  using assms by (auto simp: state_put_write_def put_s_def hm_insert_lookup get_s_opt_other key_defs)

lemma get_s_opt_without_keys: "k \<noteq> pk \<Longrightarrow> k \<noteq> sk \<Longrightarrow> get_s_opt (without_keys it) k = get_s_opt it k"
  by (simp add: without_keys_def get_s_opt_def hm_remove_lookup)

lemma state_write_put:
  assumes "model_sk k = Some (sp_sk st)" "model_key_ok k" "sp_pk st = org_pk org"
    and "\<And>it. (\<And>a. a \<noteq> pk \<Longrightarrow> a \<noteq> sk \<Longrightarrow> get_s_opt it a = get_s_opt (sp_attributes st) a) \<Longrightarrow> stored env k v it"
  shows "state_write env org k (Some v) (state_put_write st)"
proof -
  obtain it c where w: "state_put_write st = TxPut it c" by (simp add: state_put_write_def)
  note keys = state_put_write_keys [OF w]
  have "stored env k v it" by (rule assms(4)) (rule keys(3))
  then show ?thesis using assms(1-3) keys(1,2) w by (simp add: state_write_def)
qed

lemma state_write_meta:
  assumes "model_sk k = None" "sp_pk st = org_pk org" "sp_sk st = SK_META"
  shows "state_write env org k v (state_put_write st)"
proof -
  obtain it c where w: "state_put_write st = TxPut it c" by (simp add: state_put_write_def)
  then show ?thesis using assms state_put_write_keys [OF w] by (simp add: state_write_def)
qed

lemma state_write_principal:
  "principal_state_put sd org i (ce_to_vec env d) at = Inr st \<Longrightarrow>
    state_write env org (MPrincipal (nid_str i)) (Some (Doc d)) (state_put_write st)"
proof (rule state_write_put)
  assume "principal_state_put sd org i (ce_to_vec env d) at = Inr st"
  then have st: "sp_pk st = org_pk org" "sp_sk st = PRINCIPAL_PREFIX @ nid_str i"
      "sp_attributes st = put_s ''updated_at'' at (put_s ''payload'' (ce_to_vec env d) [])"
    by (auto simp: principal_state_put_def)
  then show "model_sk (MPrincipal (nid_str i)) = Some (sp_sk st)" "sp_pk st = org_pk org" by simp_all
  show "stored env (MPrincipal (nid_str i)) (Doc d) it"
    if "\<And>a. a \<noteq> pk \<Longrightarrow> a \<noteq> sk \<Longrightarrow> get_s_opt it a = get_s_opt (sp_attributes st) a" for it
    using that [of "''payload''"] by (simp add: st(3) get_s_opt_put key_defs)
qed (simp add: model_key_ok_def)

lemma segment_no_hash: "segment_wf t \<Longrightarrow> CHR ''#'' \<notin> set (seg_str t)"
  using valid_segment_char [of "seg_str t" "CHR ''#''"] by (auto simp: segment_char_def byte_class_defs)

lemma state_write_promotion:
  "segment_wf t \<Longrightarrow> state_write env org (MPromotion (seg_str t) (nid_str i)) (Some (Name (fgrn_display f)))
    (state_put_write (promotion_state_put org t i f at))"
  by (rule state_write_put)
    (simp_all add: promotion_state_put_def promotion_sk_def model_key_ok_def get_s_opt_put key_defs segment_no_hash)

lemma state_write_group:
  "state_write env (seg_str org) (MGroup (re_name entry)) (Some (Doc (rbac_entry_json entry)))
    (state_put_write \<lparr>sp_pk = org_pk (seg_str org), sp_sk = group_sk (re_name entry),
       sp_attributes = without_keys (to_group_item env org entry t), sp_guard = GuardNone\<rparr>)"
  by (rule state_write_put) (simp_all add: model_key_ok_def get_s_opt_without_keys to_group_item_def get_s_opt_put key_defs)

lemma state_write_org: "model_sk k = None \<Longrightarrow> state_write env org k v (state_put_write (org_state_put env org r ks g))"
  by (rule state_write_meta) (simp_all add: org_state_put_def)

lemma state_write_delete:
  "model_sk k = Some s \<Longrightarrow> model_key_ok k \<Longrightarrow>
    state_write env org k None (state_delete_write \<lparr>sdel_pk = org_pk org, sdel_sk = s\<rparr>)"
  by (simp add: state_write_def state_delete_write_def)

section \<open>The operations under interference\<close>

lemma rg_now:
  assumes "dynamo_laws db" "good_history env sd H" "\<And>t H'. evolves env sd H H' \<Longrightarrow> Q t H'"
  shows "rg db (evolves env sd) Q (now_rfc3339 env) H"
  unfolding now_rfc3339_def
  by (rule rg_bind [OF rg_ask_now [OF assms(1,2)], where Q' = "\<lambda>_ H'. evolves env sd H H'"]) (use assms(3) in auto)

text \<open>Operations begin with the signing key and the clock.\<close>

lemma rg_signed:
  assumes "dynamo_laws db" "good_history env sd H"
    and f: "\<And>key kid at H'. good_history env sd H' \<Longrightarrow> org_key sd (cur H') org = Some (key, kid) \<Longrightarrow>
      rg db (evolves env sd) Q (f key kid at) H'"
    and failed: "\<And>e H'. good_history env sd H' \<Longrightarrow> Q (Inl e) H'"
  shows "rg db (evolves env sd) Q
    (rbind (ensure_signing_key sd org) (\<lambda>(key, kid). pbind (now_rfc3339 env) (\<lambda>at. f key kid at))) H"
proof (rule rg_rbind [OF rg_ensure_signing_key [OF assms(1,2)]])
  fix x H1
  assume "key_post env sd org (Inr x) H1"
  then obtain key kid where x: "x = (key, kid)" "good_history env sd H1" "org_key sd (cur H1) org = Some (key, kid)"
    by (cases x) (auto simp: key_post_def)
  show "rg db (evolves env sd) Q (case x of (key, kid) \<Rightarrow> pbind (now_rfc3339 env) (\<lambda>at. f key kid at)) H1"
    unfolding x(1) prod.case
  proof (rule rg_bind [OF rg_now [OF assms(1) x(2)], where Q' = "\<lambda>_ H2. evolves env sd H1 H2"])
    fix at H2
    assume "evolves env sd H1 H2"
    then show "rg db (evolves env sd) Q (f key kid at) H2"
      using f evolves_good evolves_grows org_key_stable x(3) by blast
  qed
qed (use failed in \<open>simp add: key_post_def\<close>)

lemma rg_read:
  assumes "dynamo_laws db" "good_history env sd H"
    and "\<And>x H'. evolves env sd H H' \<Longrightarrow> rg db (evolves env sd) Q (f x) H'"
    and "\<And>e H'. good_history env sd H' \<Longrightarrow> Q (Inl e) H'"
  shows "rg db (evolves env sd) Q (rbind (ask_item c k) f) H"
  by (rule rg_rbind [OF rg_ask_item [OF assms(1,2)], where Q' = "\<lambda>_ H'. evolves env sd H H'"])
    (use assms(3,4) evolves_good in blast)+

lemma rg_lift:
  assumes "\<And>x. r = Inr x \<Longrightarrow> rg db R Q (f x) H" "\<And>e. r = Inl e \<Longrightarrow> Q (Inl e) H"
  shows "rg db R Q (rbind (lift_result r) f) H"
  using assms by (cases r) (simp_all add: lift_result_def)

lemma rg_append_event:
  assumes "dynamo_laws db" "writes kind payload k v" "state_write env org k v (state_put_write st)"
    and "good_history env sd H" "org_key sd (cur H) org = Some (key, kid)"
  shows "rg db (evolves env sd) (append_post env sd org expected (is_event kind actor payload) (state_put_write st))
    (append_event env (org_pk org) expected (event_builder env org kind actor payload key kid at) st) H"
  unfolding append_event_def by (rule rg_append_loop [OF assms])

lemma rg_append_with_delete:
  assumes "dynamo_laws db" "writes kind payload k v" "state_write env org k v (state_delete_write st)"
    and "good_history env sd H" "org_key sd (cur H) org = Some (key, kid)"
  shows "rg db (evolves env sd) (append_delete_post env sd org expected (is_event kind actor payload) (state_delete_write st))
    (append_with_delete env (org_pk org) expected (event_builder env org kind actor payload key kid at) st) H"
  unfolding append_with_delete_def by (rule rg_append_delete_loop [OF assms])

lemma append_post_good: "append_post env sd org x P w r H \<Longrightarrow> good_history env sd H"
  by (simp add: append_post_def)

lemma append_delete_post_good: "append_delete_post env sd org x P w r H \<Longrightarrow> good_history env sd H"
  by (simp add: append_delete_post_def)

lemma rg_latest:
  assumes "dynamo_laws db" "good_history env sd H"
  shows "rg db (evolves env sd) (\<lambda>_. evolves env sd H) (dyn_latest_revision sd org) H"
proof -
  obtain es where es: "log_at env sd (cur H) org es"
    using good_history_inv [OF assms(2) cur_in_set [OF assms(2)]] by (auto simp: table_inv_def)
  have "rg db (evolves env sd) (\<lambda>_. evolves env sd H) (read_counter (org_pk org)) H"
    by (rule rg_read_counter [OF assms es]) simp_all
  then have "rg db (evolves env sd) (\<lambda>_. evolves env sd H) (log_latest sd (org_pk org)) H"
    unfolding log_latest_def by (rule rg_bind) simp
  then show ?thesis unfolding dyn_latest_revision_def by (rule rg_bind) simp
qed

text \<open>
  What a write promises: a returned revision \<open>n\<close> is the position of an event of the caller in the log, and the
  next one after the expected revision, when there is one.
\<close>

definition recorded ::
    "('n, 'sk, 'vk, 'sig) cp_env \<Rightarrow> ('n, 'sk, 'vk) serde_lib \<Rightarrow> history \<Rightarrow> string \<Rightarrow> nat option \<Rightarrow> nat \<Rightarrow> ('n event_envelope \<Rightarrow> bool) \<Rightarrow> bool" where
  "recorded env sd H org expected n P \<longleftrightarrow>
     (\<exists>T \<in> set H. \<exists>es e. log_at env sd T org (es @ [e]) \<and> n = Suc (length es) \<and> P e \<and> (\<forall>x. expected = Some x \<longrightarrow> n = Suc x))"

definition wrote_post ::
    "('n, 'sk, 'vk, 'sig) cp_env \<Rightarrow> ('n, 'sk, 'vk) serde_lib \<Rightarrow> string \<Rightarrow> nat option \<Rightarrow> ('n event_envelope \<Rightarrow> bool)
      \<Rightarrow> (cp_error, nat option) result \<Rightarrow> history \<Rightarrow> bool" where
  "wrote_post env sd org expected P r H \<longleftrightarrow>
     good_history env sd H \<and> (\<forall>n. r = Inr (Some n) \<longrightarrow> recorded env sd H org expected n P)"

definition applied :: "(cp_error, nat) result \<Rightarrow> (cp_error, nat option) result" where
  "applied r = and_then r (\<lambda>n. Inr (Some n))"

definition key_applied :: "(cp_error, generate_key_result \<times> nat) result \<Rightarrow> (cp_error, nat option) result" where
  "key_applied r = and_then r (\<lambda>(_, n). Inr (Some n))"

definition group_applied :: "(cp_error, group_write_outcome) result \<Rightarrow> (cp_error, nat option) result" where
  "group_applied r = and_then r (\<lambda>w. Inr (case w of GroupApplied n \<Rightarrow> Some n | GroupNoOp _ \<Rightarrow> None))"

lemma landed_recorded: "landed env sd H org expected n P w \<Longrightarrow> recorded env sd H org expected n P"
  unfolding landed_def recorded_def by (fastforce split: option.splits)

lemma wrote_post_error [simp]:
  "wrote_post env sd org expected P (Inl e) H \<longleftrightarrow> good_history env sd H"
  "wrote_post env sd org expected P (Inr None) H \<longleftrightarrow> good_history env sd H"
  "wrote_post env sd org expected P (Inr (Some n)) H \<longleftrightarrow> good_history env sd H \<and> recorded env sd H org expected n P"
  by (auto simp: wrote_post_def)

lemma applied_simps [simp]:
  "applied (Inl e) = Inl e" "applied (Inr n) = Inr (Some n)"
  "key_applied (Inl e) = Inl e" "key_applied (Inr (g, n)) = Inr (Some n)"
  "group_applied (Inl e) = Inl e" "group_applied (Inr (GroupApplied n)) = Inr (Some n)" "group_applied (Inr (GroupNoOp m)) = Inr None"
  by (simp_all add: applied_def key_applied_def group_applied_def)

lemma append_post_wrote: "append_post env sd org x P w r H \<Longrightarrow> wrote_post env sd org x P (applied r) H"
  using landed_recorded by (cases r) (fastforce simp: append_post_def)+

lemma append_delete_post_wrote: "append_delete_post env sd org x P w r H \<Longrightarrow> wrote_post env sd org x P r H"
  using landed_recorded by (cases r) (fastforce simp: append_delete_post_def wrote_post_def split: option.splits)+

lemma rg_append_wrote:
  assumes "dynamo_laws db" "writes kind payload k v" "state_write env org k v (state_put_write st)"
    and "good_history env sd H" "org_key sd (cur H) org = Some (key, kid)"
  shows "rg db (evolves env sd) (\<lambda>r. wrote_post env sd org expected (is_event kind actor payload) (applied r))
    (append_event env (org_pk org) expected (event_builder env org kind actor payload key kid at) st) H"
  by (rule rg_mono [OF rg_append_event [OF assms]]) (rule append_post_wrote)

lemma rg_delete_wrote:
  assumes "dynamo_laws db" "writes kind payload k v" "state_write env org k v (state_delete_write st)"
    and "good_history env sd H" "org_key sd (cur H) org = Some (key, kid)"
  shows "rg db (evolves env sd) (wrote_post env sd org expected (is_event kind actor payload))
    (append_with_delete env (org_pk org) expected (event_builder env org kind actor payload key kid at) st) H"
  by (rule rg_mono [OF rg_append_with_delete [OF assms]]) (rule append_delete_post_wrote)

lemma rg_append_org_state:
  assumes "dynamo_laws db" "good_history env sd H" "kind \<in> org_kinds"
  shows "rg db (evolves env sd) (\<lambda>r. wrote_post env sd (seg_str (o_id (or_org rd))) expected
      (is_event kind actor (org_payload (ce_chrono env) rd)) (applied r))
    (dyn_append_org_state env sd rd kind actor expected) H"
  unfolding dyn_append_org_state_def Let_def get_raw_org_item_def
proof (rule rg_signed [OF assms(1,2)], goal_cases)
  case (1 key kid at H1)
  show ?case
  proof (intro rg_read [OF assms(1) 1(1)] rg_lift, goal_cases)
    case (1 item H2 ks)
    show ?case
      by (rule rg_append_wrote [OF assms(1) writes_org [OF assms(3)] state_write_org evolves_good [OF 1(1)]
          org_key_stable [OF evolves_grows [OF 1(1)] \<open>org_key sd (cur H1) (seg_str (o_id (or_org rd))) = Some (key, kid)\<close>]])
        (use assms(3) in auto)
  qed (auto dest: evolves_good)
qed simp

text \<open>A key mutation appends an event of its kind and actor; it is a no-op only when its transition is.\<close>

definition by_actor :: "event_kind \<Rightarrow> actor \<Rightarrow> 'n event_envelope \<Rightarrow> bool" where
  "by_actor kind actor e \<longleftrightarrow> ev_kind e = kind \<and> ev_actor e = actor"

definition keys_post ::
    "('n, 'sk, 'vk, 'sig) cp_env \<Rightarrow> ('n, 'sk, 'vk) serde_lib \<Rightarrow> string \<Rightarrow> event_kind \<Rightarrow> actor \<Rightarrow> key_transition
      \<Rightarrow> (cp_error, nat option) result \<Rightarrow> history \<Rightarrow> bool" where
  "keys_post env sd org kind actor transition r H \<longleftrightarrow>
     wrote_post env sd org None (by_actor kind actor) r H \<and> ((\<forall>ks. transition ks \<noteq> Inr None) \<longrightarrow> r \<noteq> Inr None)"

lemma landed_by_actor:
  "landed env sd H org expected n (is_event kind actor p) w \<Longrightarrow> recorded env sd H org None n (by_actor kind actor)"
  unfolding landed_def recorded_def is_event_def by_actor_def by blast

lemma rg_org_keys_loop:
  assumes "dynamo_laws db" "kind \<in> key_kinds"
  shows "good_history env sd H \<Longrightarrow>
    rg db (evolves env sd) (keys_post env sd org kind actor transition) (org_keys_loop env sd org kind actor transition n) H"
proof (induction n arbitrary: H)
  case (Suc n)
  show ?case unfolding org_keys_loop.simps get_raw_org_item_def
  proof (intro rg_read [OF assms(1) Suc.prems] rg_lift, goal_cases)
    case (1 found H1 it rd changed)
    note good = evolves_good [OF 1(1)]
    show ?case
    proof (cases changed)
      case None
      then show ?thesis using 1(4) good by (auto simp: keys_post_def and_then_def split: sum.splits)
    next
      case (Some x)
      obtain affected ks where x: "x = (affected, ks)" by (cases x)
      show ?thesis unfolding Some x option.case prod.case
      proof (rule rg_signed [OF assms(1) good], goal_cases)
        case (1 key kid at H2)
        show ?case
        proof (rule rg_rbind [OF rg_latest [OF assms(1) 1(1)]])
          fix expected H3
          assume H3: "evolves env sd H2 H3"
          note append = rg_append_event [OF assms(1) writes_keys [OF assms(2)] state_write_org evolves_good [OF H3]
              org_key_stable [OF evolves_grows [OF H3] 1(2)]]
          show "rg db (evolves env sd) (keys_post env sd org kind actor transition)
            (pbind (append_event env (org_pk org) (Some expected) (event_builder env org kind actor
                (key_event_payload affected (signing_keys_json (ce_chrono env) ks)) key kid at) (org_state_put env org rd ks GuardNone))
              (\<lambda>r. case r of Inr revision \<Rightarrow> Ret (Inr (Some revision))
                 | Inl (CpRevisionMismatch _) \<Rightarrow> org_keys_loop env sd org kind actor transition n | Inl e \<Rightarrow> Ret (Inl e))) H3"
            by (rule rg_bind [OF append])
              (auto simp: keys_post_def append_post_def intro: Suc.IH landed_by_actor split: sum.splits cp_error.splits)
        qed (auto simp: keys_post_def dest: evolves_good)
      qed (simp add: keys_post_def)
    qed
  qed (auto simp: keys_post_def dest: evolves_good)
qed (simp add: keys_post_def)

lemma rg_upsert_changed:
  assumes "dynamo_laws db" "good_history env sd H"
  shows "rg db (evolves env sd) (\<lambda>r. wrote_post env sd org None (is_event PrincipalUpserted actor (principal_event_payload i payload)) (applied r))
    (dyn_upsert_changed env sd org i actor payload) H"
  unfolding dyn_upsert_changed_def
proof (rule rg_signed [OF assms], goal_cases)
  case (1 key kid at H1)
  show ?case
  proof (rule rg_bind [OF rg_now [OF assms(1) 1(1)], where Q' = "\<lambda>_. evolves env sd H1"], simp, rule rg_lift, goal_cases)
    case (1 at' H2 st)
    show ?case
      by (rule rg_append_wrote [OF assms(1) writes_principal state_write_principal [OF 1(2)] evolves_good [OF 1(1)]
          org_key_stable [OF evolves_grows [OF 1(1)] \<open>org_key sd (cur H1) org = Some (key, kid)\<close>]])
  qed (simp add: evolves_good)
qed simp

text \<open>An FGRN of a resource with a valid type and id is always built.\<close>

lemma promotion_fgrn_total:
  assumes "segment_wf t" "native_id_wf i"
  shows "promotion_fgrn org t i \<noteq> None"
proof (cases "segment_try_new org")
  case (Inr x)
  then show ?thesis using fgrn_resource_Some [OF assms] by (simp add: promotion_fgrn_def)
qed (simp add: promotion_fgrn_def)

lemma rg_lift_outcome:
  assumes "r \<noteq> None" "\<And>x. r = Some (Inr x) \<Longrightarrow> rg db R Q (f x) H" "\<And>e. Q (Inl e) H"
  shows "rg db R Q (rbind (lift_outcome r) f) H"
  using assms by (cases r; cases "the r") (simp_all add: lift_outcome_def)

definition promotion_event :: "event_kind \<Rightarrow> string \<Rightarrow> segment \<Rightarrow> native_id \<Rightarrow> actor \<Rightarrow> 'n event_envelope \<Rightarrow> bool" where
  "promotion_event kind org t i actor e \<longleftrightarrow>
     (\<exists>f. promotion_fgrn org t i = Some (Inr f) \<and> is_event kind actor (promotion_event_payload f t i) e)"

lemma wrote_post_promotion:
  "promotion_fgrn org t i = Some (Inr f) \<Longrightarrow> wrote_post env sd org x (is_event kind actor (promotion_event_payload f t i)) r H \<Longrightarrow>
    wrote_post env sd org x (promotion_event kind org t i actor) r H"
  unfolding wrote_post_def recorded_def promotion_event_def by blast

lemma rg_put_promotion:
  assumes "dynamo_laws db" "good_history env sd H" "segment_wf t" "native_id_wf i"
  shows "rg db (evolves env sd) (\<lambda>r. wrote_post env sd org None (promotion_event ResourcePromoted org t i actor) (applied r))
    (dyn_put_promotion env sd org t i actor) H"
  unfolding dyn_put_promotion_def
proof (intro rg_signed [OF assms(1,2)] rg_lift_outcome promotion_fgrn_total assms(3,4), goal_cases)
  case (1 key kid at H1 f)
  show ?case
    by (rule rg_mono [OF rg_append_wrote [OF assms(1) writes_promoted state_write_promotion [OF assms(3)] 1(1,2)]])
      (rule wrote_post_promotion [OF 1(3)])
qed simp_all

lemma rg_tombstone_promotion:
  assumes "dynamo_laws db" "good_history env sd H" "segment_wf t" "native_id_wf i"
  shows "rg db (evolves env sd) (wrote_post env sd org None (promotion_event ResourceTombstoned org t i actor))
    (dyn_tombstone_promotion env sd org t i actor) H"
  unfolding dyn_tombstone_promotion_def
proof (intro rg_signed [OF assms(1,2)] rg_lift_outcome promotion_fgrn_total assms(3,4), goal_cases)
  case (1 key kid at H1 f)
  have w: "state_write env org (MPromotion (seg_str t) (nid_str i)) None
      (state_delete_write \<lparr>sdel_pk = org_pk org, sdel_sk = promotion_sk t i\<rparr>)"
    by (rule state_write_delete) (simp_all add: promotion_sk_def model_key_ok_def segment_no_hash [OF assms(3)])
  show ?case
    by (rule rg_mono [OF rg_delete_wrote [OF assms(1) writes_tombstoned w 1(1,2)]]) (rule wrote_post_promotion [OF 1(3)])
qed simp_all

lemma rg_append_org_keys:
  assumes "dynamo_laws db" "good_history env sd H" "kind \<in> key_kinds"
  shows "rg db (evolves env sd) (keys_post env sd org kind actor transition) (dyn_append_org_keys env sd org kind actor transition) H"
  unfolding dyn_append_org_keys_def by (rule rg_org_keys_loop [OF assms(1,3,2)])

lemma rg_generate_org_key:
  assumes "dynamo_laws db" "good_history env sd H"
  shows "rg db (evolves env sd) (\<lambda>r. wrote_post env sd org None (by_actor OrgKeyGenerated actor) (key_applied r)) (dyn_generate_org_key env sd org actor) H"
  unfolding dyn_generate_org_key_def
proof (rule rg_rbind [OF rg_ask_key_material [OF assms], where Q' = "\<lambda>_. evolves env sd H"], simp, rule rg_lift, goal_cases)
  case (1 g H1 e)
  show ?case
    by (rule rg_rbind [OF rg_append_org_keys [OF assms(1) evolves_good [OF 1(1)]]])
      (auto simp: keys_post_def generate_key_transition_def split: option.splits)
qed (auto dest: evolves_good)

lemma rg_revoke_org_key:
  assumes "dynamo_laws db" "good_history env sd H"
  shows "rg db (evolves env sd) (wrote_post env sd org None (by_actor OrgKeyRevoked actor)) (dyn_revoke_org_key env sd org key_id actor) H"
  unfolding dyn_revoke_org_key_def by (rule rg_mono [OF rg_append_org_keys [OF assms]]) (auto simp: keys_post_def)

lemma rg_rotate_org_key:
  assumes "dynamo_laws db" "good_history env sd H"
  shows "rg db (evolves env sd) (\<lambda>r. wrote_post env sd org None (by_actor OrgKeyRotated actor) (key_applied r)) (dyn_rotate_org_key env sd org key_id actor) H"
  unfolding dyn_rotate_org_key_def
proof (rule rg_rbind [OF rg_ask_key_material [OF assms], where Q' = "\<lambda>_. evolves env sd H"], simp, rule rg_lift, goal_cases)
  case (1 g H1 e)
  show ?case
  proof (rule rg_bind [OF rg_ask_now [OF assms(1) evolves_good [OF 1(1)]], where Q' = "\<lambda>_. evolves env sd H1"], simp, goal_cases)
    case (1 now H2)
    show ?case
      by (rule rg_rbind [OF rg_append_org_keys [OF assms(1) evolves_good [OF 1]]])
        (auto simp: keys_post_def rotate_key_transition_def and_then_def split: option.splits sum.splits)
  qed
qed (auto dest: evolves_good)

section \<open>Group writes under interference\<close>

lemma rg_no_op:
  assumes "dynamo_laws db" "good_history env sd H"
  shows "rg db (evolves env sd) (\<lambda>r. wrote_post env sd org' expected P (group_applied r)) (no_op_at_current sd org) H"
  unfolding no_op_at_current_def by (rule rg_rbind [OF rg_latest [OF assms]]) (auto dest: evolves_good)

lemma decide_upsert_Changed: "decide_upsert x v = Changed p \<Longrightarrow> p = v"
  by (auto simp: decide_upsert_def split: option.splits if_splits)

lemma etaged_group_compute_entry: "eg_entry (etaged_group_compute jl entry) = entry"
  by (simp add: etaged_group_compute_def)

lemma typed_id_new_org: "map_err g (typed_id_new org) = Inr oid \<Longrightarrow> seg_str oid = org"
  by (cases "typed_id_new org") (auto simp: typed_id_new_def segment_try_new_Inr_iff)

lemma rg_put_group:
  assumes "dynamo_laws db" "good_history env sd H"
  shows "rg db (evolves env sd) (\<lambda>r. wrote_post env sd org expected
      (is_event GroupPut actor (group_put_payload (re_name entry) (rbac_entry_json entry))) (group_applied r))
    (dyn_put_group env sd org entry actor expected) H"
  unfolding dyn_put_group_def get_group_item_def
proof (rule rg_lift, intro rg_read [OF assms] rg_lift, goal_cases)
  case (1 oid it H1 existing)
  note oid = typed_id_new_org [OF 1(1)] and good = evolves_good [OF 1(2)]
  show ?case
  proof (cases "decide_upsert existing (rbac_entry_json entry)")
    case NoOp
    show ?thesis unfolding NoOp upsert_decision.case by (rule rg_no_op [OF assms(1) good])
  next
    case (Changed p)
    show ?thesis unfolding Changed upsert_decision.case Let_def etaged_group_compute_entry oid decide_upsert_Changed [OF Changed]
    proof (rule rg_signed [OF assms(1) good], goal_cases)
      case (1 key kid at H2)
      show ?case
        by (rule rg_rbind [OF rg_append_wrote [OF assms(1) writes_group_put state_write_group [of env oid, unfolded oid] 1]]) simp_all
    qed simp
  qed
qed (auto simp: assms(2) dest: evolves_good)

lemma rg_delete_group:
  assumes "dynamo_laws db" "good_history env sd H"
  shows "rg db (evolves env sd) (\<lambda>r. wrote_post env sd org expected (is_event GroupDeleted actor (group_deleted_payload n)) (group_applied r))
    (dyn_delete_group env sd org n actor expected) H"
  unfolding dyn_delete_group_def get_group_item_def
proof (rule rg_lift, intro rg_read [OF assms], goal_cases)
  case (1 oid it H1)
  note oid = typed_id_new_org [OF 1(1)] and good = evolves_good [OF 1(2)]
  show ?case
  proof (cases "it = None")
    case True
    show ?thesis unfolding True by (simp add: rg_no_op [OF assms(1) good])
  next
    case False
    have w: "state_write env org (MGroup n) None (state_delete_write \<lparr>sdel_pk = org_pk org, sdel_sk = group_sk n\<rparr>)"
      by (rule state_write_delete) (simp_all add: model_key_ok_def)
    show ?thesis unfolding if_not_P [OF False] oid
    proof (rule rg_signed [OF assms(1) good], goal_cases)
      case (1 key kid at H2)
      show ?case
        by (rule rg_rbind [OF rg_delete_wrote [OF assms(1) writes_group_deleted w 1]])
          (auto intro: rg_no_op [OF assms(1)] split: option.split)
    qed simp
  qed
qed (auto simp: assms(2) dest: evolves_good)

end
