(* ===== verification/Dynamo_Fold.thy ===== *)
theory Dynamo_Fold
  imports Dynamo_Store
begin

text \<open>
  Reading the log back: what \<open>events_after\<close> queries, and \<open>fold_at\<close> under interference. A query may answer from an
  old version of the table and its page may end early; a fold that returns is still the state of a prefix of
  the log, because events are never changed.
\<close>

section \<open>Events and their items\<close>

text \<open>What the fold reads of an event.\<close>

definition same_event :: "'n event_envelope \<Rightarrow> 'n event_envelope \<Rightarrow> bool" where
  "same_event e e' \<longleftrightarrow> ev_seq e = ev_seq e' \<and> ev_kind e = ev_kind e' \<and> ev_payload e = ev_payload e'"

definition serde_laws :: "('n, 'sk, 'vk, 'sig) cp_env \<Rightarrow> ('n, 'sk, 'vk) serde_lib \<Rightarrow> bool" where
  "serde_laws env sd \<longleftrightarrow> (\<forall>v. reads_value env sd v)"

lemma same_event_refl [simp]: "same_event e e"
  by (simp add: same_event_def)

lemma same_event_trans: "same_event a b \<Longrightarrow> same_event b c \<Longrightarrow> same_event a c"
  by (simp add: same_event_def)

lemma same_events_trans: "list_all2 same_event xs ys \<Longrightarrow> list_all2 same_event ys zs \<Longrightarrow> list_all2 same_event xs zs"
  by (rule list_all2_trans [OF same_event_trans])

lemma same_events_sym: "list_all2 same_event xs ys \<Longrightarrow> list_all2 same_event ys xs"
  by (induction rule: list_all2_induct) (simp_all add: same_event_def)

lemma stored_event_attrs:
  "get_s_opt (stored_event env org e) ''payload'' = Some (ce_to_vec env (ev_payload e))"
  "get_s_opt (stored_event env org e) ''actor'' = Some (ce_to_vec env (actor_json (ev_actor e)))"
  "get_s_opt (stored_event env org e) ''kind'' = Some (event_kind_str (ev_kind e))"
  "sealed e \<Longrightarrow> get_seq (stored_event env org e) = Some (ev_seq e)"
proof -
  show "get_s_opt (stored_event env org e) ''payload'' = Some (ce_to_vec env (ev_payload e))"
    "get_s_opt (stored_event env org e) ''actor'' = Some (ce_to_vec env (actor_json (ev_actor e)))"
    "get_s_opt (stored_event env org e) ''kind'' = Some (event_kind_str (ev_kind e))"
    by (simp_all add: stored_event_def event_item_def get_s_opt_put get_s_opt_other key_defs)
  have "map_of (stored_event env org e) ''seq'' = Some (AttrN (show_nat (ev_seq e)))"
    by (simp add: stored_event_def event_item_def put_s_def hm_insert_lookup key_defs)
  then show "sealed e \<Longrightarrow> get_seq (stored_event env org e) = Some (ev_seq e)"
    using parse_show_nat [of "ev_seq e"] by (simp add: get_seq_def sealed_def)
qed

lemma ce_to_vec_inj: "serde_laws env sd \<Longrightarrow> ce_to_vec env v = ce_to_vec env v' \<Longrightarrow> v = v'"
  unfolding serde_laws_def reads_value_def by (metis sum.inject(2))

lemma stored_event_inj:
  fixes e :: "'n event_envelope"
  assumes "serde_laws env sd" "stored_event env org e = stored_event env org e'" "sealed e" "sealed e'"
  shows "same_event e e'" "(actor_json (ev_actor e) :: 'n json) = actor_json (ev_actor e')"
proof -
  note a = stored_event_attrs [where env = env and org = org and e = e] and a' = stored_event_attrs [where env = env and org = org and e = e', folded assms(2)]
  show "(actor_json (ev_actor e) :: 'n json) = actor_json (ev_actor e')"
    using a(2) a'(2) ce_to_vec_inj [OF assms(1)] by simp
  show "same_event e e'"
    using a(1,3) a(4) [OF assms(3)] a'(1,3) a'(4) [OF assms(4)] ce_to_vec_inj [OF assms(1)] event_kind_str_inj
    by (simp add: same_event_def)
qed

lemma envelope_reads:
  assumes "serde_laws env sd" "sealed e" "envelope_from_item sd (stored_event env org e) = Inr e'"
  shows "same_event e e'"
proof -
  have "sd_from_str sd (ce_to_vec env (ev_payload e)) = Inr (ev_payload e)"
    using assms(1) by (simp add: serde_laws_def reads_value_def)
  then show ?thesis
    using assms(3) stored_event_attrs [where env = env and org = org and e = e] assms(2) event_kind_round_trip
    by (auto simp: envelope_from_item_def get_s_def and_then_def map_err_def ok_or_def same_event_def
        envelope_from_signed_def event_draft_new_def dest: event_kind_str_inj split: sum.splits option.splits)
qed

section \<open>The queried range\<close>

lemma between_prefix: "p @ x \<le> s \<Longrightarrow> s \<le> p @ y \<Longrightarrow> starts_with s p" for s :: string
proof (induction p arbitrary: s)
  case (Cons c p)
  then show ?case by (cases s) (auto simp: starts_with_def)
qed (simp add: starts_with_def)

lemma gap_free_nth: "gap_free n es \<Longrightarrow> i < length es \<Longrightarrow> ev_seq (es ! i) = n + Suc i"
proof (induction es arbitrary: n i)
  case (Cons e es)
  then show ?case by (cases i) auto
qed simp

abbreviation after_range :: "nat \<Rightarrow> sk_condition" where
  "after_range after \<equiv> SkBetween (event_sk (min (after + 1) (2 ^ 64 - 1))) EVT_SK_MAX"

lemma range_events:
  assumes "log_at env sd T org es" "length es < 2 ^ 64 - 1"
  shows "map_of T (org_pk org, s) \<noteq> None \<and> sk_matches (after_range after) s \<longleftrightarrow>
    (\<exists>i. after \<le> i \<and> i < length es \<and> s = event_sk (Suc i))"
proof -
  have ge: "event_sk (min (after + 1) (2 ^ 64 - 1)) \<le> event_sk (Suc i) \<longleftrightarrow> after \<le> i" if "i < length es" for i
    using that assms(2) event_sk_less_iff [of "Suc i" "min (after + 1) (2 ^ 64 - 1)"]
    by (auto simp: not_less [symmetric] min_def)
  show ?thesis
  proof
    assume s: "map_of T (org_pk org, s) \<noteq> None \<and> sk_matches (after_range after) s"
    have "starts_with s EVT_PREFIX"
    proof (rule between_prefix)
      show "EVT_PREFIX @ pad20 (min (after + 1) (2 ^ 64 - 1)) \<le> s" using s by (simp add: event_sk_def)
      show "s \<le> EVT_PREFIX @ ''99999999999999999999''" using s by (simp add: EVT_SK_MAX_def EVT_PREFIX_def)
    qed
    then obtain i where "i < length es" "s = event_sk (Suc i)" using assms(1) s unfolding log_at_def by blast
    then show "\<exists>i. after \<le> i \<and> i < length es \<and> s = event_sk (Suc i)" using ge s by auto
  next
    assume "\<exists>i. after \<le> i \<and> i < length es \<and> s = event_sk (Suc i)"
    then show "map_of T (org_pk org, s) \<noteq> None \<and> sk_matches (after_range after) s"
      using ge event_sk_max assms by (auto simp: log_at_def)
  qed
qed

lemma query_log:
  assumes "log_at env sd T org es" "length es < 2 ^ 64 - 1"
  shows "query_matches T (org_pk org) (after_range after) None = map (stored_event env org) (drop after es)"
proof -
  let ?keys = "map snd (filter (\<lambda>k. fst k = org_pk org \<and> sk_matches (after_range after) (snd k)) (map fst T))"
  let ?ks = "map (\<lambda>i. event_sk (Suc i)) [after..<length es]"
  have "set ?keys = {s. map_of T (org_pk org, s) \<noteq> None \<and> sk_matches (after_range after) s}"
    by (force simp: map_of_eq_None_iff)
  also have "\<dots> = set ?ks" using range_events [OF assms] by force
  finally have "set (sort (remdups ?keys)) = set ?ks" by simp
  moreover have "sorted_wrt (<) ?ks"
    unfolding sorted_wrt_map by (rule sorted_wrt_mono_rel [OF _ sorted_wrt_upt]) (use assms(2) event_sk_less_iff in auto)
  ultimately have ks: "sort (remdups ?keys) = ?ks"
    by (intro sorted_distinct_set_unique) (simp_all add: strict_sorted_iff del: sorted_wrt_map)
  have "map (\<lambda>s. the (map_of T (org_pk org, s))) ?ks = map (stored_event env org) (drop after es)"
    by (rule nth_equalityI) (use assms(1) in \<open>auto simp: log_at_def\<close>)
  then show ?thesis unfolding query_matches_def using ks by simp
qed

section \<open>Versions of a log\<close>

lemma version_grows: "good_history env sd H \<Longrightarrow> T \<in> set H \<Longrightarrow> grows T (cur H)"
  using good_history_grows by (fastforce simp: in_set_conv_decomp cur_def)

lemma log_at_sealed: "log_at env sd T org es \<Longrightarrow> i < length es \<Longrightarrow> sealed (es ! i)"
  unfolding log_at_def event_ok_def by (meson nth_mem)

text \<open>The log of an older version is a prefix of the log of a newer one.\<close>

lemma log_extends:
  assumes "grows T T'" "log_at env sd T org es" "log_at env sd T' org es'" "i < length es"
  shows "i < length es' \<and> stored_event env org (es ! i) = stored_event env org (es' ! i)"
proof -
  have "map_of T' (org_pk org, event_sk (Suc i)) = Some (stored_event env org (es ! i))"
    using assms(1,2,4) unfolding grows_def log_at_def by auto
  moreover from this obtain j where "j < length es'" "event_sk (Suc i) = event_sk (Suc j)"
    using assms(3) unfolding log_at_def by (metis sort_keys_distinct(1) option.distinct(1))
  moreover from this have "i = j"
    using assms(2-4) event_sk_inj [of "Suc i" "Suc j"] by (simp add: log_at_def)
  ultimately show ?thesis using assms(3) by (simp add: log_at_def)
qed

lemma log_extends_same:
  assumes "serde_laws env sd" "grows T T'" "log_at env sd T org es" "log_at env sd T' org es'"
  shows "list_all2 same_event es (take (length es) es')"
proof -
  note ext = log_extends [OF assms(2-4)]
  have len: "length es \<le> length es'" using ext by (metis linorder_not_le order.irrefl)
  show ?thesis
  proof (rule list_all2_all_nthI)
    fix i assume i: "i < length es"
    then have "same_event (es ! i) (es' ! i)"
      using stored_event_inj(1) [OF assms(1)] ext log_at_sealed [OF assms(3)] log_at_sealed [OF assms(4)] by blast
    then show "same_event (es ! i) (take (length es) es' ! i)" using i by simp
  qed (use len in simp)
qed

lemma event_write_same: "same_event e e' \<Longrightarrow> event_write e = event_write e'"
  unfolding event_write_def same_event_def by simp

lemma replay_same: "list_all2 same_event es es' \<Longrightarrow> replay es = replay es'"
proof -
  have "list_all2 same_event es es' \<Longrightarrow> foldl write_event m es = foldl write_event m es'" for m
    by (induction es es' arbitrary: m rule: list_all2_induct) (auto simp: write_event_def dest: event_write_same)
  then show "list_all2 same_event es es' \<Longrightarrow> ?thesis" unfolding replay_def .
qed

lemma gap_free_same: "list_all2 same_event es es' \<Longrightarrow> gap_free n es \<longleftrightarrow> gap_free n es'"
  by (induction es es' arbitrary: n rule: list_all2_induct) (auto simp: same_event_def)

section \<open>Paging\<close>

text \<open>Events read so far are a prefix of the log.\<close>

definition read_prefix ::
    "('n, 'sk, 'vk, 'sig) cp_env \<Rightarrow> ('n, 'sk, 'vk) serde_lib \<Rightarrow> string \<Rightarrow> history \<Rightarrow> 'n event_envelope list \<Rightarrow> bool" where
  "read_prefix env sd org H evs \<longleftrightarrow>
     (\<exists>es. log_at env sd (cur H) org es \<and> length evs \<le> length es \<and> list_all2 same_event evs (take (length evs) es))"

lemma current_log: "good_history env sd H \<Longrightarrow> \<exists>es. log_at env sd (cur H) org es"
  using good_history_inv cur_in_set unfolding table_inv_def by blast

lemma read_prefix_stable:
  assumes "serde_laws env sd" "evolves env sd H H'" "read_prefix env sd org H evs"
  shows "read_prefix env sd org H' evs"
proof -
  obtain es where es: "log_at env sd (cur H) org es" "length evs \<le> length es" "list_all2 same_event evs (take (length evs) es)"
    using assms(3) unfolding read_prefix_def by blast
  obtain es' where es': "log_at env sd (cur H') org es'" using current_log [OF evolves_good [OF assms(2)]] by blast
  have ext: "list_all2 same_event es (take (length es) es')"
    by (rule log_extends_same [OF assms(1) evolves_grows [OF assms(2)] es(1) es'])
  then have len: "length es \<le> length es'" using list_all2_lengthD by fastforce
  have "list_all2 same_event (take (length evs) es) (take (length evs) es')"
    using list_all2_takeI [OF ext, of "length evs"] es(2) by (simp add: min_def)
  then have "list_all2 same_event evs (take (length evs) es')" by (rule same_events_trans [OF es(3)])
  then show ?thesis unfolding read_prefix_def using es' es(2) len by (meson le_trans)
qed

lemma read_prefix_gap_free: "read_prefix env sd org H evs \<Longrightarrow> gap_free 0 evs"
  unfolding read_prefix_def log_at_def using gap_free_same gap_free_take by blast

text \<open>A page of events after the ones read so far continues the prefix, whichever version it was read from.\<close>

lemma read_page:
  assumes "serde_laws env sd" "good_history env sd H" "capacity (cur H)" "T \<in> set H" "read_prefix env sd org H evs"
    and page: "collect_results (map (envelope_from_item sd)
        (take n (query_matches T (org_pk org) (after_range (length evs)) None))) = Inr page"
  shows "read_prefix env sd org H (evs @ page)"
proof -
  obtain es where es: "log_at env sd (cur H) org es" "length evs \<le> length es" "list_all2 same_event evs (take (length evs) es)"
    using assms(5) unfolding read_prefix_def by blast
  obtain es0 where es0: "log_at env sd T org es0" using good_history_inv [OF assms(2,4)] unfolding table_inv_def by blast
  have ext: "list_all2 same_event es0 (take (length es0) es)"
    by (rule log_extends_same [OF assms(1) version_grows [OF assms(2,4)] es0 es(1)])
  then have len: "length es0 \<le> length es" using list_all2_lengthD by fastforce
  have bound: "length es0 < 2 ^ 64 - 1" using log_length_bound [OF es(1) assms(3)] len by simp
  let ?xs = "take n (drop (length evs) es0)"
  have xs: "map (\<lambda>e. envelope_from_item sd (stored_event env org e)) ?xs = map Inr page"
    using page unfolding query_log [OF es0 bound] collect_results_Inr_iff by (simp add: take_map comp_def)
  then have len_page: "length page = length ?xs" by (metis length_map)
  have "list_all2 same_event ?xs page"
  proof (rule list_all2_all_nthI)
    fix i assume i: "i < length ?xs"
    then have "envelope_from_item sd (stored_event env org (?xs ! i)) = Inr (page ! i)"
      using xs len_page by (metis (no_types, lifting) nth_map)
    moreover have "sealed (?xs ! i)" using i log_at_sealed [OF es0, of "length evs + i"] by (simp add: less_diff_conv add.commute)
    ultimately show "same_event (?xs ! i) (page ! i)" using envelope_reads [OF assms(1)] by blast
  qed (simp add: len_page)
  then have "list_all2 same_event page ?xs" by (rule same_events_sym)
  moreover have "list_all2 same_event ?xs (take (length page) (drop (length evs) es))"
  proof -
    have "take (length page) (drop (length evs) (take (length es0) es)) = take (length page) (drop (length evs) es)"
      using len_page by (simp add: drop_take)
    moreover have "?xs = take (length page) (drop (length evs) es0)" using len_page by (simp add: min_def)
    ultimately show ?thesis using ext by (metis list_all2_dropI list_all2_takeI)
  qed
  ultimately have "list_all2 same_event page (take (length page) (drop (length evs) es))"
    by (rule same_events_trans)
  then have "list_all2 same_event (evs @ page) (take (length (evs @ page)) es)"
    using list_all2_appendI [OF es(3)] by (simp add: take_add)
  moreover have "length (evs @ page) \<le> length es" using len_page len es(2) by (auto simp: min_def)
  ultimately show ?thesis unfolding read_prefix_def using es(1) by blast
qed

section \<open>The fold under interference\<close>

lemma rg_read_page:
  assumes "dynamo_laws db" "serde_laws env sd" "good_history env sd H" "read_prefix env sd org H evs"
  shows "rg db (evolves env sd) (\<lambda>r H'. evolves env sd H H' \<and> (\<forall>page. r = Inr page \<longrightarrow> read_prefix env sd org H' (evs @ page)))
    (dyn_events_after sd org (length evs) limit) H"
  unfolding dyn_events_after_def log_events_query_def pbind.simps
proof (rule rg_Ask [OF assms(1)], goal_cases)
  case (2 rep H1 H')
  then have H1: "H1 = H" and rep: "(\<exists>T \<in> set H. \<exists>n lek. rep = RItems (take n (query_matches T (org_pk org) (after_range (length evs)) None)) lek) \<or>
      (\<exists>e. rep = RError e)"
    by (auto simp: Let_def)
  have H': "evolves env sd H H'" using 2 H1 by simp
  from rep consider T n lek where "T \<in> set H" "rep = RItems (take n (query_matches T (org_pk org) (after_range (length evs)) None)) lek"
    | e where "rep = RError e" by blast
  then show ?case
  proof cases
    case 1
    have "read_prefix env sd org H' (evs @ page)" if "collect_results (map (envelope_from_item sd)
        (take n (query_matches T (org_pk org) (after_range (length evs)) None))) = Inr page" for page
      using read_prefix_stable [OF assms(2) H'] read_page [OF assms(2,3) 2(2) 1(1) assms(4) that] by blast
    then show ?thesis unfolding 1(2) using H' by (auto simp: map_err_def split: sum.splits)
  qed (use H' in simp)
qed (use dyn.R_refl [OF assms(3)] in auto)

text \<open>The bound on the number of pages is never reached.\<close>

lemma rg_fold_pages:
  assumes "dynamo_laws db" "serde_laws env sd"
  shows "good_history env sd H \<Longrightarrow> read_prefix env sd org H evs \<Longrightarrow> target < n + length evs \<Longrightarrow> evs = [] \<or> length evs < target \<Longrightarrow>
    rg db (evolves env sd) (\<lambda>r H'. good_history env sd H' \<and> (\<forall>evs. r = Inr evs \<longrightarrow> read_prefix env sd org H' evs))
      (dyn_fold_pages sd org target (length evs) evs n) H"
proof (induction n arbitrary: H evs)
  case (Suc n)
  show ?case unfolding dyn_fold_pages.simps
  proof (rule rg_rbind [OF rg_read_page [OF assms Suc.prems(1,2)]], goal_cases)
    case (1 page H1)
    then have page: "evolves env sd H H1" "read_prefix env sd org H1 (evs @ page)" by auto
    note good = evolves_good [OF page(1)]
    have seq: "ev_seq (last page) = length (evs @ page)" if "page \<noteq> []"
      using gap_free_last [OF read_prefix_gap_free [OF page(2)]] that by simp
    show ?case
    proof (cases "page = [] \<or> length page < FOLD_PAGE_SIZE \<or> ev_seq (last page) \<ge> target")
      case True
      then show ?thesis using good page(2) by auto
    next
      case False
      have "rg db (evolves env sd) (\<lambda>r H'. good_history env sd H' \<and> (\<forall>evs. r = Inr evs \<longrightarrow> read_prefix env sd org H' evs))
          (dyn_fold_pages sd org target (length (evs @ page)) (evs @ page) n) H1"
        by (rule Suc.IH [OF good page(2)]) (use False seq Suc.prems(3) in \<open>cases page; auto\<close>)+
      then show ?thesis using False seq by simp
    qed
  qed (auto dest: evolves_good)
qed simp

text \<open>A fold that returns is the state of the log at the revision it carries.\<close>

definition fold_post ::
    "('n, 'sk, 'vk, 'sig) cp_env \<Rightarrow> ('n, 'sk, 'vk) serde_lib \<Rightarrow> string \<Rightarrow> nat option \<Rightarrow> (cp_error, 'n folded_state) result \<Rightarrow> history \<Rightarrow> bool" where
  "fold_post env sd org at r H \<longleftrightarrow> good_history env sd H \<and>
     (\<forall>fs. r = Inr fs \<longrightarrow> (\<forall>n. at = Some n \<longrightarrow> fs_revision fs = n) \<and>
        (\<exists>es. log_at env sd (cur H) org es \<and> fs_revision fs \<le> length es \<and> abs_state fs = replay (take (fs_revision fs) es)))"

lemma abs_state_empty: "abs_state (folded_empty\<lparr>fs_revision := n\<rparr>) = Map.empty"
proof
  show "abs_state (folded_empty\<lparr>fs_revision := n\<rparr>) k = None" for k by (cases k) (simp_all add: folded_empty_def)
qed

lemma fold_prefix:
  assumes "read_prefix env sd org H evs" "fold_events evs target = Inr fs"
  shows "fs_revision fs = target \<and>
    (\<exists>es. log_at env sd (cur H) org es \<and> target \<le> length es \<and> abs_state fs = replay (take target es))"
proof -
  obtain es where es: "log_at env sd (cur H) org es" "length evs \<le> length es" "list_all2 same_event evs (take (length evs) es)"
    using assms(1) unfolding read_prefix_def by blast
  have le: "target \<le> length evs" and ok: "apply_all (take target evs) (folded_empty\<lparr>fs_revision := target\<rparr>) = Inr fs"
    using assms(2) unfolding fold_events_gap_free [OF read_prefix_gap_free [OF assms(1)]] by (auto split: if_splits)
  note fs = apply_all_replay [OF ok, unfolded abs_state_empty]
  have "list_all2 same_event (take target evs) (take target es)"
    using list_all2_takeI [OF es(3), of target] le by (simp add: min_def)
  then have "replay (take target evs) = replay (take target es)" by (rule replay_same)
  then show ?thesis using fs es(1,2) le by (auto simp: replay_def folded_empty_def)
qed

lemma read_prefix_fold_post:
  assumes "good_history env sd H" "read_prefix env sd org H evs" "\<forall>n. at = Some n \<longrightarrow> target = n"
  shows "fold_post env sd org at (map_err g (fold_events evs target)) H"
proof (cases "fold_events evs target")
  case (Inr fs)
  then show ?thesis using fold_prefix [OF assms(2) Inr] assms(1,3) by (auto simp: fold_post_def)
qed (use assms(1) in \<open>simp add: fold_post_def\<close>)

lemma rg_fold_at:
  assumes "dynamo_laws db" "serde_laws env sd" "good_history env sd H"
  shows "rg db (evolves env sd) (fold_post env sd org at) (dyn_fold_at sd org at) H"
  unfolding dyn_fold_at_def Let_def
proof (rule rg_rbind [OF rg_latest [OF assms(1,3)]])
  fix latest H1
  assume "evolves env sd H H1"
  then have good: "good_history env sd H1" by (rule evolves_good)
  have log: "\<exists>es. log_at env sd (cur H1) org es" by (rule current_log [OF good])
  show "rg db (evolves env sd) (fold_post env sd org at)
    (if at = None \<and> latest = 0 then Ret (Inr folded_empty)
     else rbind (dyn_fold_pages sd org (case at of Some r \<Rightarrow> r | None \<Rightarrow> latest) 0 [] (Suc (case at of Some r \<Rightarrow> r | None \<Rightarrow> latest)))
       (\<lambda>events. lift_result (map_err (\<lambda>e. CpStore (authz_error_display e)) (fold_events events (case at of Some r \<Rightarrow> r | None \<Rightarrow> latest))))) H1"
  proof (cases "at = None \<and> latest = 0")
    case True
    then show ?thesis using good log abs_state_empty [of 0] by (auto simp: fold_post_def replay_def folded_empty_def)
  next
    case False
    define target where "target = (case at of Some r \<Rightarrow> r | None \<Rightarrow> latest)"
    have pages: "rg db (evolves env sd) (\<lambda>r H'. good_history env sd H' \<and> (\<forall>evs. r = Inr evs \<longrightarrow> read_prefix env sd org H' evs))
        (dyn_fold_pages sd org target 0 [] (Suc target)) H1"
      using rg_fold_pages [OF assms(1,2) good, of org "[]" target "Suc target"] log by (simp add: read_prefix_def)
    have "rg db (evolves env sd) (fold_post env sd org at) (rbind (dyn_fold_pages sd org target 0 [] (Suc target))
        (\<lambda>events. lift_result (map_err (\<lambda>e. CpStore (authz_error_display e)) (fold_events events target)))) H1"
      by (rule rg_rbind [OF pages]) (use read_prefix_fold_post [where at = at and target = target] in
        \<open>auto simp: fold_post_def [of _ _ _ _ "Inl e" for e] lift_result_def target_def split: option.splits\<close>)
    then show ?thesis unfolding if_not_P [OF False] target_def .
  qed
qed (auto simp: fold_post_def dest: evolves_good)

end
