(* ===== verification/Dynamo_Pool.thy ===== *)
theory Dynamo_Pool
  imports Dynamo_Fold
begin

text \<open>
  All calls of the store at once: any number of processes run any operations, their requests interleave in any
  order, requests fail or their replies are lost, and processes die. The theorems say what still holds of the
  log, of the results and of the items.
\<close>

section \<open>Calls\<close>

datatype 'n dyn_call =
    CreateOrg "'n org_record" actor
  | UpdateOrg "'n org_record" actor "nat option"
  | TransitionOrg "'n org_record" event_kind actor nat
  | GenerateOrgKey string actor
  | RevokeOrgKey string string actor
  | RotateOrgKey string string actor
  | UpsertChanged string native_id actor "'n json"
  | PutPromotion string segment native_id actor
  | TombstonePromotion string segment native_id actor
  | PutGroup string rbac_entry actor "nat option"
  | DeleteGroup string string actor "nat option"
  | FoldAt string "nat option"
  | GetPrincipal string native_id
  | GetPromotion string segment native_id
  | ListPromotions string segment "native_id option" nat
  | ListSigningKeys string
  | LatestRevision string
  | EventsAfter string nat nat
  | OsGet segment
  | OsListKeys segment
  | OsGetGroup segment string

text \<open>The result of a call: of a write the revision of its event, if it wrote one; of a fold the state.\<close>

datatype 'n dyn_result =
    Wrote "(cp_error, nat option) result"
  | Folded "(cp_error, 'n folded_state) result"
  | Answered bool

definition pmap :: "('a \<Rightarrow> 'b) \<Rightarrow> 'a prog \<Rightarrow> 'b prog" where
  "pmap f p = pbind p (\<lambda>x. Ret (f x))"

definition answered :: "('e, 'a) result prog \<Rightarrow> 'n dyn_result prog" where
  "answered p = pmap (\<lambda>r. Answered (is_ok r)) p"

fun run_call :: "('n, 'sk, 'vk, 'sig) cp_env \<Rightarrow> ('n, 'sk, 'vk) serde_lib \<Rightarrow> 'n dyn_call \<Rightarrow> 'n dyn_result prog" where
  "run_call env sd (CreateOrg r a) = pmap (Wrote \<circ> applied) (dyn_create_org env sd r a)"
| "run_call env sd (UpdateOrg r a x) = pmap (Wrote \<circ> applied) (dyn_update_org env sd r a x)"
| "run_call env sd (TransitionOrg r k a x) = pmap (Wrote \<circ> applied) (dyn_transition_org env sd r k a x)"
| "run_call env sd (GenerateOrgKey org a) = pmap (Wrote \<circ> key_applied) (dyn_generate_org_key env sd org a)"
| "run_call env sd (RevokeOrgKey org k a) = pmap Wrote (dyn_revoke_org_key env sd org k a)"
| "run_call env sd (RotateOrgKey org k a) = pmap (Wrote \<circ> key_applied) (dyn_rotate_org_key env sd org k a)"
| "run_call env sd (UpsertChanged org i a p) = pmap (Wrote \<circ> applied) (dyn_upsert_changed env sd org i a p)"
| "run_call env sd (PutPromotion org t i a) = pmap (Wrote \<circ> applied) (dyn_put_promotion env sd org t i a)"
| "run_call env sd (TombstonePromotion org t i a) = pmap Wrote (dyn_tombstone_promotion env sd org t i a)"
| "run_call env sd (PutGroup org g a x) = pmap (Wrote \<circ> group_applied) (dyn_put_group env sd org g a x)"
| "run_call env sd (DeleteGroup org n a x) = pmap (Wrote \<circ> group_applied) (dyn_delete_group env sd org n a x)"
| "run_call env sd (FoldAt org at) = pmap Folded (dyn_fold_at sd org at)"
| "run_call env sd (GetPrincipal org i) = answered (dyn_get_principal sd org i)"
| "run_call env sd (GetPromotion org t i) = answered (dyn_get_promotion org t i)"
| "run_call env sd (ListPromotions org t a l) = answered (dyn_list_promotions org t a l)"
| "run_call env sd (ListSigningKeys org) = answered (dyn_list_signing_keys env sd org)"
| "run_call env sd (LatestRevision org) = answered (dyn_latest_revision sd org)"
| "run_call env sd (EventsAfter org a l) = answered (dyn_events_after sd org a l)"
| "run_call env sd (OsGet org) = answered (dyn_os_get env sd org)"
| "run_call env sd (OsListKeys org) = answered (dyn_os_list_keys sd org)"
| "run_call env sd (OsGetGroup org n) = answered (dyn_os_get_group sd org n)"

text \<open>Callers pass validated segments and native ids, and an organization event for a transition.\<close>

fun call_ok :: "'n dyn_call \<Rightarrow> bool" where
  "call_ok (TransitionOrg r k a x) \<longleftrightarrow> k \<in> {OrgActivated, OrgSuspended, OrgRestored}"
| "call_ok (PutPromotion org t i a) \<longleftrightarrow> segment_wf t \<and> native_id_wf i"
| "call_ok (TombstonePromotion org t i a) \<longleftrightarrow> segment_wf t \<and> native_id_wf i"
| "call_ok _ \<longleftrightarrow> True"

text \<open>The organization a write is for, the revision it expects, and the events that are its own.\<close>

fun call_org :: "'n dyn_call \<Rightarrow> string" where
  "call_org (CreateOrg r a) = seg_str (o_id (or_org r))"
| "call_org (UpdateOrg r a x) = seg_str (o_id (or_org r))"
| "call_org (TransitionOrg r k a x) = seg_str (o_id (or_org r))"
| "call_org (GenerateOrgKey org a) = org"
| "call_org (RevokeOrgKey org k a) = org"
| "call_org (RotateOrgKey org k a) = org"
| "call_org (UpsertChanged org i a p) = org"
| "call_org (PutPromotion org t i a) = org"
| "call_org (TombstonePromotion org t i a) = org"
| "call_org (PutGroup org g a x) = org"
| "call_org (DeleteGroup org n a x) = org"
| "call_org _ = []"

fun call_expected :: "'n dyn_call \<Rightarrow> nat option" where
  "call_expected (UpdateOrg r a x) = x"
| "call_expected (TransitionOrg r k a x) = Some x"
| "call_expected (PutGroup org g a x) = x"
| "call_expected (DeleteGroup org n a x) = x"
| "call_expected _ = None"

fun call_event :: "('n, 'sk, 'vk, 'sig) cp_env \<Rightarrow> 'n dyn_call \<Rightarrow> 'n event_envelope \<Rightarrow> bool" where
  "call_event env (CreateOrg r a) = is_event OrgCreated a (org_payload (ce_chrono env) r)"
| "call_event env (UpdateOrg r a x) = is_event OrgUpdated a (org_payload (ce_chrono env) r)"
| "call_event env (TransitionOrg r k a x) = is_event k a (org_payload (ce_chrono env) r)"
| "call_event env (GenerateOrgKey org a) = by_actor OrgKeyGenerated a"
| "call_event env (RevokeOrgKey org k a) = by_actor OrgKeyRevoked a"
| "call_event env (RotateOrgKey org k a) = by_actor OrgKeyRotated a"
| "call_event env (UpsertChanged org i a p) = is_event PrincipalUpserted a (principal_event_payload i p)"
| "call_event env (PutPromotion org t i a) = promotion_event ResourcePromoted org t i a"
| "call_event env (TombstonePromotion org t i a) = promotion_event ResourceTombstoned org t i a"
| "call_event env (PutGroup org g a x) = is_event GroupPut a (group_put_payload (re_name g) (rbac_entry_json g))"
| "call_event env (DeleteGroup org n a x) = is_event GroupDeleted a (group_deleted_payload n)"
| "call_event env _ = (\<lambda>_. False)"

fun call_fold :: "'n dyn_call \<Rightarrow> (string \<times> nat option) option" where
  "call_fold (FoldAt org at) = Some (org, at)"
| "call_fold _ = None"

definition call_post ::
    "('n, 'sk, 'vk, 'sig) cp_env \<Rightarrow> ('n, 'sk, 'vk) serde_lib \<Rightarrow> 'n dyn_call \<Rightarrow> 'n dyn_result \<Rightarrow> history \<Rightarrow> bool" where
  "call_post env sd c r H \<longleftrightarrow> good_history env sd H \<and>
     (case r of
        Wrote w \<Rightarrow> wrote_post env sd (call_org c) (call_expected c) (call_event env c) w H
      | Folded f \<Rightarrow> (\<exists>org at. call_fold c = Some (org, at) \<and> fold_post env sd org at f H)
      | Answered _ \<Rightarrow> True)"

section \<open>Every call is safe\<close>

lemma rg_pmap: "rg db R (\<lambda>x. Q (f x)) p H \<Longrightarrow> rg db R Q (pmap f p) H"
  unfolding pmap_def by (rule rg_bind) auto

lemma rg_write:
  assumes "rg db R (\<lambda>r. wrote_post env sd (call_org c) (call_expected c) (call_event env c) (f r)) p H"
  shows "rg db R (call_post env sd c) (pmap (Wrote \<circ> f) p) H"
  by (rule rg_pmap, rule rg_mono [OF assms]) (auto simp: call_post_def wrote_post_def)

lemma rg_answered:
  assumes "rg db R (\<lambda>_. good_history env sd) p H"
  shows "rg db R (call_post env sd c) (answered p) H"
  unfolding answered_def by (rule rg_pmap, rule rg_mono [OF assms]) (simp add: call_post_def)

text \<open>Reads keep the history.\<close>

lemma rg_get:
  assumes "dynamo_laws db" "good_history env sd H"
  shows "rg db (evolves env sd) (\<lambda>_. good_history env sd) (rbind (ask_item b k) (\<lambda>it. lift_result (f it))) H"
  by (rule rg_read [OF assms]) (auto simp: lift_result_def dest: evolves_good)

lemma rg_query:
  assumes "dynamo_laws db" "good_history env sd H" "\<And>its lek. \<exists>r. k (RItems its lek) = Ret r" "\<And>e. \<exists>r. k (RError e) = Ret r"
  shows "rg db (evolves env sd) (\<lambda>_. good_history env sd) (Ask (Query p c l s) k) H"
proof (rule rg_Ask [OF assms(1)], goal_cases)
  case (2 rep H1 H')
  then have "(\<exists>its lek. rep = RItems its lek) \<or> (\<exists>e. rep = RError e)" "good_history env sd H'"
    by (auto simp: Let_def dest: evolves_good)
  then show ?case using assms(3,4) by (metis rg.simps(1))
qed (use dyn.R_refl [OF assms(2)] in auto)

lemma rg_call:
  assumes "dynamo_laws db" "serde_laws env sd" "good_history env sd H" "call_ok c"
  shows "rg db (evolves env sd) (call_post env sd c) (run_call env sd c) H"
proof -
  have wrote: "Wrote = Wrote \<circ> (\<lambda>x. x)" by (simp add: comp_def)
  note org = rg_append_org_state [OF assms(1,3)] and get = rg_answered [OF rg_get [OF assms(1,3)]]
  show ?thesis
  proof (cases c)
    case (CreateOrg r a)
    show ?thesis unfolding CreateOrg run_call.simps dyn_create_org_def by (rule rg_write) (simp add: org)
  next
    case (UpdateOrg r a x)
    show ?thesis unfolding UpdateOrg run_call.simps dyn_update_org_def by (rule rg_write) (simp add: org)
  next
    case (TransitionOrg r k a x)
    then show ?thesis unfolding TransitionOrg run_call.simps dyn_transition_org_def
      by (intro rg_write) (use assms(4) org TransitionOrg in auto)
  next
    case (GenerateOrgKey org a)
    show ?thesis unfolding GenerateOrgKey run_call.simps by (rule rg_write) (simp add: rg_generate_org_key [OF assms(1,3)])
  next
    case (RevokeOrgKey org k a)
    show ?thesis unfolding RevokeOrgKey run_call.simps
      by (subst wrote, rule rg_write) (simp add: rg_revoke_org_key [OF assms(1,3)])
  next
    case (RotateOrgKey org k a)
    show ?thesis unfolding RotateOrgKey run_call.simps by (rule rg_write) (simp add: rg_rotate_org_key [OF assms(1,3)])
  next
    case (UpsertChanged org i a p)
    show ?thesis unfolding UpsertChanged run_call.simps by (rule rg_write) (simp add: rg_upsert_changed [OF assms(1,3)])
  next
    case (PutPromotion org t i a)
    then show ?thesis unfolding PutPromotion run_call.simps
      by (intro rg_write) (use assms(4) PutPromotion rg_put_promotion [OF assms(1,3)] in simp)
  next
    case (TombstonePromotion org t i a)
    then show ?thesis unfolding TombstonePromotion run_call.simps
      by (subst wrote, intro rg_write) (use assms(4) TombstonePromotion rg_tombstone_promotion [OF assms(1,3)] in simp)
  next
    case (PutGroup org g a x)
    show ?thesis unfolding PutGroup run_call.simps by (rule rg_write) (simp add: rg_put_group [OF assms(1,3)])
  next
    case (DeleteGroup org n a x)
    show ?thesis unfolding DeleteGroup run_call.simps by (rule rg_write) (simp add: rg_delete_group [OF assms(1,3)])
  next
    case (FoldAt org at)
    show ?thesis unfolding FoldAt run_call.simps
      by (rule rg_pmap, rule rg_mono [OF rg_fold_at [OF assms(1-3)]]) (auto simp: call_post_def fold_post_def)
  next
    case (ListPromotions org t a l)
    show ?thesis unfolding ListPromotions run_call.simps dyn_list_promotions_def Let_def
      by (rule rg_answered, rule rg_query [OF assms(1,3)]) simp_all
  next
    case (LatestRevision org)
    show ?thesis unfolding LatestRevision run_call.simps
      by (rule rg_answered, rule rg_mono [OF rg_latest [OF assms(1,3)]]) (rule evolves_good)
  next
    case (EventsAfter org a l)
    show ?thesis unfolding EventsAfter run_call.simps dyn_events_after_def log_events_query_def pbind.simps
      by (rule rg_answered, rule rg_query [OF assms(1,3)]) simp_all
  qed (simp_all only: run_call.simps dyn_get_principal_def dyn_get_promotion_def dyn_list_signing_keys_def dyn_os_get_def
      dyn_os_list_keys_def dyn_os_get_group_def get)
qed

section \<open>Interleaved calls\<close>

definition runs_to ::
    "service \<Rightarrow> ('n, 'sk, 'vk, 'sig) cp_env \<Rightarrow> ('n, 'sk, 'vk) serde_lib \<Rightarrow> 'n dyn_call list \<Rightarrow> 'n dyn_result prog list \<Rightarrow> history \<Rightarrow> bool" where
  "runs_to db env sd cs ps H \<longleftrightarrow> list_all call_ok cs \<and> (pool_step db)\<^sup>*\<^sup>* (map (run_call env sd) cs, [[]]) (ps, H)"

lemma runs_to_post:
  assumes "dynamo_laws db" "serde_laws env sd" "runs_to db env sd cs ps H"
  shows "good_history env sd H" "length ps = length cs"
    "i < length cs \<Longrightarrow> ps ! i \<noteq> Crash" "i < length cs \<Longrightarrow> ps ! i = Ret r \<Longrightarrow> call_post env sd (cs ! i) r H"
proof -
  have good: "good_history env sd [[]]" by (simp add: table_inv_Nil)
  have safe: "safe db (evolves env sd) (call_post env sd (cs ! i)) (map (run_call env sd) cs ! i) [[]]"
    if "i < length (map (run_call env sd) cs)" for i
  proof -
    have "call_ok (cs ! i)" using that assms(3) by (simp add: runs_to_def list_all_length)
    then show ?thesis using rg_call [OF assms(1,2) evolves_good] that unfolding safe_def by simp
  qed
  have run: "(pool_step db)\<^sup>*\<^sup>* (map (run_call env sd) cs, [[]]) (ps, H)" using assms(3) by (simp add: runs_to_def)
  note pool = dyn.pool_safe [OF run good safe] and result = dyn.pool_result [OF run good safe]
  show "good_history env sd H" "length ps = length cs" using pool evolves_good by auto
  show "i < length cs \<Longrightarrow> ps ! i \<noteq> Crash" "i < length cs \<Longrightarrow> ps ! i = Ret r \<Longrightarrow> call_post env sd (cs ! i) r H"
    using result by auto
qed

text \<open>
  C4. The table keeps its invariant under any interleaving of calls, with failing requests, lost replies and
  processes that stop: in every version of the table the log of every organization has no gaps, its counter
  is its length, its events are signed with the organization's key, and the items of groups, principals and
  promotions are exactly the replay of the log. Stored events and signing keys are never changed or removed,
  and no call panics.
\<close>

theorem dynamo_log_invariant:
  assumes "dynamo_laws db" "serde_laws env sd" "runs_to db env sd cs ps H"
  shows "(\<forall>T \<in> set H. table_inv env sd T \<and> grows T (cur H)) \<and> Crash \<notin> set ps"
  using runs_to_post [OF assms] good_history_inv version_grows by (metis in_set_conv_nth)

text \<open>
  C14. A write that reports a revision has written its event: in some version of the table the log of the
  organization ended with an event of the call at that revision, and a call that expects a revision gets the
  next one.
\<close>

theorem dynamo_write_recorded:
  assumes "dynamo_laws db" "serde_laws env sd" "runs_to db env sd cs ps H" "i < length cs" "ps ! i = Ret (Wrote (Inr (Some n)))"
  shows "\<exists>T \<in> set H. \<exists>es e. log_at env sd T (call_org (cs ! i)) (es @ [e]) \<and> n = Suc (length es) \<and> call_event env (cs ! i) e \<and>
    (\<forall>x. call_expected (cs ! i) = Some x \<longrightarrow> n = Suc x)"
  using runs_to_post(4) [OF assms] by (simp add: call_post_def recorded_def)

lemma recorded_unique:
  fixes env :: "('n, 'sk, 'vk, 'sig) cp_env"
  assumes "serde_laws env sd" "good_history env sd H" "recorded env sd H org x n P" "recorded env sd H org x' n P'"
  shows "\<exists>e e'. P e \<and> P' e' \<and> same_event e e' \<and> (actor_json (ev_actor e) :: 'n json) = actor_json (ev_actor e')"
proof -
  obtain T es e where 1: "T \<in> set H" "log_at env sd T org (es @ [e])" "n = Suc (length es)" "P e"
    using assms(3) unfolding recorded_def by blast
  obtain T' es' e' where 2: "T' \<in> set H" "log_at env sd T' org (es' @ [e'])" "n = Suc (length es')" "P' e'"
    using assms(4) unfolding recorded_def by blast
  obtain es0 where es0: "log_at env sd (cur H) org es0" using current_log [OF assms(2)] by blast
  have "stored_event env org e = stored_event env org (es0 ! length es)"
    using log_extends [OF version_grows [OF assms(2) 1(1)] 1(2) es0, of "length es"] by simp
  moreover have "stored_event env org e' = stored_event env org (es0 ! length es)"
    using log_extends [OF version_grows [OF assms(2) 2(1)] 2(2) es0, of "length es'"] 1(3) 2(3) by simp
  moreover have "sealed e" "sealed e'"
    using log_at_sealed [OF 1(2), of "length es"] log_at_sealed [OF 2(2), of "length es'"] by simp_all
  ultimately show ?thesis using stored_event_inj [OF assms(1), of org e e'] 1(4) 2(4) by auto
qed

definition same_write :: "('n, 'sk, 'vk, 'sig) cp_env \<Rightarrow> 'n dyn_call \<Rightarrow> 'n dyn_call \<Rightarrow> bool" where
  "same_write env c c' \<longleftrightarrow> (\<exists>e e'. call_event env c e \<and> call_event env c' e' \<and> same_event e e' \<and>
     (actor_json (ev_actor e) :: 'n json) = actor_json (ev_actor e'))"



end
