(* ===== verification/Dynamo_Live.thy ===== *)
theory Dynamo_Live
  imports Dynamo_Pool "HOL-Library.Countable"
begin

text \<open>
  A call that runs alone on a service with no failures: it returns, and a group write of a new group is applied
  at the next revision. Example runs of the pool are made of such calls.
\<close>

section \<open>An ideal service\<close>

text \<open>A service that answers every request at once and from the newest version; it is used for example runs.\<close>

fun serve :: "history \<Rightarrow> request \<Rightarrow> reply \<times> history" where
  "serve H (GetItem c k) = (RItem (map_of (cur H) k), H)"
| "serve H (PutItem it c) =
     (if cond_holds c (map_of (cur H) (item_key it)) then (ROk, hm_insert (item_key it) it (cur H) # H) else (RConditionFailed, H))"
| "serve H (TransactWrite ws) =
     (if tx_enabled ws (cur H) then (ROk, tx_commit ws (cur H) # H)
      else (RCancelled (map (\<lambda>w. if cond_holds (tx_cond w) (map_of (cur H) (tx_key w)) then None
        else Some ''ConditionalCheckFailed'') ws) ''cancelled'', H))"
| "serve H (Query p c limit start) =
     (let M = query_matches (cur H) p c start; n = (case limit of None \<Rightarrow> length M | Some l \<Rightarrow> min l (length M)) in
      (RItems (take n M) (if n = length M then None else Some (item_key (M ! (n - 1)))), H))"
| "serve H Now = (RNow 0, H)"
| "serve H NewUlid = (RUlid ''01J'', H)"
| "serve H NewKeyPair = (RKeyPair (Inr ''PRIV'') (Inr ''PUB'') [], H)"

definition ideal :: service where
  "ideal H r rep H' \<longleftrightarrow> H \<noteq> [] \<and> length (cur H) < 1000 \<and> serve H r = (rep, H')"

lemma cur_mem: "H \<noteq> [] \<Longrightarrow> cur H \<in> set H"
  by (cases H) (auto simp: cur_def)

lemma serve_documented: "H \<noteq> [] \<Longrightarrow> serve H r = (rep, H') \<Longrightarrow> documented H r rep H'"
proof (cases r)
  case (Query p c l s)
  assume H: "H \<noteq> []" "serve H r = (rep, H')"
  let ?M = "query_matches (cur H) p c s"
  define n where "n = (case l of None \<Rightarrow> length ?M | Some x \<Rightarrow> min x (length ?M))"
  have n: "n \<le> length ?M" "case l of Some x \<Rightarrow> n \<le> x | None \<Rightarrow> True" "?M \<noteq> [] \<and> l \<noteq> Some 0 \<longrightarrow> 0 < n"
    by (auto simp: n_def split: option.splits)
  have "rep = RItems (take n ?M) (if n = length ?M then None else Some (item_key (?M ! (n - 1))))" "H' = H"
    using H(2) Query by (auto simp: Let_def n_def)
  then show ?thesis using n cur_mem [OF H(1)] unfolding Query documented.simps Let_def by fastforce
qed (use cur_mem in \<open>auto simp: Let_def split: if_splits\<close>)

lemma small_capacity: "length T < 1000 \<Longrightarrow> capacity T"
  using card_length [of "map fst T"] by (simp add: capacity_def dom_map_of_conv_image_fst)

lemma ideal_laws: "dynamo_laws ideal"
  unfolding dynamo_laws_def ideal_def using serve_documented small_capacity by blast

section \<open>Running alone\<close>

text \<open>The run of one program on the ideal service; \<open>None\<close> when it panics or the table is full.\<close>

primrec alone :: "'a prog \<Rightarrow> history \<Rightarrow> ('a \<times> history) option" where
  "alone (Ret x) = (\<lambda>H. Some (x, H))"
| "alone Crash = (\<lambda>H. None)"
| "alone (Ask r k) = (\<lambda>H. if H \<noteq> [] \<and> length (cur H) < 1000 then (case serve H r of (rep, H') \<Rightarrow> alone (k rep) H') else None)"

definition room :: "nat \<Rightarrow> history \<Rightarrow> bool" where
  "room n H \<longleftrightarrow> H \<noteq> [] \<and> length (cur H) + n \<le> 1000"

lemma room_mono: "room m H \<Longrightarrow> n \<le> m \<Longrightarrow> room n H"
  by (simp add: room_def)

lemma alone_Ask: "room (Suc n) H \<Longrightarrow> serve H r = (rep, H') \<Longrightarrow> alone (Ask r k) H = alone (k rep) H'"
  by (simp add: room_def)

lemma alone_bind: "alone p H = Some (x, H') \<Longrightarrow> alone (pbind p f) H = alone (f x) H'"
  by (induction p arbitrary: H) (auto split: if_splits prod.splits)

lemma alone_rbind: "alone p H = Some (Inr x, H') \<Longrightarrow> alone (rbind p f) H = alone (f x) H'"
  unfolding rbind_def by (simp add: alone_bind)

lemma alone_lift: "r = Inr x \<Longrightarrow> alone (rbind (lift_result r) f) H = alone (f x) H"
  by (simp add: lift_result_def)

lemma alone_steps:
  "alone p H = Some (x, H') \<Longrightarrow> i < length ps \<Longrightarrow> ps ! i = p \<Longrightarrow> (pool_step ideal)\<^sup>*\<^sup>* (ps, H) (ps[i := Ret x], H')"
proof (induction p arbitrary: ps H)
  case (Ret y)
  then have "ps[i := Ret x] = ps" by (simp add: list_update_same_conv)
  then show ?case using Ret by simp
next
  case (Ask r k)
  obtain rep H1 where s: "serve H r = (rep, H1)" by (cases "serve H r")
  have ok: "H \<noteq> []" "length (cur H) < 1000" "alone (k rep) H1 = Some (x, H')"
    using Ask.prems(1) s by (auto split: if_splits)
  have "pool_step ideal (ps, H) (ps[i := k rep], H1)"
    using Ask.prems ok s by (intro pool_step.intros) (simp_all add: ideal_def)
  moreover have "(pool_step ideal)\<^sup>*\<^sup>* (ps[i := k rep], H1) ((ps[i := k rep])[i := Ret x], H')"
    by (rule Ask.IH [OF _ ok(3)]) (use Ask.prems in simp_all)
  ultimately show ?case by (simp add: converse_rtranclp_into_rtranclp)
qed simp

text \<open>What a program guarantees under interference it guarantees alone.\<close>

lemma rg_alone:
  "rg ideal (evolves env sd) Q p H \<Longrightarrow> alone p H = Some (x, H') \<Longrightarrow> good_history env sd H \<Longrightarrow> Q x H' \<and> good_history env sd H' \<and> evolves env sd H H'"
proof (induction p arbitrary: H)
  case (Ret y)
  then show ?case using dyn.R_refl by simp
next
  case (Ask r k)
  obtain rep H1 where s: "serve H r = (rep, H1)" by (cases "serve H r")
  have ok: "ideal H r rep H1" "alone (k rep) H1 = Some (x, H')"
    using Ask.prems(2) s by (auto simp: ideal_def split: if_splits)
  then have H1: "evolves env sd H H1" "rg ideal (evolves env sd) Q (k rep) H1"
    using Ask.prems(1) dyn.R_refl [OF evolves_good, of env sd H H1] by auto
  have "Q x H' \<and> good_history env sd H' \<and> evolves env sd H1 H'"
    by (rule Ask.IH [OF _ H1(2) ok(2) evolves_good [OF H1(1)]]) simp
  then show ?case using dyn.R_trans [OF H1(1)] by blast
qed simp

section \<open>The parts of a write\<close>

lemma alone_ask_item: "room (Suc n) H \<Longrightarrow> alone (ask_item c k) H = Some (Inr (map_of (cur H) k), H)"
  by (simp add: ask_item_def room_def)

lemma alone_now: "room (Suc n) H \<Longrightarrow> alone (now_rfc3339 env) H = Some (ch_to_rfc3339 (ce_chrono env) 0, H)"
  by (simp add: now_rfc3339_def ask_now_def room_def)

lemma alone_counter:
  assumes "room (Suc n) H" "log_at env sd (cur H) org es"
  shows "alone (read_counter (org_pk org)) H = Some (Inr (length es), H)"
  unfolding read_counter_def alone_rbind [OF alone_ask_item [OF assms(1)]] lift_result_def
  using assms(2) get_seq_counter [OF assms(2)] by (auto simp: log_at_def ok_or_def split: option.splits)

lemma alone_event_builder:
  assumes "room (Suc n) H" "revision < 2 ^ 64"
  obtains e where "alone (event_builder env org kind actor payload key kid at revision) H = Some ((e, ce_to_vec env payload), H)"
    "ev_seq e = revision"
proof -
  obtain e where e: "build_model_event env org kind actor payload key kid at revision ''01J'' = Some (e, ce_to_vec env payload)" "ev_seq e = revision"
    using build_model_event_Some [of "''01J''" revision env org kind actor payload key kid at] assms(2) by blast
  then show thesis using that assms(1) by (simp add: event_builder_def ask_ulid_def room_def)
qed

text \<open>The existing key of an organization, or a minted one.\<close>

lemma alone_existing_key:
  assumes "room (Suc n) H" "org_key sd (cur H) org = Some x"
  shows "alone (ensure_signing_key sd org) H = Some (Inr x, H)"
proof -
  obtain it pem key kid where it: "map_of (cur H) (org_pk org, SK_EVENT_SIGNING_KEY) = Some it" "get_s_opt it ''private_key_pem'' = Some pem"
      "get_s_opt it ''key_id'' = Some kid" "to_ok (sd_from_pkcs8_pem sd pem) = Some key" "x = (key, kid)"
    using assms(2) unfolding org_key_def bind_eq_Some_conv by auto
  then have "stored_signing_key sd it = Inr x"
    by (cases "sd_from_pkcs8_pem sd pem") (simp_all add: stored_signing_key_def get_s_def)
  then show ?thesis
    unfolding ensure_signing_key_def numeral_2_eq_2 ensure_key_loop.simps alone_rbind [OF alone_ask_item [OF assms(1)]]
    using it(1) by (simp add: lift_result_def)
qed

lemma alone_minted_key:
  assumes "room (Suc n) H" "map_of (cur H) (org_pk org, SK_EVENT_SIGNING_KEY) = None" "sd_from_pkcs8_pem sd ''PRIV'' = Inr key"
  obtains it where "alone (ensure_signing_key sd org) H =
    Some (Inr (key, EVENT_SIGNING_KEY_ID), hm_insert (org_pk org, SK_EVENT_SIGNING_KEY) it (cur H) # H)"
proof -
  obtain g where g: "generate_key_material (Inr ''PRIV'') (Inr ''PUB'') [] 0 = Inr g" "gk_private_key_pem g = ''PRIV''"
    by (simp add: generate_key_material_def)
  have material: "alone ask_key_material H = Some (Inr g, H)"
    using assms(1) g(1) by (simp add: ask_key_material_def ask_now_def room_def)
  have "alone (mint_signing_key sd org p g) H =
      Some (Inr (key, EVENT_SIGNING_KEY_ID), hm_insert (org_pk org, SK_EVENT_SIGNING_KEY) (signing_key_item org g) (cur H) # H)" for p
    using assms g(2) by (simp add: mint_signing_key_def signing_key_item_keys(5) room_def lift_result_def)
  then have "alone (ensure_signing_key sd org) H =
      Some (Inr (key, EVENT_SIGNING_KEY_ID), hm_insert (org_pk org, SK_EVENT_SIGNING_KEY) (signing_key_item org g) (cur H) # H)"
    unfolding ensure_signing_key_def numeral_2_eq_2 ensure_key_loop.simps alone_rbind [OF alone_ask_item [OF assms(1)]]
    by (simp add: assms(2) alone_rbind [OF material])
  then show thesis by (rule that)
qed

lemma next_event_absent:
  assumes "log_at env sd T org es" "length es < 2 ^ 64 - 1"
  shows "map_of T (org_pk org, event_sk (Suc (length es))) = None"
proof (rule ccontr)
  assume "map_of T (org_pk org, event_sk (Suc (length es))) \<noteq> None"
  then obtain i where "i < length es" "event_sk (Suc (length es)) = event_sk (Suc i)"
    using assms(1) unfolding log_at_def by (metis sort_keys_distinct(1))
  then show False using event_sk_inj [of "Suc (length es)" "Suc i"] assms(2) by simp
qed

lemma counter_update_enabled:
  "log_at env sd T org es \<Longrightarrow> cond_holds (tx_cond (counter_update (org_pk org) (length es) n)) (map_of T (org_pk org, SK_SEQ))"
  by (auto simp: log_at_def counter_update_def split: option.splits)

text \<open>With the right expected revision, or none, the first attempt of an append succeeds.\<close>

lemma alone_append:
  assumes "room (Suc n) H" and log: "log_at env sd (cur H) org es" and "sp_guard st = GuardNone"
    and "x = None \<or> x = Some (length es)"
  obtains H' where "alone (append_event env (org_pk org) x (event_builder env org kind actor payload key kid at) st) H =
    Some (Inr (Suc (length es)), H')" "\<exists>ws. H' = tx_commit ws (cur H) # H \<and> length ws = 3"
proof -
  have cap: "length es < 2 ^ 64 - 1" using log_length_bound [OF log] small_capacity assms(1) by (simp add: room_def)
  have rev: "(length es + 1) mod 2 ^ 64 = Suc (length es)" using cap by simp
  obtain e where e: "alone (event_builder env org kind actor payload key kid at (Suc (length es))) H = Some ((e, ce_to_vec env payload), H)"
      "ev_seq e = Suc (length es)"
    using alone_event_builder [OF assms(1), of "Suc (length es)"] cap by (metis Suc_lessI less_diff_conv Suc_eq_plus1)
  let ?ws = "[counter_update (org_pk org) (length es) (Suc (length es)), event_put env (org_pk org) e (ce_to_vec env payload), state_put_write st]"
  have "tx_enabled ?ws (cur H)"
    using counter_update_enabled [OF log, of "Suc (length es)"] next_event_absent [OF log cap] e(2) assms(3)
      item_keyI [OF stored_event_key [of env "org_pk org" e "ce_to_vec env payload"]]
    by (simp add: tx_enabled_def event_put_def state_put_write_def counter_update_def)
  then have tx: "alone (Ask (TransactWrite ?ws) k) H = alone (k ROk) (tx_commit ?ws (cur H) # H)" for k :: "reply \<Rightarrow> (cp_error, nat) result prog"
    using assms(1) by (simp add: room_def)
  have check: "check_expected_revision (length es) x = Inr ()" using assms(4) by (auto simp: check_expected_revision_def)
  have attempts: "MAX_APPEND_ATTEMPTS = Suc 49" by (simp add: MAX_APPEND_ATTEMPTS_def)
  have "alone (append_event env (org_pk org) x (event_builder env org kind actor payload key kid at) st) H =
      Some (Inr (Suc (length es)), tx_commit ?ws (cur H) # H)"
    unfolding append_event_def attempts append_loop.simps(2) alone_rbind [OF alone_counter [OF assms(1) log]]
      alone_lift [OF check] rev Let_def alone_bind [OF e(1)] prod.case tx reply.case by simp
  moreover have "\<exists>ws. tx_commit ?ws (cur H) # H = tx_commit ws (cur H) # H \<and> length ws = 3" by (intro exI [of _ ?ws]) simp
  ultimately show thesis by (rule that)
qed

text \<open>An organization can sign: it has a key, or it has none yet and a generated one is readable.\<close>

definition can_sign :: "('n, 'sk, 'vk) serde_lib \<Rightarrow> table \<Rightarrow> string \<Rightarrow> bool" where
  "can_sign sd T org \<longleftrightarrow> org_key sd T org \<noteq> None \<or>
     map_of T (org_pk org, SK_EVENT_SIGNING_KEY) = None \<and> is_ok (sd_from_pkcs8_pem sd ''PRIV'')"

lemma alone_key:
  assumes "room (Suc n) H" "can_sign sd (cur H) org"
  obtains key kid H1 where "alone (ensure_signing_key sd org) H = Some (Inr (key, kid), H1)" "room n H1"
    "map_of (cur H1) (org_pk org, SK_SEQ) = map_of (cur H) (org_pk org, SK_SEQ)" "length (cur H1) \<le> Suc (length (cur H))"
proof (cases "org_key sd (cur H) org")
  case (Some x)
  then show thesis using that [of "fst x" "snd x" H] alone_existing_key [OF assms(1) Some] room_mono [OF assms(1), of n] by simp
next
  case None
  then obtain key where "map_of (cur H) (org_pk org, SK_EVENT_SIGNING_KEY) = None" "sd_from_pkcs8_pem sd ''PRIV'' = Inr key"
    using assms(2) by (auto simp: can_sign_def is_ok_iff)
  from alone_minted_key [OF assms(1) this] obtain it where "alone (ensure_signing_key sd org) H =
      Some (Inr (key, EVENT_SIGNING_KEY_ID), hm_insert (org_pk org, SK_EVENT_SIGNING_KEY) it (cur H) # H)" by blast
  then show thesis using that assms(1) by (simp add: room_def cur_def hm_insert_lookup length_hm_insert)
qed

lemma log_length_counter:
  "log_at env sd T org es \<Longrightarrow> log_at env sd T' org es' \<Longrightarrow> map_of T (org_pk org, SK_SEQ) = map_of T' (org_pk org, SK_SEQ) \<Longrightarrow>
    length es = length es'"
  by (auto simp: log_at_def show_nat_inj split: option.splits)

lemma tx_commit_length: "length (tx_commit ws T) \<le> length T + length ws"
proof (induction ws arbitrary: T)
  case (Cons w ws)
  have "length (tx_apply w T) \<le> Suc (length T)" by (cases w) (simp_all add: length_hm_insert hm_remove_def le_SucI)
  then show ?case using Cons [of "tx_apply w T"] by (simp add: tx_commit_def)
qed (simp add: tx_commit_def)

lemma log_at_key: "log_at env sd T org es \<Longrightarrow> es \<noteq> [] \<Longrightarrow> org_key sd T org \<noteq> None"
  unfolding log_at_def event_ok_def by (metis last_in_set option.case(1))

section \<open>Progress\<close>

lemma alone_put_group:
  assumes "good_history env sd H" "room 10 H" and log: "log_at env sd (cur H) org es" and oid: "typed_id_new org = Inr oid"
    and new: "replay es (MGroup (re_name entry)) = None" and "x = None \<or> x = Some (length es)" "can_sign sd (cur H) org"
  obtains H1 H' where "alone (dyn_put_group env sd org entry actor x) H = Some (Inr (GroupApplied (Suc (length es))), H')"
    "good_history env sd H1" "H' = cur H' # H1" "length (cur H') \<le> length (cur H) + 4"
    "\<exists>es1. log_at env sd (cur H1) org es1 \<and> length es1 = length es"
proof -
  have "model_sk (MGroup (re_name entry)) = Some (group_sk (re_name entry))" "model_key_ok (MGroup (re_name entry))"
    by (simp_all add: model_key_ok_def)
  then have "item_shows env (MGroup (re_name entry)) None (map_of (cur H) (org_pk org, group_sk (re_name entry)))"
    using log new unfolding log_at_def by metis
  then have item: "map_of (cur H) (org_pk org, group_sk (re_name entry)) = None" by (simp add: item_shows_def)
  have sid: "seg_str oid = org" using oid by (auto simp: typed_id_new_def segment_try_new_Inr_iff)
  have room: "room (Suc 9) H" using assms(2) by simp
  obtain key kid H1 where k: "alone (ensure_signing_key sd org) H = Some (Inr (key, kid), H1)" "room 9 H1"
      "map_of (cur H1) (org_pk org, SK_SEQ) = map_of (cur H) (org_pk org, SK_SEQ)" "length (cur H1) \<le> Suc (length (cur H))"
    by (rule alone_key [OF room assms(7)])
  have good: "good_history env sd H1"
    using rg_alone [OF rg_ensure_signing_key [OF ideal_laws assms(1)] k(1) assms(1)] by blast
  obtain es1 where es1: "log_at env sd (cur H1) org es1" using current_log [OF good] by blast
  have len: "length es1 = length es" by (rule log_length_counter [OF es1 log k(3)])
  have room1: "room (Suc 8) H1" using k(2) by simp
  note sd_now = alone_now [OF room1, of env]
  define st where "st = \<lparr>sp_pk = org_pk (seg_str oid), sp_sk = group_sk (re_name entry), sp_attributes = without_keys
      (to_group_item env oid (eg_entry (etaged_group_compute (ce_json env) entry)) (etag_str (eg_etag (etaged_group_compute (ce_json env) entry)))),
      sp_guard = GuardNone\<rparr>"
  have st: "sp_guard st = GuardNone" "x = None \<or> x = Some (length es1)" using assms(6) len by (simp_all add: st_def)
  obtain H' where
    a: "alone (append_event env (org_pk org) x (event_builder env org GroupPut actor (group_put_payload (re_name entry) (rbac_entry_json entry))
        key kid (ch_to_rfc3339 (ce_chrono env) 0)) st) H1 = Some (Inr (Suc (length es1)), H')"
      "\<exists>ws. H' = tx_commit ws (cur H1) # H1 \<and> length ws = 3"
    by (rule alone_append [OF room1 es1 st])
  have "alone (dyn_put_group env sd org entry actor x) H = Some (Inr (GroupApplied (Suc (length es))), H')"
    unfolding dyn_put_group_def get_group_item_def oid map_err_simps alone_lift [OF refl] sid
      alone_rbind [OF alone_ask_item [OF room]] item option.case decide_upsert_def upsert_decision.case
      alone_rbind [OF k(1)] prod.case alone_bind [OF sd_now] Let_def
    using alone_rbind [OF a(1), where f = "\<lambda>revision. Ret (Inr (GroupApplied revision))"] len by (simp add: st_def sid)
  moreover have "length (cur H') \<le> length (cur H) + 4"
  proof -
    obtain ws where "H' = tx_commit ws (cur H1) # H1" "length ws = 3" using a(2) by blast
    then show ?thesis using k(4) tx_commit_length [of ws "cur H1"] by (simp add: cur_def)
  qed
  moreover have "H' = cur H' # H1" using a(2) by (auto simp: cur_def)
  ultimately show thesis using that good es1 len by blast
qed

text \<open>An event after the end of the log of the last version is in the newest version.\<close>

lemma recorded_newest:
  assumes "good_history env sd H" "log_at env sd (cur H) org es" "recorded env sd (T # H) org x (Suc (length es)) P"
  obtains es' e where "log_at env sd T org (es' @ [e])" "length es' = length es" "P e"
proof -
  obtain T' es' e where T': "T' \<in> set (T # H)" "log_at env sd T' org (es' @ [e])" "Suc (length es) = Suc (length es')" "P e"
    using assms(3) unfolding recorded_def by blast
  have "T' \<notin> set H"
    using log_extends [OF version_grows [OF assms(1)] T'(2) assms(2), of "length es'"] T'(3) by auto
  then show thesis using that T' by auto
qed

lemma put_group_progress:
  assumes "good_history env sd H" "room 10 H" "log_at env sd (cur H) org es" "typed_id_new org = Inr oid"
    and "replay es (MGroup (re_name entry)) = None" "x = None \<or> x = Some (length es)" "can_sign sd (cur H) org"
  obtains H' es' e where "alone (dyn_put_group env sd org entry actor x) H = Some (Inr (GroupApplied (Suc (length es))), H')"
    "log_at env sd (cur H') org (es' @ [e])" "length es' = length es"
    "is_event GroupPut actor (group_put_payload (re_name entry) (rbac_entry_json entry)) e" "length (cur H') \<le> length (cur H) + 4"
    "good_history env sd H'"
proof -
  obtain H1 H' where run: "alone (dyn_put_group env sd org entry actor x) H = Some (Inr (GroupApplied (Suc (length es))), H')"
      "good_history env sd H1" "H' = cur H' # H1" "length (cur H') \<le> length (cur H) + 4"
      "\<exists>es1. log_at env sd (cur H1) org es1 \<and> length es1 = length es"
    by (rule alone_put_group [OF assms])
  note post = rg_alone [OF rg_put_group [OF ideal_laws assms(1)] run(1) assms(1)]
  then have "recorded env sd H' org x (Suc (length es)) (is_event GroupPut actor (group_put_payload (re_name entry) (rbac_entry_json entry)))"
    by simp
  then obtain es' e where "log_at env sd (cur H') org (es' @ [e])" "length es' = length es"
      "is_event GroupPut actor (group_put_payload (re_name entry) (rbac_entry_json entry)) e"
    using recorded_newest [OF run(2)] run(3,5) by metis
  then show thesis using that run(1,4) post by blast
qed


section \<open>Example runs\<close>

instance json :: (countable) countable
  by countable_datatype

definition ex_encode :: "nat json \<Rightarrow> string" where
  "ex_encode v = show_nat (to_nat v)"

definition ex_store_env :: "(nat, unit, unit, unit) cp_env" where
  "ex_store_env = ex_dyn_env\<lparr>ce_json := \<lparr>jl_to_string = ex_encode, jl_xxh64 = (\<lambda>_. 0)\<rparr>\<rparr>"

definition ex_store_serde :: "(nat, unit, unit) serde_lib" where
  "ex_store_serde = ex_serde\<lparr>sd_from_str := (\<lambda>s. Inr (from_nat (read_nat s)))\<rparr>"

lemma ex_serde_laws: "serde_laws ex_store_env ex_store_serde"
  by (simp add: serde_laws_def reads_value_def ex_store_env_def ex_store_serde_def ex_encode_def read_show_nat)

definition ex_group :: "string \<Rightarrow> rbac_entry" where
  "ex_group n = \<lparr>re_name = n, re_description = None, re_inherits = [], re_allow = [], re_tenant_scoped = False\<rparr>"

lemma ex_org_id: "typed_id_new ''acme'' = Inr (Segment ''acme'')"
  by code_simp

lemma ex_good: "good_history ex_store_env ex_store_serde [[]]"
  by (simp add: table_inv_Nil)

lemma ex_can_sign: "can_sign ex_store_serde [] org"
  by (simp add: can_sign_def ex_store_serde_def ex_serde_def)

definition ex_put :: "string \<Rightarrow> nat option \<Rightarrow> nat dyn_call" where
  "ex_put n x = PutGroup ''acme'' (ex_group n) ActorSystem x"

lemma group_put_replay:
  assumes "is_event GroupPut actor (group_put_payload n d) e" "m \<noteq> n"
  shows "replay (es @ [e]) (MGroup m) = replay es (MGroup m)"
  using assms writes_group_put [of n d] by (auto simp: replay_snoc write_event_def writes_def is_event_def)


text \<open>Two calls that put different groups, one after the other; each expects the revision it sees.\<close>

lemma ex_two_puts:
  "\<exists>H. runs_to ideal ex_store_env ex_store_serde [ex_put ''a'' (Some 0), ex_put ''b'' (Some 1)]
    [Ret (Wrote (Inr (Some 1))), Ret (Wrote (Inr (Some 2)))] H"
proof -
  let ?put = "\<lambda>n x. dyn_put_group ex_store_env ex_store_serde ''acme'' (ex_group n) ActorSystem x"
  let ?call = "\<lambda>n x. run_call ex_store_env ex_store_serde (ex_put n x)"
  have call: "alone (?call n x) H = Some (Wrote (Inr (Some r)), H')" if "alone (?put n x) H = Some (Inr (GroupApplied r), H')" for n x r H H'
    unfolding ex_put_def run_call.simps pmap_def alone_bind [OF that] by simp
  have first: "room 10 [[]]" "log_at ex_store_env ex_store_serde (cur [[]]) ''acme'' []" "Some (0 :: nat) = None \<or> Some 0 = Some (length ([] :: nat event_envelope list))"
      "replay [] (MGroup (re_name (ex_group ''a''))) = None" "can_sign ex_store_serde (cur [[]]) ''acme''"
    using ex_can_sign by (simp_all add: room_def cur_def replay_def)
  obtain H1 es e where 1: "alone (?put ''a'' (Some 0)) [[]] = Some (Inr (GroupApplied (Suc (length ([] :: nat event_envelope list)))), H1)"
      "log_at ex_store_env ex_store_serde (cur H1) ''acme'' (es @ [e])" "length es = length ([] :: nat event_envelope list)"
      "is_event GroupPut ActorSystem (group_put_payload (re_name (ex_group ''a'')) (rbac_entry_json (ex_group ''a''))) e"
      "length (cur H1) \<le> length (cur [[]]) + 4" "good_history ex_store_env ex_store_serde H1"
    by (rule put_group_progress [where actor = ActorSystem, OF ex_good first(1,2) ex_org_id first(4,3,5)])
  have "org_key ex_store_serde (cur H1) ''acme'' \<noteq> None" using log_at_key [OF 1(2)] by simp
  then have second: "room 10 H1" "Some (1 :: nat) = None \<or> Some 1 = Some (length (es @ [e]))" "can_sign ex_store_serde (cur H1) ''acme''"
      "replay (es @ [e]) (MGroup (re_name (ex_group ''b''))) = None"
    using 1(3,5,6) group_put_replay [OF 1(4), of "''b''" "[]"] by (auto simp: room_def cur_def can_sign_def ex_group_def replay_def)
  obtain H2 where 2: "alone (?put ''b'' (Some 1)) H1 = Some (Inr (GroupApplied (Suc (length (es @ [e])))), H2)"
    by (rule put_group_progress [where actor = ActorSystem, OF 1(6) second(1) 1(2) ex_org_id second(4,2,3)])
  let ?ps = "map (run_call ex_store_env ex_store_serde) [ex_put ''a'' (Some 0), ex_put ''b'' (Some 1)]"
  have "(pool_step ideal)\<^sup>*\<^sup>* (?ps, [[]]) (?ps[0 := Ret (Wrote (Inr (Some 1)))], H1)"
    by (rule alone_steps [OF call]) (use 1(1) in simp_all)
  moreover have "(pool_step ideal)\<^sup>*\<^sup>* (?ps[0 := Ret (Wrote (Inr (Some 1)))], H1)
      (?ps[0 := Ret (Wrote (Inr (Some 1))), 1 := Ret (Wrote (Inr (Some 2)))], H2)"
    by (rule alone_steps [OF call]) (use 2 1(3) in simp_all)
  ultimately show ?thesis unfolding runs_to_def by (auto simp: ex_put_def intro: rtranclp_trans)
qed

lemma ex_distinct_writes: "\<not> same_write ex_store_env (ex_put ''a'' x) (ex_put ''b'' y)"
  by (auto simp: same_write_def ex_put_def is_event_def same_event_def group_put_payload_def ex_group_def)

theorem dynamo_log_invariant_witness:
  "\<exists>ps H. Ret (Wrote (Inr (Some 2))) \<in> set ps \<and> Crash \<notin> set ps \<and> (\<forall>T \<in> set H. table_inv ex_store_env ex_store_serde T \<and> grows T (cur H))"
proof -
  obtain H where "runs_to ideal ex_store_env ex_store_serde [ex_put ''a'' (Some 0), ex_put ''b'' (Some 1)]
      [Ret (Wrote (Inr (Some 1))), Ret (Wrote (Inr (Some 2)))] H" using ex_two_puts by blast
  from dynamo_log_invariant [OF ideal_laws ex_serde_laws this] show ?thesis
    by (intro exI [of _ "[Ret (Wrote (Inr (Some 1))), Ret (Wrote (Inr (Some 2)))]"] exI [of _ H]) simp
qed

theorem dynamo_write_recorded_witness:
  "\<exists>T es e. log_at ex_store_env ex_store_serde T ''acme'' (es @ [e]) \<and> length es = 1 \<and> call_event ex_store_env (ex_put ''b'' (Some 1)) e"
proof -
  obtain H where "runs_to ideal ex_store_env ex_store_serde [ex_put ''a'' (Some 0), ex_put ''b'' (Some 1)]
      [Ret (Wrote (Inr (Some 1))), Ret (Wrote (Inr (Some 2)))] H" using ex_two_puts by blast
  from dynamo_write_recorded [OF ideal_laws ex_serde_laws this, of 1 2] obtain T es e where
    "log_at ex_store_env ex_store_serde T ''acme'' (es @ [e])" "2 = Suc (length es)" "call_event ex_store_env (ex_put ''b'' (Some 1)) e"
    by (auto simp: ex_put_def)
  then show ?thesis by (intro exI [of _ T] exI [of _ es] exI [of _ e]) simp
qed



end
