(* ===== verification/Dynamo_Races.thy ===== *)
theory Dynamo_Races
  imports Dynamo_Live
begin

text \<open>
  What is lost between a read and the transaction that rests on it: an update of an organization carries the
  signing keys it read before, and has no precondition on them.
\<close>

section \<open>Partial runs\<close>

lemma pbind_assoc: "pbind (pbind p f) g = pbind p (\<lambda>x. pbind (f x) g)"
  by (induction p) simp_all

lemma pbind_rbind: "pbind (rbind p f) g = pbind p (\<lambda>r. case r of Inl e \<Rightarrow> g (Inl e) | Inr x \<Rightarrow> pbind (f x) g)"
proof -
  have "pbind (case r of Inl e \<Rightarrow> Ret (Inl e) | Inr x \<Rightarrow> f x) g = (case r of Inl e \<Rightarrow> g (Inl e) | Inr x \<Rightarrow> pbind (f x) g)" for r
    by (cases r) simp_all
  then show ?thesis unfolding rbind_def pbind_assoc by simp
qed

text \<open>A program runs to the end of its first part.\<close>

lemma part_steps:
  "alone p H = Some (x, H') \<Longrightarrow> i < length ps \<Longrightarrow> ps ! i = pbind p f \<Longrightarrow> (pool_step ideal)\<^sup>*\<^sup>* (ps, H) (ps[i := f x], H')"
proof (induction p arbitrary: ps H)
  case (Ret y)
  then have "ps[i := f x] = ps" by (metis Pair_inject alone.simps(1) list_update_id option.inject pbind.simps(1))
  then show ?case using Ret by simp
next
  case (Ask r k)
  obtain rep H1 where s: "serve H r = (rep, H1)" by (cases "serve H r")
  have ok: "H \<noteq> []" "length (cur H) < 1000" "alone (k rep) H1 = Some (x, H')"
    using Ask.prems(1) s by (auto split: if_splits)
  have "pool_step ideal (ps, H) (ps[i := pbind (k rep) f], H1)"
    using Ask.prems ok s by (intro pool_step.intros) (simp_all add: ideal_def)
  moreover have "(pool_step ideal)\<^sup>*\<^sup>* (ps[i := pbind (k rep) f], H1) ((ps[i := pbind (k rep) f])[i := f x], H')"
    by (rule Ask.IH [OF _ ok(3)]) (use Ask.prems in simp_all)
  ultimately show ?case by (simp add: converse_rtranclp_into_rtranclp)
qed simp

section \<open>A revocation alone\<close>

lemma alone_latest:
  assumes "room (Suc n) H" "log_at env sd (cur H) org es"
  shows "alone (dyn_latest_revision sd org) H = Some (Inr (length es), H)"
  unfolding dyn_latest_revision_def log_latest_def pbind_assoc alone_bind [OF alone_counter [OF assms]] by simp

lemma alone_revoke:
  assumes room: "room (Suc n) H" and log: "log_at env sd (cur H) org es" and key: "org_key sd (cur H) org = Some (key, kid)"
    and it: "map_of (cur H) (org_pk org, SK_META) = Some it" "from_item (ce_chrono env) sd it = Inr rd" "signing_keys_from_item sd it = Inr ks"
    and "revoke_entries ks target = Some ks'"
  obtains H' where "alone (dyn_revoke_org_key env sd org target actor) H = Some (Inr (Some (Suc (length es))), H')"
    "\<exists>ws. H' = tx_commit ws (cur H) # H \<and> length ws = 3"
proof -
  define st where "st = org_state_put env org rd ks' GuardNone"
  have st: "sp_guard st = GuardNone" "Some (length es) = None \<or> Some (length es) = Some (length es)" by (simp_all add: st_def org_state_put_def)
  obtain H' where a: "alone (append_event env (org_pk org) (Some (length es)) (event_builder env org OrgKeyRevoked actor
        (key_event_payload target (signing_keys_json (ce_chrono env) ks')) key kid (ch_to_rfc3339 (ce_chrono env) 0)) st) H =
      Some (Inr (Suc (length es)), H')" "\<exists>ws. H' = tx_commit ws (cur H) # H \<and> length ws = 3"
    by (rule alone_append [OF room log st])
  have attempts: "MAX_KEY_APPEND_ATTEMPTS = Suc 2" by (simp add: MAX_KEY_APPEND_ATTEMPTS_def)
  have change: "and_then (signing_keys_from_item sd it) (revoke_key_transition target) = Inr (Some (target, ks'))"
    using it(3) assms(7) by (simp add: revoke_key_transition_def)
  have "alone (dyn_revoke_org_key env sd org target actor) H = Some (Inr (Some (Suc (length es))), H')"
    unfolding dyn_revoke_org_key_def dyn_append_org_keys_def attempts org_keys_loop.simps get_raw_org_item_def
      alone_rbind [OF alone_ask_item [OF room]] it(1) ok_or_simps alone_lift [OF refl] alone_lift [OF it(2)] alone_lift [OF change]
      option.case prod.case alone_rbind [OF alone_existing_key [OF room key]] alone_bind [OF alone_now [OF room]]
      alone_rbind [OF alone_latest [OF room log]] alone_bind [OF a(1) [unfolded st_def]]
    by simp
  then show thesis using that a(2) by blast
qed

section \<open>A lost revocation\<close>

lemma landed_newest:
  assumes "good_history env sd H" "log_at env sd (cur H) org es" "landed env sd (T # H) org x (Suc (length es)) P w"
  shows "map_of T (tx_key w) = (case w of TxPut it c \<Rightarrow> Some it | _ \<Rightarrow> None)"
proof -
  obtain T' es' e where T': "T' \<in> set (T # H)" "log_at env sd T' org (es' @ [e])" "Suc (length es) = Suc (length es')"
      "map_of T' (tx_key w) = (case w of TxPut it c \<Rightarrow> Some it | _ \<Rightarrow> None)"
    using assms(3) unfolding landed_def by blast
  have "T' \<notin> set H"
    using log_extends [OF version_grows [OF assms(1)] T'(2) assms(2), of "length es'"] T'(3) by auto
  then show ?thesis using T' by auto
qed

lemma org_state_put_keys:
  assumes "state_put_write (org_state_put env org rd ks g) = TxPut it c" "ks \<noteq> []" "reads_keys env sd ks"
  shows "item_key it = (org_pk org, SK_META)" "signing_keys_from_item sd it = Inr ks"
proof -
  note a = state_put_write_keys [OF assms(1)]
  show "item_key it = (org_pk org, SK_META)" using a(1,2) by (simp add: item_keyI org_state_put_def)
  have "get_s_opt it ''signing_keys'' = Some (ce_to_vec env (signing_keys_json (ce_chrono env) ks))"
    using a(3) [of "''signing_keys''"] assms(2)
    by (simp add: org_state_put_def get_s_opt_without_keys to_item_attributes key_defs)
  then show "signing_keys_from_item sd it = Inr ks" using assms(3) by (simp add: signing_keys_from_item_def reads_keys_def)
qed

text \<open>The part of an update before its transaction: it reads the key, the clock and the item.\<close>

lemma update_reads:
  assumes room: "room (Suc n) H" and key: "org_key sd (cur H) org = Some (key, kid)" and org: "seg_str (o_id (or_org rd)) = org"
    and it: "map_of (cur H) (org_pk org, SK_META) = Some it" "signing_keys_from_item sd it = Inr ks"
    and p: "i < length ps" "ps ! i = pbind (dyn_update_org env sd rd actor None) G"
  shows "(pool_step ideal)\<^sup>*\<^sup>* (ps, H) (ps[i := pbind (append_event env (org_pk org) None
      (event_builder env org OrgUpdated actor (org_payload (ce_chrono env) rd) key kid (ch_to_rfc3339 (ce_chrono env) 0))
      (org_state_put env org rd ks GuardNone)) G], H)"
proof -
  note unfold = dyn_update_org_def dyn_append_org_state_def Let_def org get_raw_org_item_def pbind_rbind
  note step1 = part_steps [OF alone_existing_key [OF room key] p(1) p(2) [unfolded unfold], unfolded sum.case prod.case pbind_assoc]
  note step2 = part_steps [OF alone_now [OF room], of i "ps[i := q]" for q, OF _ nth_list_update_eq [OF p(1)],
      unfolded length_list_update list_update_overwrite, OF p(1)]
  note step3 = part_steps [OF alone_ask_item [OF room], of i "ps[i := q]" for q, OF _ nth_list_update_eq [OF p(1)],
      unfolded length_list_update list_update_overwrite, OF p(1)]
  show ?thesis
    by (rule rtranclp_trans [OF step1], rule rtranclp_trans [OF step2], unfold pbind_rbind, rule rtranclp_trans [OF step3])
      (simp add: it lift_result_def)
qed

lemma update_overwrites:
  assumes good: "good_history env sd H" and room: "room 10 H" and log: "log_at env sd (cur H) org es"
    and key: "org_key sd (cur H) org = Some (key, kid)" and keys: "ks \<noteq> []" "reads_keys env sd ks"
  obtains H' it' where "alone (append_event env (org_pk org) None (event_builder env org OrgUpdated actor
      (org_payload (ce_chrono env) rd) key kid at) (org_state_put env org rd ks GuardNone)) H = Some (Inr (Suc (length es)), H')"
    "map_of (cur H') (org_pk org, SK_META) = Some it'" "signing_keys_from_item sd it' = Inr ks"
proof -
  let ?st = "org_state_put env org rd ks GuardNone" and ?payload = "org_payload (ce_chrono env) rd"
  have r: "room (Suc 9) H" "sp_guard ?st = GuardNone" "None = None \<or> None = Some (length es)"
    using room by (simp_all add: org_state_put_def)
  obtain H' where a: "alone (append_event env (org_pk org) None (event_builder env org OrgUpdated actor ?payload key kid at) ?st) H =
      Some (Inr (Suc (length es)), H')" "\<exists>ws. H' = tx_commit ws (cur H) # H \<and> length ws = 3"
    by (rule alone_append [OF r(1) log r(2,3)])
  obtain it' c where w: "state_put_write ?st = TxPut it' c" by (simp add: state_put_write_def)
  have H': "H' = cur H' # H" using a(2) by (auto simp: cur_def)
  have "rg ideal (evolves env sd) (append_post env sd org None (is_event OrgUpdated actor ?payload) (state_put_write ?st))
      (append_event env (org_pk org) None (event_builder env org OrgUpdated actor ?payload key kid at) ?st) H"
    by (rule rg_append_event [OF ideal_laws writes_org state_write_org good key]) simp_all
  from rg_alone [OF this a(1) good]
  have "landed env sd (cur H' # H) org None (Suc (length es)) (is_event OrgUpdated actor ?payload) (TxPut it' c)"
    using H' by (simp add: append_post_def w)
  from landed_newest [OF good log this] show thesis using that a(1) org_state_put_keys [OF w keys] by simp
qed

text \<open>
  C13. An update of an organization can undo a revocation: an update without an expected revision that read the
  organization before a key was revoked and writes after it succeeds, both calls report success, and the
  stored keys are again the ones from before the revocation.
\<close>

theorem update_loses_revocation:
  assumes "good_history env sd H" "room 20 H" "log_at env sd (cur H) org es" "org_key sd (cur H) org = Some (key, kid)"
    and "map_of (cur H) (org_pk org, SK_META) = Some it" "from_item (ce_chrono env) sd it = Inr old" "signing_keys_from_item sd it = Inr ks"
    and "revoke_entries ks target = Some ks'" "reads_keys env sd ks" "seg_str (o_id (or_org rd)) = org"
  shows "\<exists>H' it'. (pool_step ideal)\<^sup>*\<^sup>*
      ([run_call env sd (UpdateOrg rd actor None), run_call env sd (RevokeOrgKey org target actor')], H)
      ([Ret (Wrote (Inr (Some (Suc (Suc (length es)))))), Ret (Wrote (Inr (Some (Suc (length es)))))], H') \<and>
    map_of (cur H') (org_pk org, SK_META) = Some it' \<and> signing_keys_from_item sd it' = Inr ks"
proof -
  let ?G = "\<lambda>r. Ret ((Wrote \<circ> applied) r) :: 'a dyn_result prog" and ?at = "ch_to_rfc3339 (ce_chrono env) 0"
  let ?append = "append_event env (org_pk org) None (event_builder env org OrgUpdated actor (org_payload (ce_chrono env) rd) key kid ?at)
      (org_state_put env org rd ks GuardNone)"
  let ?U = "run_call env sd (UpdateOrg rd actor None)" and ?R = "run_call env sd (RevokeOrgKey org target actor')"
  have room: "room (Suc 19) H" using assms(2) by simp
  have "[?U, ?R] ! 0 = pbind (dyn_update_org env sd rd actor None) ?G" by (simp add: pmap_def)
  from update_reads [OF room assms(4,10,5,7) _ this]
  have 1: "(pool_step ideal)\<^sup>*\<^sup>* ([?U, ?R], H) ([pbind ?append ?G, ?R], H)" by simp
  obtain H1 where revoke: "alone (dyn_revoke_org_key env sd org target actor') H = Some (Inr (Some (Suc (length es))), H1)"
      "\<exists>ws. H1 = tx_commit ws (cur H) # H \<and> length ws = 3"
    by (rule alone_revoke [OF room assms(3-8)])
  have "alone ?R H = Some (Wrote (Inr (Some (Suc (length es)))), H1)"
    unfolding run_call.simps pmap_def alone_bind [OF revoke(1)] by simp
  from alone_steps [OF this, of 1 "[pbind ?append ?G, ?R]"]
  have 2: "(pool_step ideal)\<^sup>*\<^sup>* ([pbind ?append ?G, ?R], H) ([pbind ?append ?G, Ret (Wrote (Inr (Some (Suc (length es)))))], H1)" by simp
  note post = rg_alone [OF rg_revoke_org_key [OF ideal_laws assms(1)] revoke(1) assms(1)]
  obtain ws where ws: "H1 = tx_commit ws (cur H) # H" "length ws = 3" using revoke(2) by blast
  have room1: "room 10 H1" using assms(2) ws tx_commit_length [of ws "cur H"] by (simp add: room_def cur_def)
  obtain es' e where es': "log_at env sd (cur H1) org (es' @ [e])" "length es' = length es"
  proof (rule recorded_newest [OF assms(1,3)])
    show "recorded env sd (cur H1 # H) org None (Suc (length es)) (by_actor OrgKeyRevoked actor')" using post ws(1) by (simp add: cur_def)
  qed
  have key1: "org_key sd (cur H1) org = Some (key, kid)" using org_key_stable [OF evolves_grows assms(4)] post by blast
  have ks: "ks \<noteq> []" using assms(8) by (auto simp: revoke_entries_def)
  obtain H2 it' where update: "alone ?append H1 = Some (Inr (Suc (length (es' @ [e]))), H2)"
      "map_of (cur H2) (org_pk org, SK_META) = Some it'" "signing_keys_from_item sd it' = Inr ks"
    by (rule update_overwrites [OF conjunct1 [OF conjunct2 [OF post]] room1 es'(1) key1 ks assms(9)])
  from part_steps [OF update(1), of 0 "[pbind ?append ?G, Ret (Wrote (Inr (Some (Suc (length es)))))]" ?G]
  have "(pool_step ideal)\<^sup>*\<^sup>* ([pbind ?append ?G, Ret (Wrote (Inr (Some (Suc (length es)))))], H1)
      ([Ret (Wrote (Inr (Some (Suc (Suc (length es)))))), Ret (Wrote (Inr (Some (Suc (length es)))))], H2)" using es'(2) by simp
  with 1 2 have "(pool_step ideal)\<^sup>*\<^sup>* ([?U, ?R], H)
      ([Ret (Wrote (Inr (Some (Suc (Suc (length es)))))), Ret (Wrote (Inr (Some (Suc (length es)))))], H2)" by (meson rtranclp_trans)
  then show ?thesis using update(2,3) by blast
qed

text \<open>A table with one organization that has a key, and its event-signing key.\<close>

lemma meta_inv:
  assumes "map_of it pk = Some (AttrS (org_pk org))" "map_of it sk = Some (AttrS SK_META)"
  shows "table_inv env sd [((org_pk org, SK_META), it)]"
proof -
  have "log_at env sd [((org_pk org, SK_META), it)] o' []" for o'
    unfolding log_at_def using model_sk_distinct(3) by (auto simp: replay_def item_shows_def)
  then show ?thesis using assms unfolding table_inv_def keyed_def by (auto split: if_splits)
qed

definition ex_meta :: item where
  "ex_meta = to_item ex_dyn_env (or_org ex_org_record) None [ex_key ''k1'']"

definition ex_minted :: generate_key_result where
  "ex_minted = \<lparr>gk_key_id = ''e'', gk_private_key_pem = ''PRIV'', gk_public_key_pem = ''PUB'', gk_created_at = 0\<rparr>"

definition ex_table :: table where
  "ex_table = hm_insert (org_pk ''acme'', SK_EVENT_SIGNING_KEY) (signing_key_item ''acme'' ex_minted) [((org_pk ''acme'', SK_META), ex_meta)]"

lemma ex_table_inv: "table_inv ex_dyn_env ex_serde ex_table"
proof -
  have "table_inv ex_dyn_env ex_serde [((org_pk ''acme'', SK_META), ex_meta)]" by (rule meta_inv) code_simp+
  from put_key_inv [OF this _ ex_table_def signing_key_item_keys(1,2)] show ?thesis by simp
qed

theorem update_loses_revocation_witness:
  "\<exists>H' it'. (pool_step ideal)\<^sup>*\<^sup>*
      ([run_call ex_dyn_env ex_serde (UpdateOrg ex_org_record ActorSystem None), run_call ex_dyn_env ex_serde (RevokeOrgKey ''acme'' ''k1'' ActorSystem)], [ex_table])
      ([Ret (Wrote (Inr (Some 2))), Ret (Wrote (Inr (Some 1)))], H') \<and>
    map_of (cur H') (org_pk ''acme'', SK_META) = Some it' \<and> signing_keys_from_item ex_serde it' = Inr [ex_key ''k1'']"
proof -
  have good: "good_history ex_dyn_env ex_serde [ex_table]" using ex_table_inv by simp
  have log: "log_at ex_dyn_env ex_serde (cur [ex_table]) ''acme'' []"
  proof -
    obtain es where "log_at ex_dyn_env ex_serde ex_table ''acme'' es" using ex_table_inv by (auto simp: table_inv_def)
    moreover from this have "es = []" by (auto simp: log_at_def ex_table_def hm_insert_lookup)
    ultimately show ?thesis by (simp add: cur_def)
  qed
  have "org_key ex_serde (cur [ex_table]) ''acme'' = Some ((), EVENT_SIGNING_KEY_ID)" "room 20 [ex_table]"
    "map_of (cur [ex_table]) (org_pk ''acme'', SK_META) = Some ex_meta" "from_item (ce_chrono ex_dyn_env) ex_serde ex_meta = Inr ex_org_record"
    "signing_keys_from_item ex_serde ex_meta = Inr [ex_key ''k1'']" "revoke_entries [ex_key ''k1''] ''k1'' = Some [key_revoke (ex_key ''k1'')]"
    "reads_keys ex_dyn_env ex_serde [ex_key ''k1'']" "seg_str (o_id (or_org ex_org_record)) = ''acme''"
    by (code_simp | simp add: room_def)+
  note facts = this
  from update_loses_revocation [OF good facts(2) log facts(1,3-8)] show ?thesis by (simp add: numeral_2_eq_2)
qed

end
