(* ===== verification/Spec2Isabelle.thy ===== *)
theory Spec2Isabelle
  imports Hierarchy Feature_Flags Jwt_Authn Axum_Guard Cp_Engine Dynamo_Races
begin

text \<open>
  Verification of ForgeGuard, an authorization platform: a policy model with organizations, principals and
  grants, an identity proxy that authenticates and authorizes HTTP requests, an embedding library for axum
  applications, and a control plane that stores organizations as signed event logs.

  \<^bold>\<open>How the parts interact.\<close> A request reaches the proxy pipeline or the axum guard. Its credential is
  resolved to an identity by a chain of resolvers (API keys, JWTs, signed requests), the route matcher maps
  method and path to an action and a resource, and a policy engine decides. The engine is the static one, the
  embedded Cedar engine over the entity store and a compiled snapshot, or the control plane's own Cedar
  engine. The decision and the identity are projected into signed headers for the application. The control
  plane writes organizations, signing keys, groups, principals and promotions through one event store, in
  memory or in DynamoDB; the state it serves is the fold of the log.

  \<^bold>\<open>Conventions.\<close> A Rust \<open>String\<close> is the list of its UTF-8 bytes. \<open>Result\<close> is a sum with the error on the left;
  \<open>outcome\<close> adds \<open>None\<close> for a panic. A \<open>HashMap\<close> is an association list with distinct keys whose order is
  arbitrary, a \<open>BTreeMap\<close> a sorted one. \<open>u64\<close> is a 64-bit word where arithmetic matters. Code outside the
  repository (Cedar, matchit, Ed25519, JWT and HTTP libraries, chrono, serde, DynamoDB) is an argument of the
  definitions that call it, with its documented behaviour as a named predicate such as \<open>crypto_laws\<close>. Each
  theorem with such a hypothesis has a witness with concrete functions.

  \<^bold>\<open>Theories, in dependency order.\<close>
  \<^item> \<open>Prelude\<close>: strings, results, hash maps and the generic lemmas on them;
    \<open>map_contract\<close>
  \<^item> \<open>Names, Rust_Text, Json\<close>: \<open>core/src/segment.rs\<close>, \<open>native_id.rs\<close>,
    \<open>verb.rs\<close>, \<open>cedar_ident.rs\<close>; characters, slicing and integers of \<open>str\<close>;
    JSON values. Accepted names are exactly the documented grammar.
  \<^item> \<open>Fgrn\<close>: \<open>core/src/fgrn.rs\<close>: parsing and printing are inverse
  \<^item> \<open>Graphs, Spine, Principal_Sets, Hierarchy\<close>: \<open>spine.rs\<close>,
    \<open>principal_set.rs\<close>, \<open>grant.rs\<close>, \<open>delegation.rs\<close>,
    \<open>visibility.rs\<close>, \<open>selector.rs\<close> and what they use. The spine stays a tree; reparenting
    rejects exactly the cycles; effective verbs are the intersection along a delegation; visibility and selectors
    agree with reachability on the spine.
  \<^item> \<open>Actions, Cedar_Compile, Rbac\<close>: \<open>action.rs\<close>, \<open>vp_fgrn.rs\<close>,
    \<open>permission.rs\<close>, \<open>cedar/compile.rs\<close>, \<open>authz-core/src/rbac\<close>. Cycle detection
    is exact, the compiled text determines the role, inheritance resolution returns.
  \<^item> \<open>Feature_Flags\<close>: \<open>features/mod.rs\<close>, \<open>percentage.rs\<close>: both evaluators
    agree, rollout is monotone
  \<^item> \<open>Org_Lifecycle\<close>: \<open>org.rs\<close>: the status machine; deletion is irreversible
  \<^item> \<open>Event_Log\<close>: \<open>authz-core/src/event\<close>: the fold refines the replay of writes,
    canonical bytes determine the event
  \<^item> \<open>Authz_Store, Snapshots, Cedar_Engine, Cp_Engine\<close>: \<open>authz-core/src/store\<close>,
    \<open>snapshot\<close>, \<open>cp_model.rs\<close>, \<open>engine_cedar\<close>, \<open>engine_cp\<close>. Slices
    hold what a decision needs, a delegated decision is the intersection of its links and can be replayed at its
    revision, the control plane separates tenants.
  \<^item> \<open>Authn_Core, Signing, Jwt_Authn\<close>: \<open>authn-core\<close> and \<open>authn\<close>: a
    resolved identity rests on a valid key, token or signature within the drift; a signed request of the client
    verifies
  \<^item> \<open>Http_Routing, Proxy_Tenant, Policy_Query, Proxy_Pipeline\<close>: \<open>http/src\<close>,
    \<open>proxy-core/src\<close>, queries and static engine: routing is exact and a request is forwarded only when
    public, or authenticated and allowed
  \<^item> \<open>Axum_Guard\<close>: \<open>lib/forgeguard-axum\<close>: a client cannot smuggle protected headers;
    the row-level-security session gives exactly the scope and the grants of the decision
  \<^item> \<open>Key_Ring, Org_Store, Event_Store\<close>: \<open>control-plane/src/signing_key.rs\<close>,
    \<open>store\<close>, \<open>etag.rs\<close>, \<open>config.rs\<close>,
    \<open>model_event_store/in_memory.rs\<close>. A revoked key is never accepted again, the store is the fold of its
    log, history is immutable and signed, and the read model mirrors the event store.
  \<^item> \<open>Dynamo_Items\<close>: the items of \<open>dynamo_store/mod.rs\<close>,
    \<open>handlers/groups/codec.rs\<close>, \<open>event_log.rs\<close>, \<open>promotion_store.rs\<close> and
    \<open>membership_store.rs\<close>: organizations, groups and events survive their items, and the queried range of
    sort keys holds the right events
  \<^item> \<open>Dynamo_Table, Dynamo_Log, Dynamo_Store\<close>: programs that talk to a table, the event log of
    \<open>event_log.rs\<close> and every operation of \<open>model_event_store/mod.rs\<close> and
    \<open>groups.rs\<close>. The state is the history of the table; \<open>documented\<close> is what DynamoDB
    promises. Each operation keeps the invariant of the table whatever runs between its requests, and a revision it
    returns is that of its own event.
  \<^item> \<open>Dynamo_Fold, Dynamo_Pool\<close>: the folding read, and all calls at once: the invariant holds after
    any interleaving with failures, writes with the same expected revision have one winner, and a fold that returns is
    a prefix of the log
  \<^item> \<open>Dynamo_Live, Dynamo_Races\<close>: an undisturbed write returns and is recorded; an update that
    overlaps a revocation undoes it

  \<^bold>\<open>Interfaces.\<close> \<open>map_contract\<close> is what clients use of a map (interpreted for hash maps and B-tree maps);
  \<open>validated_string\<close> is the newtype pattern of the names; \<open>identity_resolver\<close> the resolver trait (API keys, JWT,
  Ed25519); \<open>tenant_extractor\<close> the extractor trait, with the extractors and their chain; \<open>authz_store\<close> the
  versioned store interface, with the in-memory store as provider. \<open>interference\<close> is the relation
  inside which concurrent calls stay, interpreted for the histories of the DynamoDB table.

  \<^bold>\<open>Bounds and fuel.\<close> Every loop is a total function. Walks over parent links and set memberships carry a visited
  set or run at most as many rounds as there are nodes, and the lemmas of \<open>Spine\<close>, \<open>Principal_Sets\<close>,
  \<open>Rbac\<close> and \<open>Cedar_Compile\<close> show that this is enough. The append loop makes \<open>MAX_APPEND_ATTEMPTS\<close>
  attempts and the key loop \<open>MAX_KEY_APPEND_ATTEMPTS\<close>, as in the code. \<open>ensure_signing_key\<close> calls itself after a lost
  race: depth two is enough because keys are never removed (\<open>rg_ensure_signing_key\<close>). The pages of \<open>fold_at\<close> are
  bounded by its target, which \<open>rg_fold_pages\<close> shows is never reached. The table holds fewer than \<open>2 ^ 64 - 1\<close>
  items, so revisions do not wrap.

  \<^bold>\<open>Map.\<close> A helper definition that is one loop or branch of an operation is covered by the lines of that operation;
  header names, one-line constants and accessors have no entry of their own.

  \<^bold>\<open>Not modelled.\<close> The AWS clients (Verified Permissions engine and its caches, Cognito user pools), the paged listings of the
  DynamoDB organization store, the HTTP handlers of the control plane, the Pingora adapter, the command-line tools
  and the Lambda entry point are shells around services and frameworks. TOML configuration, the Cedar JSON schema,
  the user-attribute schema and the developer commands of \<open>xtask\<close> are left out. The crates \<open>audit\<close>,
  \<open>back-office\<close>, \<open>ffi\<close> and \<open>sdk\<close> are empty. Logging and metrics have no effect on results and are omitted.
\<close>

end
